(* ===== verification/Prelude.thy ===== *)
theory Prelude
  imports Main "HOL-Library.Word" "HOL-Library.Code_Target_Numeral"
begin

text \<open>
  Shared vocabulary of the development: the machine integers and byte strings of the
  program, the result type that stands for Rust's \<open>Result\<close> (and for panics), the
  big-endian reads and writes that all wire formats use, the reads and writes on byte
  streams, and the generic lemmas about lists and words that the components rely on.
\<close>

unbundle bit_operations_syntax

named_theorems codec_simps \<open>equations that evaluate encoders and decoders on appended input\<close>
named_theorems res_simps \<open>equations and case splits of the result type\<close>

section \<open>Types\<close>

type_synonym u8 = "8 word"
type_synonym u16 = "16 word"
type_synonym u32 = "32 word"
type_synonym u128 = "128 word"
type_synonym bytes = "u8 list"

text \<open>
  A Rust \<open>str\<close> is its UTF-8 bytes; \<open>lit\<close> turns an ASCII literal of the source into them.
\<close>

type_synonym rstr = "u8 list"

definition lit :: "string \<Rightarrow> rstr" where
  "lit s = map of_char s"

text \<open>
  A fallible call either panics (an \<open>assert!\<close>, an out-of-range slice, an \<open>unwrap\<close> of a
  missing value), or returns an error, tagged with the context string of the source.
\<close>

datatype fault = Panic string | Err string

type_synonym 'a res = "fault + 'a"

text \<open>The \<open>?\<close> operator: the first fault ends the computation.\<close>

definition and_then :: "'a res \<Rightarrow> ('a \<Rightarrow> 'b res) \<Rightarrow> 'b res" where
  "and_then m f = (case m of Inl e \<Rightarrow> Inl e | Inr x \<Rightarrow> f x)"

definition is_ok :: "'a res \<Rightarrow> bool" where
  "is_ok m = (case m of Inl _ \<Rightarrow> False | Inr _ \<Rightarrow> True)"

text \<open>\<open>Result::ok\<close> forgets the error; \<open>context\<close> turns a missing value into an error.\<close>

definition res_ok :: "'a res \<Rightarrow> 'a option" where
  "res_ok m = (case m of Inl _ \<Rightarrow> None | Inr x \<Rightarrow> Some x)"

definition ok_or :: "string \<Rightarrow> 'a option \<Rightarrow> 'a res" where
  "ok_or msg v = (case v of None \<Rightarrow> Inl (Err msg) | Some x \<Rightarrow> Inr x)"

text \<open>\<open>with_context\<close> replaces the message of an error and lets a panic through.\<close>

definition in_context :: "string \<Rightarrow> 'a res \<Rightarrow> 'a res" where
  "in_context msg m =
     (case m of Inl (Err _) \<Rightarrow> Inl (Err msg) | Inl (Panic p) \<Rightarrow> Inl (Panic p) | Inr x \<Rightarrow> Inr x)"

section \<open>Big-endian integers\<close>

text \<open>
  \<open>to_be n w\<close> is the \<open>n\<close> low bytes of \<open>w\<close>, most significant first (\<open>to_be_bytes\<close>,
  \<open>octets\<close>, \<open>write_u16::<BigEndian>\<close>); \<open>from_be\<close> is the inverse read (\<open>from_be_bytes\<close>,
  \<open>get_u16\<close>, \<open>get_u32\<close>, \<open>get_u128\<close>).
\<close>

fun to_be :: "nat \<Rightarrow> 'a::len word \<Rightarrow> bytes" where
  "to_be 0 w = []"
| "to_be (Suc n) w = to_be n (drop_bit 8 w) @ [ucast w]"

fun from_be_acc :: "'a::len word \<Rightarrow> bytes \<Rightarrow> 'a word" where
  "from_be_acc acc [] = acc"
| "from_be_acc acc (b # bs) = from_be_acc (push_bit 8 acc OR ucast b) bs"

definition from_be :: "bytes \<Rightarrow> 'a::len word" where
  "from_be bs = from_be_acc 0 bs"

abbreviation be16 :: "u16 \<Rightarrow> bytes" where "be16 w \<equiv> to_be 2 w"
abbreviation be32 :: "u32 \<Rightarrow> bytes" where "be32 w \<equiv> to_be 4 w"
abbreviation be128 :: "u128 \<Rightarrow> bytes" where "be128 w \<equiv> to_be 16 w"

section \<open>Byte streams\<close>

text \<open>
  The bytes an \<open>AsyncRead\<close> still delivers before its end. \<open>read_exact\<close> takes exactly
  \<open>n\<close> of them or fails with \<open>UnexpectedEof\<close>; the bytes it did take are then lost with
  the stream, so no rest is returned.
\<close>

definition read_exact :: "nat \<Rightarrow> bytes \<Rightarrow> (bytes \<times> bytes) res" where
  "read_exact n input =
     (if length input < n then Inl (Err ''UnexpectedEof'') else Inr (take n input, drop n input))"

text \<open>
  Where the program reacts to partial reads, a stream is the list of the segments that
  arrive, each non-empty. \<open>read_some cap\<close> is one \<open>read\<close> into a slice of length \<open>cap\<close>:
  at most one segment, at most \<open>cap\<close> bytes of it, and nothing at the end of the stream.
\<close>

type_synonym segments = "bytes list"

fun read_some :: "nat \<Rightarrow> segments \<Rightarrow> bytes \<times> segments" where
  "read_some cap [] = ([], [])"
| "read_some cap (s # ss) =
     (take cap s, if length s \<le> cap then ss else drop cap s # ss)"

definition seg_ok :: "segments \<Rightarrow> bool" where
  "seg_ok ss \<longleftrightarrow> [] \<notin> set ss"

section \<open>Lemmas on results\<close>

lemma and_then_simps [simp, res_simps]:
  "and_then (Inl e) f = Inl e"
  "and_then (Inr x) f = f x"
  by (simp_all add: and_then_def)

lemma and_then_Inr_conv [res_simps]:
  "and_then m f = Inr y \<longleftrightarrow> (\<exists>x. m = Inr x \<and> f x = Inr y)"
  by (auto simp: and_then_def split: sum.splits)

lemma and_then_Inl_conv [res_simps]:
  "and_then m f = Inl e \<longleftrightarrow> m = Inl e \<or> (\<exists>x. m = Inr x \<and> f x = Inl e)"
  by (auto simp: and_then_def split: sum.splits)

lemma is_ok_simps [simp]: "\<not> is_ok (Inl e)" "is_ok (Inr x)"
  by (simp_all add: is_ok_def)

lemma is_ok_conv: "is_ok m \<longleftrightarrow> (\<exists>x. m = Inr x)"
  by (cases m) auto

lemma res_ok_simps [simp]: "res_ok (Inl e) = None" "res_ok (Inr x) = Some x"
  by (simp_all add: res_ok_def)

lemma ok_or_simps [simp]: "ok_or msg None = Inl (Err msg)" "ok_or msg (Some x) = Inr x"
  by (simp_all add: ok_or_def)

lemma ok_or_Inr_conv [res_simps]: "ok_or msg v = Inr x \<longleftrightarrow> v = Some x"
  by (cases v) auto

lemma in_context_simps [simp]:
  "in_context msg (Inr x) = Inr x"
  "in_context msg (Inl (Err e)) = Inl (Err msg)"
  "in_context msg (Inl (Panic p)) = Inl (Panic p)"
  by (simp_all add: in_context_def)

lemma in_context_Inr_conv [res_simps]: "in_context msg m = Inr x \<longleftrightarrow> m = Inr x"
  by (auto simp: in_context_def split: sum.splits fault.splits)

section \<open>Lemmas on big-endian integers\<close>

lemma length_to_be [simp]: "length (to_be n w) = n"
  by (induction n arbitrary: w) auto

lemma from_be_acc_append: "from_be_acc acc (xs @ ys) = from_be_acc (from_be_acc acc xs) ys"
  by (induction xs arbitrary: acc) auto

lemma from_be_snoc: "from_be (xs @ [b]) = push_bit 8 (from_be xs) OR ucast b"
  by (simp add: from_be_def from_be_acc_append)

lemma push_drop_or_low:
  fixes w :: "'a::len word"
  shows "push_bit 8 (take_bit (8 * n) (drop_bit 8 w)) OR ucast (ucast w :: u8) = take_bit (8 * Suc n) w"
proof (rule bit_word_eqI)
  fix i assume i: "i < LENGTH('a)"
  show "bit (push_bit 8 (take_bit (8 * n) (drop_bit 8 w)) OR ucast (ucast w :: u8)) i =
        bit (take_bit (8 * Suc n) w) i"
    using i by (cases "i < 8")
      (auto simp: bit_simps)
qed

lemma from_be_to_be: "from_be (to_be n w) = take_bit (8 * n) w"
proof (induction n arbitrary: w)
  case 0
  then show ?case by (simp add: from_be_def)
next
  case (Suc n)
  then show ?case using push_drop_or_low[of n w] by (simp add: from_be_snoc)
qed

lemma from_be_to_be_full [simp, codec_simps]:
  fixes w :: "'a::len word"
  shows "LENGTH('a) \<le> 8 * n \<Longrightarrow> from_be (to_be n w) = w"
  by (simp add: from_be_to_be) (metis take_bit_length_eq take_bit_word_eq_self)

lemma from_be_inj_step:
  fixes acc :: "'a::len word"
  assumes "LENGTH('a) \<ge> 8"
  shows "ucast (push_bit 8 acc OR ucast b) = (b :: u8)"
  using assms by (intro bit_word_eqI) (auto simp: bit_simps)

lemma take_bit_drop_push:
  fixes acc :: "'a::len word"
  assumes "8 * Suc n \<le> LENGTH('a)"
  shows "take_bit (8 * n) (drop_bit 8 (push_bit 8 acc OR ucast (b :: u8))) = take_bit (8 * n) acc"
  using assms by (intro bit_word_eqI) (auto simp: bit_simps dest: bit_imp_le_length)

lemma to_be_cong:
  "take_bit (8 * n) v = take_bit (8 * n) w \<Longrightarrow> to_be n v = to_be n w"
proof (induction n arbitrary: v w)
  case 0
  then show ?case by simp
next
  case (Suc n)
  have eq: "bit v i = bit w i" if "i < 8 * Suc n" for i
    using arg_cong[OF Suc.prems, of "\<lambda>x. bit x i"] that by (simp add: bit_take_bit_iff)
  have "take_bit (8 * n) (drop_bit 8 v) = take_bit (8 * n) (drop_bit 8 w)"
  proof (rule bit_word_eqI)
    fix i
    show "bit (take_bit (8 * n) (drop_bit 8 v)) i = bit (take_bit (8 * n) (drop_bit 8 w)) i"
      using eq[of "8 + i"] by (simp add: bit_take_bit_iff bit_drop_bit_eq) blast
  qed
  moreover have "(ucast v :: u8) = ucast w"
  proof (rule bit_word_eqI)
    fix i assume "i < LENGTH(8)"
    then have "i < 8 * Suc n" by simp
    then have "bit v i = bit w i" by (rule eq)
    then show "bit (ucast v :: u8) i = bit (ucast w :: u8) i"
      by (simp only: bit_ucast_iff)
  qed
  ultimately show ?case using Suc.IH[of "drop_bit 8 v" "drop_bit 8 w"] by simp
qed

lemma to_be_from_be:
  "8 * length bs \<le> LENGTH('a) \<Longrightarrow> to_be (length bs) (from_be bs :: 'a::len word) = bs"
proof (induction bs rule: rev_induct)
  case Nil
  then show ?case by simp
next
  case (snoc b bs)
  let ?w = "push_bit 8 (from_be bs) OR ucast b :: 'a word"
  have "to_be (length bs) (drop_bit 8 ?w) = to_be (length bs) (from_be bs :: 'a word)"
    using snoc.prems by (intro to_be_cong take_bit_drop_push) simp
  moreover have "ucast ?w = b"
    using snoc.prems by (intro from_be_inj_step) simp
  ultimately show ?case using snoc by (simp add: from_be_snoc)
qed

lemma to_be_from_be_n [simp]:
  "length bs = n \<Longrightarrow> 8 * n \<le> LENGTH('a) \<Longrightarrow> to_be n (from_be bs :: 'a::len word) = bs"
  using to_be_from_be by blast

lemma take_to_be [simp, codec_simps]: "take n (to_be n w @ xs) = to_be n w"
  by simp

lemma drop_to_be [simp, codec_simps]: "drop n (to_be n w @ xs) = xs"
  by simp

section \<open>Lemmas on streams\<close>

lemma read_exact_append [simp, codec_simps]:
  "length xs = n \<Longrightarrow> read_exact n (xs @ ys) = Inr (xs, ys)"
  by (simp add: read_exact_def)

lemma read_exact_Inr_conv [res_simps]:
  "read_exact n input = Inr (a, b) \<longleftrightarrow> input = a @ b \<and> length a = n"
  by (auto simp: read_exact_def)

lemma read_exact_short [simp]: "length input < n \<Longrightarrow> read_exact n input = Inl (Err ''UnexpectedEof'')"
  by (simp add: read_exact_def)

lemma read_exact_1 [simp, codec_simps]: "read_exact (Suc 0) (x # xs) = Inr ([x], xs)"
  by (simp add: read_exact_def)

lemma read_some_concat:
  "read_some cap ss = (d, ss') \<Longrightarrow> concat ss = d @ concat ss'"
  by (cases ss) (auto split: if_splits)

lemma read_some_len: "read_some cap ss = (d, ss') \<Longrightarrow> length d \<le> cap"
  by (cases ss) (auto split: if_splits)

lemma read_some_ok: "seg_ok ss \<Longrightarrow> read_some cap ss = (d, ss') \<Longrightarrow> seg_ok ss'"
  by (cases ss) (auto simp: seg_ok_def split: if_splits)

lemma read_some_progress:
  "seg_ok ss \<Longrightarrow> 0 < cap \<Longrightarrow> read_some cap ss = (d, ss') \<Longrightarrow> d = [] \<longleftrightarrow> concat ss = []"
  by (cases ss) (auto simp: seg_ok_def split: if_splits)

end
