(* ===== verification/Rust_Search.thy ===== *)
theory Rust_Search
  imports Prelude
begin

text \<open>
  Binary search as Rust's \<open>binary_search_by_key\<close> does it: \<open>Inr i\<close> is \<open>Ok(i)\<close>, the index of
  an element with the key; \<open>Inl i\<close> is \<open>Err(i)\<close>, the index where the key would be inserted.
  The connection table of the UDP server and the country lookup rest on it.
\<close>

function bsearch_loop :: "(nat \<Rightarrow> bool) \<Rightarrow> nat \<Rightarrow> nat \<Rightarrow> nat" where
  "bsearch_loop gt base sz =
     (if sz \<le> 1 then base
      else (let half = sz div 2; mid = base + half
            in bsearch_loop gt (if gt mid then base else mid) (sz - half)))"
  by pat_completeness auto
termination
  by (relation "measure (\<lambda>(g, b, s). s)") auto

declare bsearch_loop.simps [simp del]

definition binary_search_by_key :: "('a \<Rightarrow> 'k::linorder) \<Rightarrow> 'k \<Rightarrow> 'a list \<Rightarrow> nat + nat" where
  "binary_search_by_key key k xs =
     (if xs = [] then Inl 0
      else (let i = bsearch_loop (\<lambda>j. k < key (xs ! j)) 0 (length xs)
            in if key (xs ! i) = k then Inr i
               else if key (xs ! i) < k then Inl (i + 1) else Inl i))"

text \<open>
  The loop narrows a window whose first element is not gt the key (unless the window
  starts the list) and after which every element is gt it.
\<close>

lemma bsearch_loop_spec:
  assumes "sorted (map key xs)" and "0 < sz" and "base + sz \<le> length xs"
    and "base = 0 \<or> key (xs ! base) \<le> k"
    and "\<And>j. base + sz \<le> j \<Longrightarrow> j < length xs \<Longrightarrow> k < key (xs ! j)"
    and "i = bsearch_loop (\<lambda>j. k < key (xs ! j)) base sz"
  shows "i < length xs \<and> (i = 0 \<or> key (xs ! i) \<le> k) \<and> (\<forall>j. i < j \<longrightarrow> j < length xs \<longrightarrow> k < key (xs ! j))"
  using assms
proof (induction "\<lambda>j. k < key (xs ! j)" base sz rule: bsearch_loop.induct)
  case (1 base sz)
  let ?g = "\<lambda>j. k < key (xs ! j)"
  show ?case
  proof (cases "sz \<le> 1")
    case True
    with "1.prems" have "i = base" "sz = 1"
      by (simp_all add: bsearch_loop.simps[of ?g base sz])
    then show ?thesis using "1.prems"(3-5) by fastforce
  next
    case False
    define half where "half = sz div 2"
    define mid where "mid = base + half"
    have half: "0 < half" "half < sz" using False by (auto simp: half_def)
    have mid: "mid < length xs" using half "1.prems"(3) by (simp add: mid_def)
    have i: "i = bsearch_loop ?g (if ?g mid then base else mid) (sz - half)"
      using "1.prems"(6) False
      by (simp add: bsearch_loop.simps[of ?g base sz] half_def mid_def Let_def)
    have up: "?g j" if "?g mid" "mid \<le> j" "j < length xs" for j
      using sorted_nth_mono[OF "1.prems"(1), of mid j] that mid by auto
    show ?thesis
    proof (rule "1.hyps"[OF False half_def mid_def "1.prems"(1) _ _ _ _ i])
      show "0 < sz - half" using half by simp
      show "(if ?g mid then base else mid) + (sz - half) \<le> length xs"
        using half "1.prems"(3) by (auto simp: mid_def)
      show "(if ?g mid then base else mid) = 0 \<or> key (xs ! (if ?g mid then base else mid)) \<le> k"
        using "1.prems"(4) by auto
      fix j assume j: "(if ?g mid then base else mid) + (sz - half) \<le> j" "j < length xs"
      show "?g j"
      proof (cases "?g mid")
        case True
        have "half \<le> sz - half" by (simp add: half_def)
        then have "mid \<le> j" using True j(1) by (simp add: mid_def)
        with up[OF True] j(2) show ?thesis by simp
      next
        case False
        then have "base + sz \<le> j" using j(1) half by (simp add: mid_def)
        then show ?thesis using "1.prems"(5) j(2) by simp
      qed
    qed
  qed
qed

lemma bsearch_Ok:
  "binary_search_by_key key k xs = Inr i \<Longrightarrow> sorted (map key xs) \<Longrightarrow> i < length xs \<and> key (xs ! i) = k"
  using bsearch_loop_spec[of key xs "length xs" 0 k "bsearch_loop (\<lambda>j. k < key (xs ! j)) 0 (length xs)"]
  by (auto simp: binary_search_by_key_def Let_def split: if_splits)

lemma bsearch_Err:
  assumes "binary_search_by_key key k xs = Inl i" and "sorted (map key xs)"
  shows "i \<le> length xs \<and> (\<forall>j < i. key (xs ! j) < k) \<and> (\<forall>j. i \<le> j \<longrightarrow> j < length xs \<longrightarrow> k < key (xs ! j))"
proof (cases "xs = []")
  case True
  with assms(1) show ?thesis by (simp add: binary_search_by_key_def)
next
  case False
  define m where "m = bsearch_loop (\<lambda>j. k < key (xs ! j)) 0 (length xs)"
  have m: "m < length xs" "m = 0 \<or> key (xs ! m) \<le> k" "\<And>j. m < j \<Longrightarrow> j < length xs \<Longrightarrow> k < key (xs ! j)"
    using bsearch_loop_spec[OF assms(2) _ _ _ _ m_def] False by auto
  have ne: "key (xs ! m) \<noteq> k" and i: "i = (if key (xs ! m) < k then m + 1 else m)"
    using assms(1) False by (auto simp: binary_search_by_key_def m_def[symmetric] Let_def split: if_splits)
  show ?thesis
  proof (cases "key (xs ! m) < k")
    case True
    have "key (xs ! j) < k" if "j < m + 1" for j
      using sorted_nth_mono[OF assms(2), of j m] that m(1) True by auto
    with True i m show ?thesis by auto
  next
    case nl: False
    with ne m(2) have "m = 0" by auto
    have "k < key (xs ! j)" if "j < length xs" for j
      using m(3)[of j] that nl ne \<open>m = 0\<close> by (cases "j = 0") auto
    with nl i \<open>m = 0\<close> show ?thesis by auto
  qed
qed

lemma bsearch_found:
  assumes "sorted_wrt (<) (map key xs)"
  shows "binary_search_by_key key k xs = Inr i \<longleftrightarrow> i < length xs \<and> key (xs ! i) = k"
proof
  assume "binary_search_by_key key k xs = Inr i"
  then show "i < length xs \<and> key (xs ! i) = k"
    using bsearch_Ok assms strict_sorted_imp_sorted by blast
next
  assume i: "i < length xs \<and> key (xs ! i) = k"
  have s: "sorted (map key xs)" using assms strict_sorted_imp_sorted by blast
  show "binary_search_by_key key k xs = Inr i"
  proof (cases "binary_search_by_key key k xs")
    case (Inl e)
    with bsearch_Err[OF Inl s] i show ?thesis by (metis linorder_not_less order.strict_iff_not)
  next
    case (Inr j)
    with bsearch_Ok[OF Inr s] i assms have "j = i"
      by (metis length_map linorder_neqE_nat nth_map order.strict_iff_not sorted_wrt_nth_less)
    with Inr show ?thesis by simp
  qed
qed

text \<open>The two outcomes as decompositions of the list.\<close>

lemma bsearch_Ok_split:
  assumes "binary_search_by_key key k m = Inr p" and "sorted_wrt (<) (map key m)"
  obtains xs y zs where "m = xs @ y # zs" and "length xs = p" and "key y = k"
    and "\<And>x. x \<in> set xs \<Longrightarrow> key x < k" and "\<And>x. x \<in> set zs \<Longrightarrow> k < key x"
proof -
  have p: "p < length m" "key (m ! p) = k"
    using bsearch_Ok[OF assms(1)] assms(2) strict_sorted_imp_sorted by auto
  have m: "m = take p m @ m ! p # drop (Suc p) m" using p(1) by (rule id_take_nth_drop)
  from assms(2) have "sorted_wrt (<) (map key (take p m @ m ! p # drop (Suc p) m))" using m by simp
  then show thesis
    using p by (intro that[OF m]) (auto simp: sorted_wrt_append)
qed

lemma bsearch_Err_split:
  assumes "binary_search_by_key key k m = Inl i" and "sorted (map key m)"
  obtains xs zs where "m = xs @ zs" and "length xs = i"
    and "\<And>x. x \<in> set xs \<Longrightarrow> key x < k" and "\<And>x. x \<in> set zs \<Longrightarrow> k < key x"
proof -
  from bsearch_Err[OF assms] have i: "i \<le> length m" "\<forall>j < i. key (m ! j) < k"
    "\<forall>j. i \<le> j \<longrightarrow> j < length m \<longrightarrow> k < key (m ! j)" by auto
  show thesis
  proof (rule that[of "take i m" "drop i m"])
    fix x assume "x \<in> set (take i m)"
    then show "key x < k" using i(2) by (auto simp: in_set_conv_nth)
  next
    fix x assume "x \<in> set (drop i m)"
    then obtain j where "j < length (drop i m)" "x = drop i m ! j" by (auto simp: in_set_conv_nth)
    then show "k < key x" using i(3)[rule_format, of "i + j"] by simp
  qed (use i(1) in simp_all)
qed

end
