(* ===== verification/Conn_Map.thy ===== *)
theory Conn_Map
  imports Rust_Search
begin

text \<open>
  The connection table of the UDP server (\<open>ConnMap\<close> of src/protocol/udpman/server.rs): a deque
  of connections sorted by id, searched by bisection, and the allocation of ids. A connection
  is its id and the handle of its task (an index into the task table of the server).
\<close>

section \<open>Model\<close>

record conn =
  c_id :: u16
  c_task :: nat

type_synonym conn_map = "conn list"

text \<open>The second component is the connection that is dropped.\<close>

definition conn_insert :: "conn \<Rightarrow> conn_map \<Rightarrow> conn_map \<times> conn option" where
  "conn_insert c m =
     (case binary_search_by_key c_id (c_id c) m of
        Inr p \<Rightarrow> (m[p := c], Some (m ! p))
      | Inl index \<Rightarrow> (take index m @ c # drop index m, None))"

definition conn_get :: "conn_map \<Rightarrow> u16 \<Rightarrow> conn option" where
  "conn_get m i =
     (case binary_search_by_key c_id i m of Inr p \<Rightarrow> Some (m ! p) | Inl _ \<Rightarrow> None)"

definition conn_remove :: "u16 \<Rightarrow> conn_map \<Rightarrow> conn_map \<times> conn option" where
  "conn_remove i m =
     (case binary_search_by_key c_id i m of
        Inr p \<Rightarrow> (take p m @ drop (Suc p) m, Some (m ! p))
      | Inl _ \<Rightarrow> (m, None))"

definition checked_add1 :: "u16 \<Rightarrow> u16 option" where
  "checked_add1 w = (if w = 0xFFFF then None else Some (w + 1))"

fun find_gap :: "u16 \<Rightarrow> conn_map \<Rightarrow> u16 option" where
  "find_gap expecting [] = None"
| "find_gap expecting (c # cs) =
     (if expecting \<noteq> c_id c then Some expecting
      else case checked_add1 expecting of None \<Rightarrow> None | Some e \<Rightarrow> find_gap e cs)"

definition find_available_id :: "conn_map \<Rightarrow> u16 option" where
  "find_available_id m =
     (let max_key = (if m = [] then 0 else c_id (last m))
      in case checked_add1 max_key of Some k \<Rightarrow> Some k | None \<Rightarrow> find_gap 0 m)"

section \<open>The contract of an id table\<close>

text \<open>
  What the server relies on: the table is a finite map from ids to entries. \<open>ins\<close> and \<open>del\<close>
  also return the entry that they displaced.
\<close>

locale id_table =
  fixes inv :: "'m \<Rightarrow> bool"
    and lookup :: "'m \<Rightarrow> 'k \<Rightarrow> 'v option"
    and key :: "'v \<Rightarrow> 'k"
    and ins :: "'v \<Rightarrow> 'm \<Rightarrow> 'm \<times> 'v option"
    and del :: "'k \<Rightarrow> 'm \<Rightarrow> 'm \<times> 'v option"
    and fresh :: "'m \<Rightarrow> 'k option"
  assumes ins_inv: "inv m \<Longrightarrow> inv (fst (ins v m))"
    and del_inv: "inv m \<Longrightarrow> inv (fst (del k m))"
    and lookup_key: "inv m \<Longrightarrow> lookup m k = Some v \<Longrightarrow> key v = k"
    and lookup_ins: "inv m \<Longrightarrow> lookup (fst (ins v m)) = (lookup m)(key v \<mapsto> v)"
    and ins_old: "inv m \<Longrightarrow> snd (ins v m) = lookup m (key v)"
    and lookup_del: "inv m \<Longrightarrow> lookup (fst (del k m)) = (lookup m)(k := None)"
    and del_old: "inv m \<Longrightarrow> snd (del k m) = lookup m k"
    and fresh_free: "inv m \<Longrightarrow> fresh m = Some k \<Longrightarrow> lookup m k = None"
    and fresh_full: "inv m \<Longrightarrow> fresh m = None \<Longrightarrow> lookup m k \<noteq> None"
begin

text \<open>An entry added under a fresh key displaces nothing and leaves the others.\<close>

lemma ins_fresh:
  assumes "inv m" and "fresh m = Some (key v)"
  shows "snd (ins v m) = None" and "dom (lookup m) \<subseteq> dom (lookup (fst (ins v m)))"
    and "k \<noteq> key v \<Longrightarrow> lookup (fst (ins v m)) k = lookup m k"
  using assms by (auto simp: ins_old lookup_ins fresh_free)

lemma fresh_iff: "inv m \<Longrightarrow> fresh m = None \<longleftrightarrow> dom (lookup m) = UNIV"
  using fresh_free fresh_full by (cases "fresh m") (auto simp: dom_def set_eq_iff)

lemma del_ins_fresh:
  assumes "inv m" and "fresh m = Some (key v)"
  shows "lookup (fst (del (key v) (fst (ins v m)))) = lookup m"
  using assms by (auto simp: lookup_del lookup_ins ins_inv fresh_free)

text \<open>Whatever holds of every entry is kept by both updates.\<close>

lemma ins_all:
  assumes "inv m" and "\<And>k w. lookup m k = Some w \<Longrightarrow> P w" and "P v" and "lookup (fst (ins v m)) k = Some w"
  shows "P w"
  using assms by (auto simp: lookup_ins split: if_splits)

lemma del_all:
  assumes "inv m" and "\<And>k w. lookup m k = Some w \<Longrightarrow> P w" and "lookup (fst (del k' m)) k = Some w"
  shows "P w"
  using assms by (auto simp: lookup_del split: if_splits)

end

section \<open>The sorted deque meets the contract\<close>

definition conn_sorted :: "conn_map \<Rightarrow> bool" where
  "conn_sorted m \<longleftrightarrow> sorted_wrt (<) (map c_id m)"

lemma conn_sorted_weak: "conn_sorted m \<Longrightarrow> sorted (map c_id m)"
  by (simp add: conn_sorted_def strict_sorted_imp_sorted)

text \<open>The three operations, each on the decomposition that the search finds.\<close>

lemma conn_search:
  assumes "conn_sorted m"
  obtains (absent) xs zs where "m = xs @ zs"
      "\<And>x. x \<in> set xs \<Longrightarrow> c_id x < i" "\<And>x. x \<in> set zs \<Longrightarrow> i < c_id x"
      "conn_get m i = None" "conn_remove i m = (m, None)"
      "\<And>c. c_id c = i \<Longrightarrow> conn_insert c m = (xs @ c # zs, None)"
    | (found) xs y zs where "m = xs @ y # zs" "c_id y = i"
      "\<And>x. x \<in> set xs \<Longrightarrow> c_id x < i" "\<And>x. x \<in> set zs \<Longrightarrow> i < c_id x"
      "conn_get m i = Some y" "conn_remove i m = (xs @ zs, Some y)"
      "\<And>c. c_id c = i \<Longrightarrow> conn_insert c m = (xs @ c # zs, Some y)"
proof (cases "binary_search_by_key c_id i m")
  case (Inl e)
  obtain xs zs where "m = xs @ zs" "length xs = e"
    "\<And>x. x \<in> set xs \<Longrightarrow> c_id x < i" "\<And>x. x \<in> set zs \<Longrightarrow> i < c_id x"
    using bsearch_Err_split[OF Inl conn_sorted_weak[OF assms]] by blast
  with Inl show ?thesis
    by (intro absent[of xs zs]) (auto simp: conn_get_def conn_remove_def conn_insert_def)
next
  case (Inr p)
  obtain xs y zs where "m = xs @ y # zs" "length xs = p" "c_id y = i"
    "\<And>x. x \<in> set xs \<Longrightarrow> c_id x < i" "\<And>x. x \<in> set zs \<Longrightarrow> i < c_id x"
    using bsearch_Ok_split[OF Inr assms[unfolded conn_sorted_def]] by blast
  with Inr show ?thesis
    by (intro found[of xs y zs]) (auto simp: conn_get_def conn_remove_def conn_insert_def)
qed

lemma conn_get_iff:
  assumes "conn_sorted m"
  shows "conn_get m i = Some c \<longleftrightarrow> c \<in> set m \<and> c_id c = i"
  using assms by (cases rule: conn_search[of m i]) fastforce+

lemma conn_get_None_iff: "conn_sorted m \<Longrightarrow> conn_get m i = None \<longleftrightarrow> i \<notin> c_id ` set m"
  by (cases rule: conn_search[of m i]) fastforce+

lemma conn_get_key: "conn_sorted m \<Longrightarrow> conn_get m i = Some c \<Longrightarrow> c_id c = i"
  by (simp add: conn_get_iff)

lemma conn_insert_sorted: "conn_sorted m \<Longrightarrow> conn_sorted (fst (conn_insert c m))"
  by (cases rule: conn_search[of m "c_id c"]) (auto simp: conn_sorted_def sorted_wrt_append)

lemma conn_insert_set:
  "conn_sorted m \<Longrightarrow> set (fst (conn_insert c m)) = insert c {x \<in> set m. c_id x \<noteq> c_id c}"
  by (cases rule: conn_search[of m "c_id c"]) fastforce+

lemma conn_remove_sorted: "conn_sorted m \<Longrightarrow> conn_sorted (fst (conn_remove i m))"
  by (cases rule: conn_search[of m i]) (auto simp: conn_sorted_def sorted_wrt_append)

lemma conn_remove_set:
  "conn_sorted m \<Longrightarrow> set (fst (conn_remove i m)) = {x \<in> set m. c_id x \<noteq> i}"
  by (cases rule: conn_search[of m i]) fastforce+

lemma conn_get_cong:
  assumes "conn_sorted m" and "\<And>c. r = Some c \<longleftrightarrow> c \<in> set m \<and> c_id c = i"
  shows "conn_get m i = r"
  using conn_get_iff[OF assms(1), of i] assms(2) by (metis not_None_eq)

lemma conn_get_insert:
  assumes "conn_sorted m"
  shows "conn_get (fst (conn_insert c m)) = (conn_get m)(c_id c \<mapsto> c)"
  by (rule ext, rule conn_get_cong)
    (auto simp: assms conn_insert_sorted conn_insert_set conn_get_iff)

lemma conn_get_remove:
  assumes "conn_sorted m"
  shows "conn_get (fst (conn_remove i m)) = (conn_get m)(i := None)"
  by (rule ext, rule conn_get_cong)
    (auto simp: assms conn_remove_sorted conn_remove_set conn_get_iff)

lemma conn_insert_old: "conn_sorted m \<Longrightarrow> snd (conn_insert c m) = conn_get m (c_id c)"
  by (cases rule: conn_search[of m "c_id c"]) auto

lemma conn_remove_old: "conn_sorted m \<Longrightarrow> snd (conn_remove i m) = conn_get m i"
  by (cases rule: conn_search[of m i]) auto

subsection \<open>Allocation of ids\<close>

lemma checked_add1_Some: "checked_add1 w = Some v \<longleftrightarrow> w \<noteq> 0xFFFF \<and> v = w + 1"
  by (auto simp: checked_add1_def)

lemma max_u16_eq: "(0xFFFF :: u16) = - 1"
  by code_simp

lemma less_add1: "w \<noteq> 0xFFFF \<Longrightarrow> w < w + (1 :: u16)"
  using unatSuc[of w] by (simp add: word_less_nat_alt max_u16_eq add.commute add_eq_0_iff)

lemma add1_le_iff: "w \<noteq> 0xFFFF \<Longrightarrow> w + (1 :: u16) \<le> x \<longleftrightarrow> w < x"
  using less_add1[of w] inc_le[of w x] by auto

lemma max_u16: "(x :: u16) \<le> 0xFFFF"
  using word_order.extremum[of x] by (simp only: max_u16_eq)

lemma find_gap_free:
  "find_gap e m = Some k \<Longrightarrow> conn_sorted m \<Longrightarrow> \<forall>c \<in> set m. e \<le> c_id c \<Longrightarrow> e \<le> k \<and> k \<notin> c_id ` set m"
proof (induction e m rule: find_gap.induct)
  case (2 e c cs)
  have s: "conn_sorted cs" "\<forall>d \<in> set cs. c_id c < c_id d"
    using "2.prems"(2) by (auto simp: conn_sorted_def)
  show ?case
  proof (cases "e = c_id c")
    case False
    then have "k = e" "e < c_id c" using "2.prems" by auto
    then show ?thesis using s(2) by auto
  next
    case True
    then obtain e' where e': "checked_add1 e = Some e'" "find_gap e' cs = Some k"
      using "2.prems"(1) by (auto split: option.splits)
    then have gt: "e \<noteq> 0xFFFF" "e' = e + 1" by (auto simp: checked_add1_Some)
    have "\<forall>d \<in> set cs. e' \<le> c_id d" using s(2) True gt by (simp add: add1_le_iff)
    then have "e' \<le> k" "k \<notin> c_id ` set cs" using "2.IH" True e' s(1) by auto
    then show ?thesis using True gt add1_le_iff by auto
  qed
qed simp

lemma find_gap_full:
  "find_gap e m = None \<Longrightarrow> m \<noteq> [] \<Longrightarrow> c_id (last m) = 0xFFFF \<Longrightarrow> e \<le> x \<Longrightarrow> x \<in> c_id ` set m"
proof (induction e m rule: find_gap.induct)
  case (2 e c cs)
  have e: "e = c_id c" using "2.prems"(1) by (auto split: if_splits)
  show ?case
  proof (cases "checked_add1 e")
    case None
    then have "x = e" using "2.prems"(4) max_u16[of x] by (auto simp: checked_add1_def split: if_splits)
    then show ?thesis using e by simp
  next
    case (Some e')
    then have gt: "e \<noteq> 0xFFFF" "e' = e + 1" by (auto simp: checked_add1_Some)
    then have cs: "cs \<noteq> []" "c_id (last cs) = 0xFFFF"
      using "2.prems"(3) e by (auto split: if_splits)
    have "x = e \<or> e' \<le> x" using "2.prems"(4) gt add1_le_iff[of e x] by auto
    then show ?thesis using "2.IH" e Some cs "2.prems"(1) by auto
  qed
qed simp

lemma conn_last_max:
  assumes "conn_sorted m" and "c \<in> set m"
  shows "c_id c \<le> c_id (last m)"
proof (cases m rule: rev_cases)
  case (snoc xs y)
  with assms show ?thesis by (auto simp: conn_sorted_def sorted_wrt_append)
qed (use assms(2) in simp)

lemma find_available_id_free:
  assumes "conn_sorted m" and "find_available_id m = Some k"
  shows "conn_get m k = None"
proof (cases "checked_add1 (if m = [] then 0 else c_id (last m))")
  case None
  then have "find_gap 0 m = Some k" using assms(2) by (auto simp: find_available_id_def)
  then show ?thesis
    using find_gap_free[of 0 m k] assms(1) by (simp add: conn_get_None_iff)
next
  case (Some v)
  then have "v = k" using assms(2) by (simp add: find_available_id_def)
  then have "c_id c < k" if "c \<in> set m" for c
    using Some conn_last_max[OF assms(1) that] that less_add1[of "c_id (last m)"]
    by (fastforce simp: checked_add1_Some split: if_splits)
  then show ?thesis using assms(1) by (auto simp: conn_get_None_iff)
qed

lemma find_available_id_full:
  assumes "conn_sorted m" and "find_available_id m = None"
  shows "conn_get m k \<noteq> None"
proof -
  have last: "m \<noteq> []" "c_id (last m) = 0xFFFF" "find_gap 0 m = None"
    using assms(2) by (auto simp: find_available_id_def checked_add1_def Let_def split: if_splits)
  then show ?thesis using find_gap_full[OF last(3,1,2), of k] assms(1) conn_get_None_iff by auto
qed

interpretation conns: id_table conn_sorted conn_get c_id conn_insert conn_remove find_available_id
  by unfold_locales
    (simp_all add: conn_insert_sorted conn_remove_sorted conn_get_key conn_get_insert conn_insert_old
      conn_get_remove conn_remove_old find_available_id_free find_available_id_full del: not_None_eq)

section \<open>Properties\<close>

text \<open>
  C21: The sorted deque refines a finite map from ids to connections: on a deque sorted by id, \<open>insert\<close>
  and \<open>remove\<close> keep it sorted, act on \<open>get\<close> as map update and deletion, and hand back exactly
  the connection that was stored under that id.
\<close>

theorem conn_map_refines_map:
  assumes "conn_sorted m"
  shows "conn_sorted (fst (conn_insert c m)) \<and> conn_sorted (fst (conn_remove i m)) \<and>
         conn_get (fst (conn_insert c m)) = (conn_get m)(c_id c \<mapsto> c) \<and> snd (conn_insert c m) = conn_get m (c_id c) \<and>
         conn_get (fst (conn_remove i m)) = (conn_get m)(i := None) \<and> snd (conn_remove i m) = conn_get m i"
  using assms conns.ins_inv conns.del_inv conns.lookup_ins conns.lookup_del conns.ins_old conns.del_old
  by blast

theorem conn_map_refines_map_witness:
  "conn_get (fst (conn_insert \<lparr>c_id = 5, c_task = 2\<rparr> [\<lparr>c_id = 3, c_task = 0\<rparr>, \<lparr>c_id = 9, c_task = 1\<rparr>])) 5 =
     Some \<lparr>c_id = 5, c_task = 2\<rparr>"
  using conn_map_refines_map[of "[\<lparr>c_id = 3, c_task = 0\<rparr>, \<lparr>c_id = 9, c_task = 1\<rparr>]" "\<lparr>c_id = 5, c_task = 2\<rparr>"]
  by (simp add: conn_sorted_def)

text \<open>
  The id allocator is sound and complete on every sorted table: an id it returns is not in use,
  and it gives up only when all 65536 ids are, whether it continues after the largest id or
  wraps around to look for a gap.
\<close>

theorem find_available_id_sound_complete:
  assumes "conn_sorted m"
  shows "(case find_available_id m of Some k \<Rightarrow> conn_get m k = None | None \<Rightarrow> dom (conn_get m) = UNIV)"
  using assms conns.fresh_free conns.fresh_iff by (auto split: option.split)

theorem find_available_id_sound_complete_witness:
  "conn_get [\<lparr>c_id = 0, c_task = 0\<rparr>, \<lparr>c_id = 0xFFFF, c_task = 1\<rparr>] 1 = None"
proof -
  have "find_available_id [\<lparr>c_id = 0, c_task = 0\<rparr>, \<lparr>c_id = 0xFFFF, c_task = 1\<rparr>] = Some 1" by code_simp
  then show ?thesis
    using find_available_id_sound_complete[of "[\<lparr>c_id = 0, c_task = 0\<rparr>, \<lparr>c_id = 0xFFFF, c_task = 1\<rparr>]"]
    by (simp add: conn_sorted_def)
qed

end
