(* ===== verification/Rust_Str.thy ===== *)
theory Rust_Str
  imports Prelude
begin

text \<open>
  The parts of Rust's string library that the program uses, on UTF-8 byte strings:
  UTF-8 validation (\<open>from_utf8\<close>) and lossy decoding (\<open>from_utf8_lossy\<close>), ASCII case
  folding, searching, splitting and trimming, and decimal numbers (\<open>parse\<close>, \<open>Display\<close>).
\<close>

section \<open>UTF-8\<close>

definition is_cont :: "u8 \<Rightarrow> bool" where
  "is_cont b \<longleftrightarrow> 128 \<le> b \<and> b \<le> 191"

definition second_of_3 :: "u8 \<Rightarrow> u8 \<Rightarrow> bool" where
  "second_of_3 b c \<longleftrightarrow>
     (if b = 0xE0 then 0xA0 \<le> c \<and> c \<le> 0xBF
      else if b = 0xED then 0x80 \<le> c \<and> c \<le> 0x9F
      else 0x80 \<le> c \<and> c \<le> 0xBF)"

definition second_of_4 :: "u8 \<Rightarrow> u8 \<Rightarrow> bool" where
  "second_of_4 b c \<longleftrightarrow>
     (if b = 0xF0 then 0x90 \<le> c \<and> c \<le> 0xBF
      else if b = 0xF4 then 0x80 \<le> c \<and> c \<le> 0x8F
      else 0x80 \<le> c \<and> c \<le> 0xBF)"

text \<open>A read past the end gives 0, which continues no sequence.\<close>

definition get_or_0 :: "bytes \<Rightarrow> nat \<Rightarrow> u8" where
  "get_or_0 s i = (if i < length s then s ! i else 0)"

text \<open>
  The first character of a byte string: whether it is well formed, and the number of bytes
  it takes; of an ill-formed one, the length of the longest prefix that could have started
  a character (at least one byte).
\<close>

fun utf8_first :: "bytes \<Rightarrow> bool \<times> nat" where
  "utf8_first [] = (True, 0)"
| "utf8_first (b # r) =
     (if b < 128 then (True, 1)
      else if 0xC2 \<le> b \<and> b \<le> 0xDF then
        (if is_cont (get_or_0 r 0) then (True, 2) else (False, 1))
      else if 0xE0 \<le> b \<and> b \<le> 0xEF then
        (if \<not> second_of_3 b (get_or_0 r 0) then (False, 1)
         else if is_cont (get_or_0 r 1) then (True, 3) else (False, 2))
      else if 0xF0 \<le> b \<and> b \<le> 0xF4 then
        (if \<not> second_of_4 b (get_or_0 r 0) then (False, 1)
         else if \<not> is_cont (get_or_0 r 1) then (False, 2)
         else if is_cont (get_or_0 r 2) then (True, 4) else (False, 3))
      else (False, 1))"

lemma utf8_first_pos: "s \<noteq> [] \<Longrightarrow> 0 < snd (utf8_first s)"
  by (cases s) auto

lemma utf8_first_less [simp]: "s \<noteq> [] \<Longrightarrow> length s - snd (utf8_first s) < length s"
  using utf8_first_pos[of s] by simp

function utf8_valid :: "bytes \<Rightarrow> bool" where
  "utf8_valid s =
     (if s = [] then True
      else if fst (utf8_first s) then utf8_valid (drop (snd (utf8_first s)) s)
      else False)"
  by pat_completeness auto
termination
  by (relation "measure length") auto

declare utf8_valid.simps [simp del]

function from_utf8_lossy :: "bytes \<Rightarrow> rstr" where
  "from_utf8_lossy s =
     (if s = [] then []
      else (if fst (utf8_first s) then take (snd (utf8_first s)) s else [0xEF, 0xBF, 0xBD])
           @ from_utf8_lossy (drop (snd (utf8_first s)) s))"
  by pat_completeness auto
termination
  by (relation "measure length") auto

declare from_utf8_lossy.simps [simp del]

definition from_utf8 :: "bytes \<Rightarrow> rstr option" where
  "from_utf8 s = (if utf8_valid s then Some s else None)"

section \<open>ASCII case\<close>

definition to_lower :: "u8 \<Rightarrow> u8" where
  "to_lower b = (if 65 \<le> b \<and> b \<le> 90 then b + 32 else b)"

definition eq_ignore_ascii_case :: "rstr \<Rightarrow> rstr \<Rightarrow> bool" where
  "eq_ignore_ascii_case a b \<longleftrightarrow> map to_lower a = map to_lower b"

section \<open>Searching and splitting\<close>

text \<open>\<open>iter().position\<close> and \<open>find\<close> of an ASCII character; \<open>rfind\<close> is the last one.\<close>

fun find_byte :: "u8 \<Rightarrow> bytes \<Rightarrow> nat option" where
  "find_byte c [] = None"
| "find_byte c (x # xs) = (if x = c then Some 0 else map_option Suc (find_byte c xs))"

fun rfind_byte :: "u8 \<Rightarrow> bytes \<Rightarrow> nat option" where
  "rfind_byte c [] = None"
| "rfind_byte c (x # xs) =
     (case rfind_byte c xs of
        Some i \<Rightarrow> Some (Suc i)
      | None \<Rightarrow> if x = c then Some 0 else None)"

definition starts_with :: "rstr \<Rightarrow> rstr \<Rightarrow> bool" where
  "starts_with s p \<longleftrightarrow> take (length p) s = p"

definition ends_with :: "rstr \<Rightarrow> rstr \<Rightarrow> bool" where
  "ends_with s p \<longleftrightarrow> length p \<le> length s \<and> drop (length s - length p) s = p"

fun find_str :: "rstr \<Rightarrow> rstr \<Rightarrow> nat option" where
  "find_str p [] = (if p = [] then Some 0 else None)"
| "find_str p (x # xs) =
     (if starts_with (x # xs) p then Some 0 else map_option Suc (find_str p xs))"

definition str_contains :: "rstr \<Rightarrow> rstr \<Rightarrow> bool" where
  "str_contains s p \<longleftrightarrow> find_str p s \<noteq> None"

definition split_once :: "u8 \<Rightarrow> rstr \<Rightarrow> (rstr \<times> rstr) option" where
  "split_once c s = map_option (\<lambda>i. (take i s, drop (Suc i) s)) (find_byte c s)"

fun split_on :: "u8 \<Rightarrow> bytes \<Rightarrow> bytes list" where
  "split_on c [] = [[]]"
| "split_on c (x # xs) =
     (if x = c then [] # split_on c xs
      else (x # hd (split_on c xs)) # tl (split_on c xs))"

text \<open>The \<open>i\<close>-th call of \<open>next\<close> on an iterator that yields the list \<open>ps\<close>.\<close>

definition nth_opt :: "'a list \<Rightarrow> nat \<Rightarrow> 'a option" where
  "nth_opt ps i = (if i < length ps then Some (ps ! i) else None)"

section \<open>Trimming\<close>

text \<open>
  \<open>ws_len s\<close> is the number of bytes of the \<open>White_Space\<close> character that \<open>s\<close> starts with,
  0 when it starts with another one; \<open>ws_len_rev\<close> the same on the reversed string.
\<close>

fun ws_len :: "rstr \<Rightarrow> nat" where
  "ws_len s =
     (case s of
        [] \<Rightarrow> 0
      | a # r \<Rightarrow>
          if (9 \<le> a \<and> a \<le> 13) \<or> a = 32 then 1
          else if a = 0xC2 \<and> get_or_0 r 0 \<in> {0x85, 0xA0} then 2
          else if a = 0xE1 \<and> get_or_0 r 0 = 0x9A \<and> get_or_0 r 1 = 0x80 then 3
          else if a = 0xE2 \<and> get_or_0 r 0 = 0x80 \<and>
             (0x80 \<le> get_or_0 r 1 \<and> get_or_0 r 1 \<le> 0x8A \<or> get_or_0 r 1 \<in> {0xA8, 0xA9, 0xAF}) then 3
          else if a = 0xE2 \<and> get_or_0 r 0 = 0x81 \<and> get_or_0 r 1 = 0x9F then 3
          else if a = 0xE3 \<and> get_or_0 r 0 = 0x80 \<and> get_or_0 r 1 = 0x80 then 3
          else 0)"

definition ws_len_rev :: "rstr \<Rightarrow> nat" where
  "ws_len_rev r =
     (if ws_len (rev (take 1 r)) = 1 then 1
      else if ws_len (rev (take 2 r)) = 2 then 2
      else if ws_len (rev (take 3 r)) = 3 then 3
      else 0)"

function trim_start :: "rstr \<Rightarrow> rstr" where
  "trim_start s = (if s = [] \<or> ws_len s = 0 then s else trim_start (drop (ws_len s) s))"
  by pat_completeness auto
termination
  by (relation "measure length") (auto simp del: ws_len.simps)

function trim_rev :: "rstr \<Rightarrow> rstr" where
  "trim_rev r = (if r = [] \<or> ws_len_rev r = 0 then r else trim_rev (drop (ws_len_rev r) r))"
  by pat_completeness auto
termination
  by (relation "measure length") auto

declare trim_start.simps [simp del] trim_rev.simps [simp del] ws_len.simps [simp del]

definition trim :: "rstr \<Rightarrow> rstr" where
  "trim s = rev (trim_rev (rev (trim_start s)))"

definition is_ascii_ws :: "u8 \<Rightarrow> bool" where
  "is_ascii_ws b \<longleftrightarrow> b \<in> {9, 10, 12, 13, 32}"

fun split_ws_acc :: "rstr \<Rightarrow> rstr \<Rightarrow> rstr list" where
  "split_ws_acc acc [] = (if acc = [] then [] else [rev acc])"
| "split_ws_acc acc (b # bs) =
     (if is_ascii_ws b
      then (if acc = [] then split_ws_acc [] bs else rev acc # split_ws_acc [] bs)
      else split_ws_acc (b # acc) bs)"

definition split_ascii_whitespace :: "rstr \<Rightarrow> rstr list" where
  "split_ascii_whitespace s = split_ws_acc [] s"

section \<open>Decimal numbers\<close>

definition is_digit :: "u8 \<Rightarrow> bool" where
  "is_digit b \<longleftrightarrow> 48 \<le> b \<and> b \<le> 57"

fun digits_val :: "nat \<Rightarrow> bytes \<Rightarrow> nat option" where
  "digits_val acc [] = Some acc"
| "digits_val acc (b # bs) =
     (if is_digit b then digits_val (10 * acc + (unat b - 48)) bs else None)"

text \<open>
  \<open>parse_uint bound s\<close> is \<open>s.parse()\<close> for an unsigned type with \<open>bound\<close> values: an
  optional plus sign, at least one digit, no overflow.
\<close>

definition parse_uint :: "nat \<Rightarrow> rstr \<Rightarrow> nat option" where
  "parse_uint bound s =
     (let d = (if s \<noteq> [] \<and> hd s = 43 then tl s else s)
      in if d = [] then None
         else case digits_val 0 d of
                None \<Rightarrow> None
              | Some n \<Rightarrow> if n < bound then Some n else None)"

definition parse_u16 :: "rstr \<Rightarrow> u16 option" where
  "parse_u16 s = map_option of_nat (parse_uint 65536 s)"

definition parse_usize :: "rstr \<Rightarrow> nat option" where
  "parse_usize s = parse_uint (2 ^ 64) s"

fun show_nat :: "nat \<Rightarrow> rstr" where
  "show_nat n = (if n < 10 then [48 + of_nat n] else show_nat (n div 10) @ [48 + of_nat (n mod 10)])"

declare show_nat.simps [simp del]

section \<open>Lemmas\<close>

lemma lit_simps [simp]: "lit [] = []" "lit (c # cs) = of_char c # lit cs"
  by (simp_all add: lit_def)

lemma length_lit [simp]: "length (lit s) = length s"
  by (simp add: lit_def)

subsection \<open>UTF-8\<close>

lemma utf8_valid_Nil [simp]: "utf8_valid []"
  by (simp add: utf8_valid.simps)

lemma utf8_first_ascii: "b < 128 \<Longrightarrow> utf8_first (b # r) = (True, 1)"
  by simp

lemma utf8_valid_ascii_Cons [simp]: "b < 128 \<Longrightarrow> utf8_valid (b # r) \<longleftrightarrow> utf8_valid r"
  by (subst utf8_valid.simps) (simp add: utf8_first_ascii del: utf8_first.simps)

lemma utf8_valid_ascii: "\<forall>b \<in> set s. b < 128 \<Longrightarrow> utf8_valid s"
  by (induction s) auto

lemma from_utf8_lossy_Nil [simp]: "from_utf8_lossy [] = []"
  by (simp add: from_utf8_lossy.simps)

text \<open>Lossy decoding changes nothing in a valid string.\<close>

lemma from_utf8_lossy_valid [simp]: "utf8_valid s \<Longrightarrow> from_utf8_lossy s = s"
proof (induction s rule: utf8_valid.induct)
  case (1 s)
  show ?case
  proof (cases "s = []")
    case False
    with "1.prems" have ok: "fst (utf8_first s)" and "utf8_valid (drop (snd (utf8_first s)) s)"
      by (simp_all add: utf8_valid.simps[of s] split: if_splits)
    then have "from_utf8_lossy (drop (snd (utf8_first s)) s) = drop (snd (utf8_first s)) s"
      using "1.IH" False by simp
    with False ok show ?thesis by (simp add: from_utf8_lossy.simps[of s])
  qed simp
qed

subsection \<open>Case and search\<close>

lemma eq_ignore_ascii_case_refl [simp]: "eq_ignore_ascii_case a a"
  by (simp add: eq_ignore_ascii_case_def)

lemma eq_ignore_ascii_case_sym: "eq_ignore_ascii_case a b \<Longrightarrow> eq_ignore_ascii_case b a"
  by (simp add: eq_ignore_ascii_case_def)

lemma eq_ignore_ascii_case_trans:
  "eq_ignore_ascii_case a b \<Longrightarrow> eq_ignore_ascii_case b c \<Longrightarrow> eq_ignore_ascii_case a c"
  by (simp add: eq_ignore_ascii_case_def)

lemma find_byte_None_conv: "find_byte c xs = None \<longleftrightarrow> c \<notin> set xs"
  by (induction xs) auto

lemma find_byte_Some:
  "find_byte c xs = Some i \<Longrightarrow> i < length xs \<and> xs ! i = c \<and> c \<notin> set (take i xs)"
  by (induction xs arbitrary: i) (auto split: if_splits)

lemma find_byte_append:
  "find_byte c (xs @ ys) =
     (case find_byte c xs of Some i \<Rightarrow> Some i | None \<Rightarrow> map_option (\<lambda>j. length xs + j) (find_byte c ys))"
proof (induction xs)
  case Nil
  then show ?case by (cases "find_byte c ys") auto
next
  case (Cons a xs)
  then show ?case by (cases "find_byte c ys") (auto split: option.splits)
qed

lemma find_byte_at: "c \<notin> set xs \<Longrightarrow> find_byte c (xs @ c # ys) = Some (length xs)"
  by (induction xs) auto

lemma rfind_byte_None_conv: "rfind_byte c xs = None \<longleftrightarrow> c \<notin> set xs"
  by (induction xs) (auto split: option.splits)

lemma rfind_byte_at: "c \<notin> set ys \<Longrightarrow> rfind_byte c (xs @ c # ys) = Some (length xs)"
proof (induction xs)
  case Nil
  then have "rfind_byte c ys = None" by (simp add: rfind_byte_None_conv)
  then show ?case by simp
qed simp

lemma split_on_nonempty [simp]: "split_on c xs \<noteq> []"
  by (cases xs) auto

lemma split_on_single: "c \<notin> set xs \<Longrightarrow> split_on c xs = [xs]"
  by (induction xs) auto

lemma split_on_append: "c \<notin> set xs \<Longrightarrow> split_on c (xs @ c # ys) = xs # split_on c ys"
  by (induction xs) auto

lemma split_on_pieces: "p \<in> set (split_on c xs) \<Longrightarrow> c \<notin> set p"
proof (induction xs arbitrary: p)
  case (Cons x xs)
  obtain q qs where q: "split_on c xs = q # qs"
    by (cases "split_on c xs") auto
  with Cons show ?case by (auto split: if_splits)
qed simp

subsection \<open>Numbers\<close>

lemma show_nat_nonempty [simp]: "show_nat n \<noteq> []"
  by (subst show_nat.simps) simp

lemma is_digit_of_nat: "n < 10 \<Longrightarrow> is_digit (48 + of_nat n)"
proof -
  assume "n < 10"
  then have "n \<in> {0,1,2,3,4,5,6,7,8,9}" by auto
  then show ?thesis by (auto simp: is_digit_def)
qed

lemma unat_digit: "n < 10 \<Longrightarrow> unat (48 + of_nat n :: u8) = 48 + n"
proof -
  assume "n < 10"
  then have "n \<in> {0,1,2,3,4,5,6,7,8,9}" by auto
  then show ?thesis by auto
qed

lemma show_nat_digits: "b \<in> set (show_nat n) \<Longrightarrow> is_digit b"
proof (induction n rule: show_nat.induct)
  case (1 n)
  show ?case
  proof (cases "n < 10")
    case True
    with "1.prems" show ?thesis by (simp add: show_nat.simps[of n] is_digit_of_nat)
  next
    case False
    with "1.prems" have "b \<in> set (show_nat (n div 10)) \<or> b = 48 + of_nat (n mod 10)"
      by (auto simp: show_nat.simps[of n])
    with "1.IH" False show ?thesis by (auto simp: is_digit_of_nat)
  qed
qed

lemma digits_val_append:
  "digits_val acc (xs @ ys) = Option.bind (digits_val acc xs) (\<lambda>a. digits_val a ys)"
  by (induction xs arbitrary: acc) auto

lemma digits_val_show_nat [simp]: "digits_val 0 (show_nat n) = Some n"
proof (induction n rule: show_nat.induct)
  case (1 n)
  show ?case
  proof (cases "n < 10")
    case True
    then show ?thesis by (simp add: show_nat.simps[of n] is_digit_of_nat unat_digit)
  next
    case False
    with "1" have "digits_val 0 (show_nat (n div 10)) = Some (n div 10)" by simp
    moreover have "n mod 10 < 10" by simp
    ultimately show ?thesis
      using False by (simp add: show_nat.simps[of n] digits_val_append is_digit_of_nat unat_digit)
  qed
qed

lemma is_digit_range: "is_digit b \<Longrightarrow> b \<noteq> 43 \<and> b \<noteq> 46 \<and> b \<noteq> 47 \<and> b \<noteq> 58"
  by (auto simp: is_digit_def)

lemma hd_show_nat: "is_digit (hd (show_nat n))"
  by (rule show_nat_digits[of _ n]) (rule hd_in_set, simp)

lemma parse_uint_show_nat [simp]: "n < bound \<Longrightarrow> parse_uint bound (show_nat n) = Some n"
  using is_digit_range[OF hd_show_nat[of n]] by (simp add: parse_uint_def)

lemma parse_u16_show_nat [simp]: "parse_u16 (show_nat (unat p)) = Some p"
proof -
  have "unat p < 65536" using unsigned_less[of p] by simp
  then show ?thesis by (simp add: parse_u16_def)
qed

lemma parse_uint_bound: "parse_uint bound s = Some n \<Longrightarrow> n < bound"
  by (auto simp: parse_uint_def Let_def split: if_splits option.splits)

lemma show_nat_ascii: "b \<in> set (show_nat n) \<Longrightarrow> b < 128"
proof -
  assume "b \<in> set (show_nat n)"
  then have "b \<le> 57" using show_nat_digits by (auto simp: is_digit_def)
  then show ?thesis by (rule order.strict_trans1) simp
qed

end
