(* ===== verification/Rust_Net.thy ===== *)
theory Rust_Net
  imports Rust_Str "HOL-Library.Monad_Syntax"
begin

text \<open>
  Internet addresses: the types of \<open>std::net\<close>, their textual form and the parser behind
  \<open>IpAddr::from_str\<close> and \<open>SocketAddr::from_str\<close>.
\<close>

section \<open>Types\<close>

datatype ip_addr = IpV4 u32 | IpV6 u128

text \<open>The last two fields of \<open>SockV6\<close> are \<open>flowinfo\<close> and \<open>scope_id\<close>.\<close>

datatype socket_addr = SockV4 u32 u16 | SockV6 u128 u16 u32 u32

fun sock_ip :: "socket_addr \<Rightarrow> ip_addr" where
  "sock_ip (SockV4 a p) = IpV4 a"
| "sock_ip (SockV6 a p f s) = IpV6 a"

fun sock_port :: "socket_addr \<Rightarrow> u16" where
  "sock_port (SockV4 a p) = p"
| "sock_port (SockV6 a p f s) = p"

text \<open>\<open>SocketAddr::new\<close>\<close>

fun sock_new :: "ip_addr \<Rightarrow> u16 \<Rightarrow> socket_addr" where
  "sock_new (IpV4 a) p = SockV4 a p"
| "sock_new (IpV6 a) p = SockV6 a p 0 0"

fun is_v4 :: "socket_addr \<Rightarrow> bool" where
  "is_v4 (SockV4 a p) = True"
| "is_v4 (SockV6 a p f s) = False"

fun ip_is_unspecified :: "ip_addr \<Rightarrow> bool" where
  "ip_is_unspecified (IpV4 a) = (a = 0)"
| "ip_is_unspecified (IpV6 a) = (a = 0)"

section \<open>Parsing\<close>

text \<open>Each reader returns the value and the bytes that are left, or nothing.\<close>

definition to_digit :: "nat \<Rightarrow> u8 \<Rightarrow> nat option" where
  "to_digit radix b =
     (if 48 \<le> b \<and> b \<le> 57 then Some (unat b - 48)
      else if radix = 16 \<and> 97 \<le> b \<and> b \<le> 102 then Some (unat b - 87)
      else if radix = 16 \<and> 65 \<le> b \<and> b \<le> 70 then Some (unat b - 55)
      else None)"

fun take_digits :: "nat \<Rightarrow> bytes \<Rightarrow> nat list \<times> bytes" where
  "take_digits radix [] = ([], [])"
| "take_digits radix (b # bs) =
     (case to_digit radix b of
        None \<Rightarrow> ([], b # bs)
      | Some d \<Rightarrow> (d # fst (take_digits radix bs), snd (take_digits radix bs)))"

definition read_number :: "nat \<Rightarrow> nat option \<Rightarrow> bool \<Rightarrow> nat \<Rightarrow> bytes \<Rightarrow> (nat \<times> bytes) option" where
  "read_number radix max_digits allow_zero_prefix bound s =
     (let (ds, rest) = take_digits radix s;
          v = foldl (\<lambda>acc d. radix * acc + d) 0 ds
      in if ds = [] then None
         else if (case max_digits of Some m \<Rightarrow> m < length ds | None \<Rightarrow> False) then None
         else if \<not> allow_zero_prefix \<and> hd ds = 0 \<and> 1 < length ds then None
         else if v < bound then Some (v, rest) else None)"

fun read_given_char :: "u8 \<Rightarrow> bytes \<Rightarrow> bytes option" where
  "read_given_char c [] = None"
| "read_given_char c (b # bs) = (if b = c then Some bs else None)"

definition read_separator :: "u8 \<Rightarrow> nat \<Rightarrow> (bytes \<Rightarrow> ('a \<times> bytes) option) \<Rightarrow> bytes \<Rightarrow> ('a \<times> bytes) option" where
  "read_separator sep i inner s =
     (if i = 0 then inner s else Option.bind (read_given_char sep s) inner)"

definition read_octet :: "bytes \<Rightarrow> (nat \<times> bytes) option" where
  "read_octet = read_number 10 (Some 3) False 256"

definition read_ipv4_addr :: "bytes \<Rightarrow> (u32 \<times> bytes) option" where
  "read_ipv4_addr s0 = do {
     (a, s1) \<leftarrow> read_separator 46 0 read_octet s0;
     (b, s2) \<leftarrow> read_separator 46 1 read_octet s1;
     (c, s3) \<leftarrow> read_separator 46 2 read_octet s2;
     (d, s4) \<leftarrow> read_separator 46 3 read_octet s3;
     Some (from_be [of_nat a, of_nat b, of_nat c, of_nat d], s4)
   }"

text \<open>
  The groups of an IPv6 address, at most \<open>limit\<close>; a dotted quad may stand for the last two
  and ends the read (the flag tells).
\<close>

function read_groups :: "nat \<Rightarrow> nat \<Rightarrow> bytes \<Rightarrow> nat list \<times> bool \<times> bytes" where
  "read_groups limit i s =
     (if limit \<le> i then ([], False, s)
      else case (if i < limit - 1 then read_separator 58 i read_ipv4_addr s else None) of
        Some (q, s') \<Rightarrow> ([unat (drop_bit 16 q), unat (take_bit 16 q)], True, s')
      | None \<Rightarrow>
          (case read_separator 58 i (read_number 16 (Some 4) True 65536) s of
             None \<Rightarrow> ([], False, s)
           | Some (g, s') \<Rightarrow>
               (let (gs, v4, s'') = read_groups limit (Suc i) s' in (g # gs, v4, s''))))"
  by pat_completeness auto
termination
  by (relation "measure (\<lambda>(l, i, s). l - i)") auto

declare read_groups.simps [simp del]

definition ip_of_groups :: "nat list \<Rightarrow> u128" where
  "ip_of_groups gs = of_nat (foldl (\<lambda>acc g. 65536 * acc + g) 0 gs)"

definition read_ipv6_addr :: "bytes \<Rightarrow> (u128 \<times> bytes) option" where
  "read_ipv6_addr s =
     (let (head, head_v4, s1) = read_groups 8 0 s
      in if length head = 8 then Some (ip_of_groups head, s1)
         else if head_v4 then None
         else do {
           s2 \<leftarrow> read_given_char 58 s1;
           s3 \<leftarrow> read_given_char 58 s2;
           (let (tail, _, s4) = read_groups (8 - (length head + 1)) 0 s3
            in Some (ip_of_groups (head @ replicate (8 - length head - length tail) 0 @ tail), s4))
         })"

definition all_read :: "('a \<times> bytes) option \<Rightarrow> 'a option" where
  "all_read r = (case r of Some (v, []) \<Rightarrow> Some v | _ \<Rightarrow> None)"

definition parse_ip_addr :: "rstr \<Rightarrow> ip_addr option" where
  "parse_ip_addr s =
     all_read (case read_ipv4_addr s of
                 Some (a, r) \<Rightarrow> Some (IpV4 a, r)
               | None \<Rightarrow> map_option (\<lambda>(a, r). (IpV6 a, r)) (read_ipv6_addr s))"

definition read_port :: "bytes \<Rightarrow> (nat \<times> bytes) option" where
  "read_port s = Option.bind (read_given_char 58 s) (read_number 10 None True 65536)"

definition read_socket_addr_v4 :: "bytes \<Rightarrow> (socket_addr \<times> bytes) option" where
  "read_socket_addr_v4 s = do {
     (a, s1) \<leftarrow> read_ipv4_addr s;
     (p, s2) \<leftarrow> read_port s1;
     Some (SockV4 a (of_nat p), s2)
   }"

definition read_scope_id :: "bytes \<Rightarrow> (nat \<times> bytes) option" where
  "read_scope_id s = Option.bind (read_given_char 37 s) (read_number 10 None True (2 ^ 32))"

definition read_socket_addr_v6 :: "bytes \<Rightarrow> (socket_addr \<times> bytes) option" where
  "read_socket_addr_v6 s = do {
     s1 \<leftarrow> read_given_char 91 s;
     (a, s2) \<leftarrow> read_ipv6_addr s1;
     (sc, s3) \<leftarrow> Some (case read_scope_id s2 of Some r \<Rightarrow> r | None \<Rightarrow> (0, s2));
     s4 \<leftarrow> read_given_char 93 s3;
     (p, s5) \<leftarrow> read_port s4;
     Some (SockV6 a (of_nat p) 0 (of_nat sc), s5)
   }"

definition parse_socket_addr_str :: "rstr \<Rightarrow> socket_addr option" where
  "parse_socket_addr_str s =
     all_read (case read_socket_addr_v4 s of Some r \<Rightarrow> Some r | None \<Rightarrow> read_socket_addr_v6 s)"

section \<open>Printing\<close>

definition show_ipv4 :: "u32 \<Rightarrow> rstr" where
  "show_ipv4 a =
     (case map unat (to_be 4 a) of
        [w, x, y, z] \<Rightarrow> show_nat w @ [46] @ show_nat x @ [46] @ show_nat y @ [46] @ show_nat z
      | _ \<Rightarrow> [])"

fun show_hex :: "nat \<Rightarrow> rstr" where
  "show_hex n =
     (let c = (\<lambda>d. if d < 10 then 48 + of_nat d else 87 + of_nat d)
      in if n < 16 then [c n] else show_hex (n div 16) @ [c (n mod 16)])"

declare show_hex.simps [simp del]

fun groups_of :: "nat \<Rightarrow> nat \<Rightarrow> nat list" where
  "groups_of 0 n = []"
| "groups_of (Suc k) n = groups_of k (n div 65536) @ [n mod 65536]"

fun join_hex :: "nat list \<Rightarrow> rstr" where
  "join_hex [] = []"
| "join_hex [g] = show_hex g"
| "join_hex (g # gs) = show_hex g @ [58] @ join_hex gs"

text \<open>The first longest run of zero groups: start and length, with the scan state.\<close>

fun longest_zeros :: "nat \<Rightarrow> nat \<times> nat \<Rightarrow> nat \<times> nat \<Rightarrow> nat list \<Rightarrow> nat \<times> nat" where
  "longest_zeros i longest current [] = longest"
| "longest_zeros i longest current (g # gs) =
     (if g = 0
      then (let c = (if snd current = 0 then (i, 1) else (fst current, snd current + 1))
            in longest_zeros (Suc i) (if snd longest < snd c then c else longest) c gs)
      else longest_zeros (Suc i) longest (0, 0) gs)"

definition show_ipv6 :: "u128 \<Rightarrow> rstr" where
  "show_ipv6 a =
     (let gs = groups_of 8 (unat a); (st, len) = longest_zeros 0 (0, 0) (0, 0) gs
      in if take 6 gs = [0, 0, 0, 0, 0, 65535]
         then lit ''::ffff:'' @ show_ipv4 (ucast a)
         else if 1 < len
         then join_hex (take st gs) @ [58, 58] @ join_hex (drop (st + len) gs)
         else join_hex gs)"

fun show_ip :: "ip_addr \<Rightarrow> rstr" where
  "show_ip (IpV4 a) = show_ipv4 a"
| "show_ip (IpV6 a) = show_ipv6 a"

fun show_socket_addr :: "socket_addr \<Rightarrow> rstr" where
  "show_socket_addr (SockV4 a p) = show_ipv4 a @ [58] @ show_nat (unat p)"
| "show_socket_addr (SockV6 a p f s) =
     [91] @ show_ipv6 a @ (if s = 0 then [] else [37] @ show_nat (unat s)) @ [93, 58] @ show_nat (unat p)"

section \<open>Reading back what was printed\<close>

lemma to_digit_10: "is_digit b \<Longrightarrow> to_digit 10 b = Some (unat b - 48)"
  by (simp add: to_digit_def is_digit_def)

lemma take_digits_append:
  assumes "\<forall>b \<in> set ds. is_digit b" and "rest = [] \<or> \<not> is_digit (hd rest)"
  shows "take_digits 10 (ds @ rest) = (map (\<lambda>b. unat b - 48) ds, rest)"
  using assms
proof (induction ds)
  case Nil
  then show ?case by (cases rest) (auto simp: to_digit_def is_digit_def)
qed (simp add: to_digit_10)

lemma digits_val_foldl:
  "\<forall>b \<in> set ds. is_digit b \<Longrightarrow>
     digits_val acc ds = Some (foldl (\<lambda>a d. 10 * a + d) acc (map (\<lambda>b. unat b - 48) ds))"
  by (induction ds arbitrary: acc) auto

lemma foldl_show_nat: "foldl (\<lambda>a d. 10 * a + d) 0 (map (\<lambda>b. unat b - 48) (show_nat n)) = n"
  using digits_val_foldl[of "show_nat n" 0] show_nat_digits by auto

lemma length_show_nat: "n < 10 ^ Suc k \<Longrightarrow> length (show_nat n) \<le> Suc k"
proof (induction k arbitrary: n)
  case 0
  then show ?case by (simp add: show_nat.simps[of n])
next
  case (Suc k)
  then have "length (show_nat (n div 10)) \<le> Suc k" by auto
  then show ?case by (simp add: show_nat.simps[of n])
qed

lemma no_leading_zero: "10 \<le> n \<Longrightarrow> unat (hd (show_nat n)) - 48 \<noteq> 0"
proof (induction n rule: less_induct)
  case (less n)
  show ?case
  proof (cases "n div 10 < 10")
    case True
    have "show_nat n = [48 + of_nat (n div 10), 48 + of_nat (n mod 10)]"
      using less.prems True by (simp add: show_nat.simps[of n] show_nat.simps[of "n div 10"])
    moreover have "n div 10 \<noteq> 0" using less.prems by simp
    ultimately show ?thesis using True by (simp add: unat_digit)
  next
    case False
    then have "unat (hd (show_nat (n div 10))) - 48 \<noteq> 0" using less by simp
    moreover have "hd (show_nat n) = hd (show_nat (n div 10))"
      using less.prems by (simp add: show_nat.simps[of n])
    ultimately show ?thesis by simp
  qed
qed

lemma hd_map_show_nat: "hd (map (\<lambda>b. unat b - 48) (show_nat n)) = 0 \<Longrightarrow> length (show_nat n) = 1"
  using no_leading_zero[of n] by (cases "n < 10") (auto simp: hd_map show_nat.simps[of n])

lemma read_number_show:
  assumes "n < bound" and "rest = [] \<or> \<not> is_digit (hd rest)"
    and "\<And>m. max_digits = Some m \<Longrightarrow> length (show_nat n) \<le> m"
  shows "read_number 10 max_digits z bound (show_nat n @ rest) = Some (n, rest)"
proof -
  have "take_digits 10 (show_nat n @ rest) = (map (\<lambda>b. unat b - 48) (show_nat n), rest)"
    using show_nat_digits assms(2) by (intro take_digits_append) auto
  then show ?thesis
    using assms(1,3) hd_map_show_nat[of n] by (auto simp: read_number_def foldl_show_nat split: option.splits)
qed

lemma read_octet_show:
  assumes "n < 256" and "rest = [] \<or> \<not> is_digit (hd rest)"
  shows "read_octet (show_nat n @ rest) = Some (n, rest)"
proof -
  have "length (show_nat n) \<le> Suc 2" using assms(1) by (intro length_show_nat) simp
  then show ?thesis using assms unfolding read_octet_def by (intro read_number_show) auto
qed

lemma dot_not_digit [simp]: "\<not> is_digit 46" and colon_not_digit [simp]: "\<not> is_digit 58"
  by (simp_all add: is_digit_def)

lemma to_be_4: "\<exists>w x y z. to_be 4 (a :: u32) = [w, x, y, z]"
proof -
  have "length (to_be 4 a) = 4" by simp
  then show ?thesis by (auto simp: length_Suc_conv numeral_eq_Suc)
qed

lemma unat_u8_less [simp]: "unat (b :: u8) < 256"
  using unsigned_less[of b] by simp

lemma read_ipv4_show:
  assumes "rest = [] \<or> \<not> is_digit (hd rest)"
  shows "read_ipv4_addr (show_ipv4 a @ rest) = Some (a, rest)"
proof -
  obtain w x y z where be: "to_be 4 a = [w, x, y, z]" using to_be_4 by blast
  have "from_be [w, x, y, z] = a" unfolding be[symmetric] by simp
  with be assms show ?thesis
    by (simp add: read_ipv4_addr_def read_separator_def show_ipv4_def read_octet_show)
qed

lemma parse_socket_addr_show_v4: "parse_socket_addr_str (show_socket_addr (SockV4 a p)) = Some (SockV4 a p)"
proof -
  have "read_ipv4_addr (show_ipv4 a @ 58 # show_nat (unat p)) = Some (a, 58 # show_nat (unat p))"
    by (rule read_ipv4_show) simp
  moreover have "read_number 10 None True 65536 (show_nat (unat p) @ []) = Some (unat p, [])"
    using unsigned_less[of p] by (intro read_number_show) auto
  ultimately show ?thesis
    by (simp add: parse_socket_addr_str_def read_socket_addr_v4_def read_port_def all_read_def)
qed

lemma parse_ip_show_v4: "parse_ip_addr (show_ipv4 a) = Some (IpV4 a)"
  using read_ipv4_show[of "[]" a] by (simp add: parse_ip_addr_def all_read_def)

end
