(* ===== verification/Udpman_Proto.thy ===== *)
theory Udpman_Proto
  imports Rust_Net
begin

text \<open>
  The datagram protocol between the UDP client and the UDP server
  (src/protocol/udpman/proto.rs): one flag byte whose three top bits are the message type
  and whose low bits tell which optional fields follow, then the fields. A datagram is one
  message, so the last field is the rest of it.
\<close>

section \<open>Model\<close>

text \<open>
  Fields of \<open>Connect\<close>: uuid, initial data, its nonce, destination. Of \<open>Establish\<close>: uuid,
  connection id, initial reply with its source. Of \<open>Data\<close>: connection id, address, payload,
  nonce.
\<close>

datatype message =
    MConnect rstr bytes "u16 option" socket_addr
  | MEstablish rstr u16 "(bytes \<times> socket_addr) option"
  | MData "u16 option" "socket_addr option" bytes "u16 option"

datatype message_type = TConnect | TEstablish | TData

fun message_type_u8 :: "message_type \<Rightarrow> u8" where
  "message_type_u8 TConnect = 0"
| "message_type_u8 TEstablish = 1"
| "message_type_u8 TData = 2"

definition message_type_from_u8 :: "u8 \<Rightarrow> message_type option" where
  "message_type_from_u8 v =
     (if v = 0 then Some TConnect else if v = 1 then Some TEstablish
      else if v = 2 then Some TData else None)"

text \<open>
  Fields: \<open>is_ipv6 has_nonce\<close>; \<open>has_reply reply_in_ipv6\<close>;
  \<open>has_conn_id has_addr addr_in_ipv6 has_nonce\<close>.
\<close>

datatype message_flags =
    FConnect bool bool
  | FEstablish bool bool
  | FData bool bool bool bool

definition flags_try_from :: "u8 \<Rightarrow> message_flags res" where
  "flags_try_from value =
     and_then (ok_or ''Parsing message type'' (message_type_from_u8 (drop_bit 5 value))) (\<lambda>t.
       Inr (case t of
              TConnect \<Rightarrow> FConnect (value AND 1 \<noteq> 0) (drop_bit 1 value AND 1 \<noteq> 0)
            | TEstablish \<Rightarrow> FEstablish (value AND 1 \<noteq> 0) (drop_bit 1 value AND 1 \<noteq> 0)
            | TData \<Rightarrow> FData (value AND 1 \<noteq> 0) (drop_bit 1 value AND 1 \<noteq> 0)
                         (drop_bit 2 value AND 1 \<noteq> 0) (drop_bit 3 value AND 1 \<noteq> 0)))"

definition flag_bit :: "nat \<Rightarrow> bool \<Rightarrow> u8" where
  "flag_bit n b = (if b then push_bit n 1 else 0)"

fun flags_into :: "message_flags \<Rightarrow> u8" where
  "flags_into (FConnect is_ipv6 has_nonce) =
     push_bit 5 (message_type_u8 TConnect) OR (flag_bit 0 is_ipv6 OR flag_bit 1 has_nonce)"
| "flags_into (FEstablish has_reply reply_in_ipv6) =
     push_bit 5 (message_type_u8 TEstablish) OR (flag_bit 0 has_reply OR flag_bit 1 reply_in_ipv6)"
| "flags_into (FData has_conn_id has_addr addr_in_ipv6 has_nonce) =
     push_bit 5 (message_type_u8 TData) OR
       (flag_bit 0 has_conn_id OR flag_bit 1 has_addr OR flag_bit 2 addr_in_ipv6 OR flag_bit 3 has_nonce)"

text \<open>
  \<open>check_remaining!\<close> followed by \<open>split_to\<close> or a \<open>get_*\<close> of the same number of bytes.
\<close>

definition get_checked :: "string \<Rightarrow> nat \<Rightarrow> bytes \<Rightarrow> (bytes \<times> bytes) res" where
  "get_checked ctx n b = (if length b < n then Inl (Err ctx) else Inr (take n b, drop n b))"

definition parse_uuid :: "bytes \<Rightarrow> (rstr \<times> bytes) res" where
  "parse_uuid b =
     and_then (get_checked ''UUID len'' 1 b) (\<lambda>(l, b1). get_checked ''UUID'' (unat (hd l)) b1)"

definition write_uuid :: "rstr \<Rightarrow> bytes res" where
  "write_uuid u =
     (if length u < 256 then Inr (of_nat (length u) # u) else Inl (Err ''Writing UUID len''))"

definition msg_parse_addr :: "bytes \<Rightarrow> bool \<Rightarrow> (socket_addr \<times> bytes) res" where
  "msg_parse_addr b v4 =
     and_then
       (if v4 then and_then (get_checked ''IPv4 address'' 4 b) (\<lambda>(a, b1). Inr (IpV4 (from_be a), b1))
        else and_then (get_checked ''IPv6 address'' 16 b) (\<lambda>(a, b1). Inr (IpV6 (from_be a), b1)))
       (\<lambda>(ip, b1).
          and_then (get_checked ''Port'' 2 b1) (\<lambda>(p, b2). Inr (sock_new ip (from_be p), b2)))"

definition msg_write_addr :: "socket_addr \<Rightarrow> bytes" where
  "msg_write_addr a =
     (case sock_ip a of IpV4 i \<Rightarrow> be32 i | IpV6 i \<Rightarrow> be128 i) @ be16 (sock_port a)"

definition parse_conn_id :: "bytes \<Rightarrow> (u16 \<times> bytes) res" where
  "parse_conn_id b = and_then (get_checked ''Conn ID'' 2 b) (\<lambda>(c, b1). Inr (from_be c, b1))"

text \<open>The \<open>if has_x { Some(..) } else { None }\<close> of the parser.\<close>

definition get_if :: "bool \<Rightarrow> (bytes \<Rightarrow> ('a \<times> bytes) res) \<Rightarrow> bytes \<Rightarrow> ('a option \<times> bytes) res" where
  "get_if c p b = (if c then and_then (p b) (\<lambda>(x, b1). Inr (Some x, b1)) else Inr (None, b))"

definition parse_nonce :: "string \<Rightarrow> bytes \<Rightarrow> (u16 \<times> bytes) res" where
  "parse_nonce ctx b = and_then (get_checked ctx 2 b) (\<lambda>(c, b1). Inr (from_be c, b1))"

definition message_parse :: "bytes \<Rightarrow> message res" where
  "message_parse b0 =
     and_then (get_checked ''MessageType'' 1 b0) (\<lambda>(t, b).
     and_then (in_context ''Unknown message type'' (flags_try_from (hd t))) (\<lambda>flags.
       case flags of
         FConnect is_ipv6 has_nonce \<Rightarrow>
           and_then (parse_uuid b) (\<lambda>(uuid, b).
           and_then (msg_parse_addr b (\<not> is_ipv6)) (\<lambda>(dst, b).
           and_then (get_if has_nonce (parse_nonce ''Nonce'') b) (\<lambda>(nonce, b).
             Inr (MConnect uuid b nonce dst))))
       | FEstablish has_reply reply_in_ipv6 \<Rightarrow>
           and_then (parse_uuid b) (\<lambda>(uuid, b).
           and_then (parse_conn_id b) (\<lambda>(conn_id, b).
             if has_reply
             then and_then (msg_parse_addr b (\<not> reply_in_ipv6)) (\<lambda>(from, b).
                    Inr (MEstablish uuid conn_id (Some (b, from))))
             else Inr (MEstablish uuid conn_id None)))
       | FData has_conn_id has_addr addr_in_ipv6 has_nonce \<Rightarrow>
           and_then (get_if has_conn_id parse_conn_id b) (\<lambda>(conn_id, b).
           and_then (get_if has_addr (\<lambda>b. msg_parse_addr b (\<not> addr_in_ipv6)) b) (\<lambda>(addr, b).
           and_then (get_if has_nonce (parse_nonce ''Enc nonce'') b) (\<lambda>(nonce, b).
             Inr (MData conn_id addr b nonce))))))"

definition put_opt :: "('a \<Rightarrow> bytes) \<Rightarrow> 'a option \<Rightarrow> bytes" where
  "put_opt w v = (case v of None \<Rightarrow> [] | Some x \<Rightarrow> w x)"

fun message_to_bytes :: "message \<Rightarrow> bytes res" where
  "message_to_bytes (MConnect uuid initial_data nonce dst) =
     and_then (write_uuid uuid) (\<lambda>u.
       Inr ([flags_into (FConnect (\<not> is_v4 dst) (nonce \<noteq> None))] @ u @ msg_write_addr dst @
            put_opt be16 nonce @ initial_data))"
| "message_to_bytes (MEstablish uuid conn_id initial_reply) =
     and_then (write_uuid uuid) (\<lambda>u.
       Inr ([flags_into (FEstablish (initial_reply \<noteq> None)
                (case initial_reply of None \<Rightarrow> False | Some (_, a) \<Rightarrow> \<not> is_v4 a))] @ u @ be16 conn_id @
            put_opt (\<lambda>(data, addr). msg_write_addr addr @ data) initial_reply))"
| "message_to_bytes (MData conn_id addr payload enc_nonce) =
     Inr ([flags_into (FData (conn_id \<noteq> None) (addr \<noteq> None)
              (case addr of None \<Rightarrow> False | Some a \<Rightarrow> \<not> is_v4 a) (enc_nonce \<noteq> None))] @
          put_opt be16 conn_id @ put_opt msg_write_addr addr @ put_opt be16 enc_nonce @ payload)"

text \<open>
  \<open>new_message_sink_stream\<close>: the sink encodes each message, the stream parses each datagram;
  neither combines or splits datagrams.
\<close>

definition message_sink :: "message list \<Rightarrow> bytes res list" where
  "message_sink ms = map message_to_bytes ms"

definition message_stream :: "bytes res list \<Rightarrow> message res list" where
  "message_stream items = map (\<lambda>m. and_then m message_parse) items"

section \<open>Field lemmas\<close>

lemma get_checked_append [simp, codec_simps]:
  "length xs = n \<Longrightarrow> get_checked ctx n (xs @ ys) = Inr (xs, ys)"
  by (simp add: get_checked_def)

lemma get_checked_1 [simp, codec_simps]: "get_checked ctx (Suc 0) (x # xs) = Inr ([x], xs)"
  by (simp add: get_checked_def)

lemma get_checked_Inr_conv [res_simps]:
  "get_checked ctx n b = Inr (x, y) \<longleftrightarrow> b = x @ y \<and> length x = n"
  by (auto simp: get_checked_def)

lemma get_checked_no_panic [simp]: "get_checked ctx n b \<noteq> Inl (Panic s)"
  by (simp add: get_checked_def)

text \<open>The flag byte carries the flags exactly; all 24 values are checked.\<close>

lemma flags_roundtrip [simp, codec_simps]: "flags_try_from (flags_into f) = Inr f"
proof -
  have "\<forall>a b. flags_try_from (flags_into (FConnect a b)) = Inr (FConnect a b)"
    by code_simp
  moreover have "\<forall>a b. flags_try_from (flags_into (FEstablish a b)) = Inr (FEstablish a b)"
    by code_simp
  moreover have "\<forall>a b c d. flags_try_from (flags_into (FData a b c d)) = Inr (FData a b c d)"
    by code_simp
  ultimately show ?thesis by (cases f) blast+
qed

declare flags_into.simps [simp del]

lemma uuid_roundtrip [codec_simps]:
  "write_uuid u = Inr bs \<Longrightarrow> parse_uuid (bs @ rest) = Inr (u, rest)"
  by (auto simp: write_uuid_def parse_uuid_def unat_of_nat split: if_splits)

text \<open>An address without flow label and scope survives; the format has no room for these.\<close>

definition plain_sock :: "socket_addr \<Rightarrow> bool" where
  "plain_sock a \<longleftrightarrow> sock_new (sock_ip a) (sock_port a) = a"

lemma msg_addr_roundtrip [codec_simps]:
  "plain_sock a \<Longrightarrow> msg_parse_addr (msg_write_addr a @ rest) (is_v4 a) = Inr (a, rest)"
  by (cases a) (auto simp: msg_write_addr_def msg_parse_addr_def plain_sock_def)

lemma conn_id_roundtrip [codec_simps]: "parse_conn_id (be16 c @ rest) = Inr (c, rest)"
  by (simp add: parse_conn_id_def)

lemma nonce_roundtrip [codec_simps]: "parse_nonce ctx (be16 c @ rest) = Inr (c, rest)"
  by (simp add: parse_nonce_def)

lemma get_if_put_opt [codec_simps]:
  assumes "\<And>x. v = Some x \<Longrightarrow> p (w x @ rest) = Inr (x, rest)"
  shows "get_if (v \<noteq> None) p (put_opt w v @ rest) = Inr (v, rest)"
  using assms by (cases v) (simp_all add: get_if_def put_opt_def)

lemma get_if_no_panic:
  "(\<And>b. p b \<noteq> Inl (Panic s)) \<Longrightarrow> get_if c p b \<noteq> Inl (Panic s)"
  by (auto simp: get_if_def and_then_Inl_conv)

section \<open>Messages\<close>

text \<open>Messages the format carries: a uuid of at most 255 bytes and plain addresses.\<close>

fun wire_msg :: "message \<Rightarrow> bool" where
  "wire_msg (MConnect uuid d n dst) = (length uuid < 256 \<and> plain_sock dst)"
| "wire_msg (MEstablish uuid c r) =
     (length uuid < 256 \<and> (case r of None \<Rightarrow> True | Some (d, a) \<Rightarrow> plain_sock a))"
| "wire_msg (MData c a p n) = (case a of None \<Rightarrow> True | Some a \<Rightarrow> plain_sock a)"

lemma message_encode_total: "wire_msg m \<Longrightarrow> \<exists>bs. message_to_bytes m = Inr bs"
  by (cases m) (auto simp: write_uuid_def)

lemma message_connect_roundtrip:
  "wire_msg (MConnect u d n dst) \<Longrightarrow> message_to_bytes (MConnect u d n dst) = Inr bs \<Longrightarrow>
   message_parse bs = Inr (MConnect u d n dst)"
  using get_if_put_opt[of n "parse_nonce ''Nonce''" be16 d]
  by (auto simp: message_parse_def and_then_Inr_conv uuid_roundtrip msg_addr_roundtrip nonce_roundtrip)

lemma message_establish_roundtrip:
  "wire_msg (MEstablish u c r) \<Longrightarrow> message_to_bytes (MEstablish u c r) = Inr bs \<Longrightarrow>
   message_parse bs = Inr (MEstablish u c r)"
  using conn_id_roundtrip[of c "[]"]
  by (cases r) (auto simp: message_parse_def and_then_Inr_conv uuid_roundtrip conn_id_roundtrip
      msg_addr_roundtrip put_opt_def)

lemma message_data_roundtrip:
  assumes wf: "wire_msg (MData c a p n)" and bs: "message_to_bytes (MData c a p n) = Inr bs"
  shows "message_parse bs = Inr (MData c a p n)"
proof -
  let ?v6 = "case a of None \<Rightarrow> False | Some a \<Rightarrow> \<not> is_v4 a"
  have 1: "get_if (c \<noteq> None) parse_conn_id (put_opt be16 c @ r) = Inr (c, r)" for r
    by (rule get_if_put_opt) (simp add: conn_id_roundtrip)
  have 2: "get_if (a \<noteq> None) (\<lambda>b. msg_parse_addr b (\<not> ?v6)) (put_opt msg_write_addr a @ r) = Inr (a, r)" for r
    using wf by (intro get_if_put_opt) (auto simp: msg_addr_roundtrip)
  have 3: "get_if (n \<noteq> None) (parse_nonce ''Enc nonce'') (put_opt be16 n @ r) = Inr (n, r)" for r
    by (rule get_if_put_opt) (simp add: nonce_roundtrip)
  show ?thesis using bs 1 2 3 by (auto simp: message_parse_def)
qed

lemma message_parse_encode:
  "wire_msg m \<Longrightarrow> message_to_bytes m = Inr bs \<Longrightarrow> message_parse bs = Inr m"
  using message_connect_roundtrip message_establish_roundtrip message_data_roundtrip
  by (cases m) blast+

text \<open>What the field readers guarantee of their results.\<close>

lemma parse_uuid_short: "parse_uuid b = Inr (u, r) \<Longrightarrow> length u < 256"
  using unsigned_less[of "hd _ :: u8", where ?'a = nat]
  by (auto simp: parse_uuid_def and_then_Inr_conv get_checked_Inr_conv)

lemma msg_parse_addr_plain: "msg_parse_addr b v4 = Inr (a, r) \<Longrightarrow> plain_sock a"
  by (auto simp: msg_parse_addr_def and_then_Inr_conv plain_sock_def split: if_splits)

lemma get_if_plain:
  "get_if c (\<lambda>b. msg_parse_addr b v4) b = Inr (a, r) \<Longrightarrow> a = Some x \<Longrightarrow> plain_sock x"
  by (auto simp: get_if_def and_then_Inr_conv msg_parse_addr_plain split: if_splits)

lemma field_no_panic:
  "msg_parse_addr b v4 \<noteq> Inl (Panic s)" "parse_uuid b \<noteq> Inl (Panic s)"
  "parse_conn_id b \<noteq> Inl (Panic s)" "parse_nonce ctx b \<noteq> Inl (Panic s)"
  by (auto simp: msg_parse_addr_def parse_uuid_def parse_conn_id_def parse_nonce_def and_then_Inl_conv)

lemma flags_no_panic: "in_context ctx (flags_try_from v) \<noteq> Inl (Panic s)"
  by (auto simp: flags_try_from_def in_context_def ok_or_def and_then_def split: option.splits)

lemma message_parse_no_panic: "message_parse b \<noteq> Inl (Panic s)"
  by (auto simp: message_parse_def and_then_Inl_conv field_no_panic get_if_no_panic flags_no_panic
      split: message_flags.splits)

lemma message_parse_wire:
  assumes "message_parse b = Inr m"
  shows "wire_msg m"
proof -
  obtain t b1 flags where "get_checked ''MessageType'' 1 b = Inr (t, b1)"
    "in_context ''Unknown message type'' (flags_try_from (hd t)) = Inr flags"
    using assms by (auto simp: message_parse_def and_then_Inr_conv)
  then show ?thesis
    using assms
    by (cases flags)
      (auto simp: message_parse_def and_then_Inr_conv split: if_splits option.split
        dest: parse_uuid_short msg_parse_addr_plain get_if_plain)
qed

section \<open>Properties\<close>

text \<open>
  C12: Every message that fits the format survives the wire: \<open>to_writer\<close> succeeds on it and
  \<open>parse\<close> of the datagram returns the same message, for all three message types and every
  combination of optional fields.
\<close>

theorem message_roundtrip:
  assumes "wire_msg m"
  shows "\<exists>bs. message_to_bytes m = Inr bs \<and> message_parse bs = Inr m"
  using message_encode_total[OF assms] message_parse_encode[OF assms] by blast

theorem message_roundtrip_witness:
  "\<exists>bs. message_to_bytes (MConnect (lit ''uuid'') (lit ''hello, world'') (Some 12) (SockV4 0x01020304 90)) = Inr bs \<and>
     message_parse bs = Inr (MConnect (lit ''uuid'') (lit ''hello, world'') (Some 12) (SockV4 0x01020304 90))"
  by (rule message_roundtrip) (simp add: plain_sock_def lit_def)



text \<open>
  Each datagram is one message: a sequence of messages that fit the format, sent through the
  sink of \<open>new_message_sink_stream\<close>, comes out of the stream at the other end message by
  message and in order.
\<close>

theorem message_stream_roundtrip:
  assumes "list_all wire_msg ms"
  shows "message_stream (message_sink ms) = map Inr ms"
  using assms message_encode_total message_parse_encode
  by (induction ms) (fastforce simp: message_stream_def message_sink_def)+

theorem message_stream_roundtrip_witness:
  "message_stream (message_sink [MData (Some 1) None [1] None, MEstablish [65] 2 None]) =
     [Inr (MData (Some 1) None [1] None), Inr (MEstablish [65] 2 None)]"
  using message_stream_roundtrip[of "[MData (Some 1) None [1] None, MEstablish [65] 2 None]"] by simp

end
