(* ===== verification/Rw_Buffer.thy ===== *)
theory Rw_Buffer
  imports Prelude
begin

text \<open>
  The growable byte buffer \<open>RWBuffer\<close> of src/buf.rs: a vector with a read and a write
  cursor. Data is appended behind the write cursor and consumed at the read cursor, so the
  buffer is a byte queue; \<open>contents\<close> (the program's \<open>read_buf\<close>) is the queue it stands for.
  The queue laws are stated as the locale \<open>byte_queue\<close>, through which the parsers that
  read from a connection use the buffer.
\<close>

section \<open>The buffer\<close>

record rw_buffer =
  rb_buf :: bytes
  read_cursor :: nat
  write_cursor :: nat

definition rwb_new :: "bytes \<Rightarrow> rw_buffer" where
  "rwb_new v = \<lparr>rb_buf = v, read_cursor = 0, write_cursor = 0\<rparr>"

definition grow :: "rw_buffer \<Rightarrow> rw_buffer" where
  "grow b =
     (let old_len = length (rb_buf b); new_len = old_len * 15 div 10
      in if new_len > old_len
         then b\<lparr>rb_buf := rb_buf b @ replicate (new_len - old_len) 0\<rparr>
         else b)"

definition remaining_read :: "rw_buffer \<Rightarrow> nat" where
  "remaining_read b = write_cursor b - read_cursor b"

definition advance_read :: "nat \<Rightarrow> rw_buffer \<Rightarrow> rw_buffer res" where
  "advance_read cnt b =
     (let r = read_cursor b + cnt
      in if r \<le> write_cursor b
         then Inr (if r = write_cursor b then b\<lparr>read_cursor := 0, write_cursor := 0\<rparr>
                   else b\<lparr>read_cursor := r\<rparr>)
         else Inl (Panic ''assertion failed: read_cursor <= write_cursor''))"

definition read_buf :: "rw_buffer \<Rightarrow> bytes" where
  "read_buf b = take (write_cursor b - read_cursor b) (drop (read_cursor b) (rb_buf b))"

definition advance_write :: "nat \<Rightarrow> rw_buffer \<Rightarrow> rw_buffer res" where
  "advance_write cnt b =
     (let w = write_cursor b + cnt
      in if w \<le> length (rb_buf b) then Inr (b\<lparr>write_cursor := w\<rparr>)
         else Inl (Panic ''assertion failed: write_cursor <= buf.len()''))"

definition remaining_write :: "rw_buffer \<Rightarrow> nat" where
  "remaining_write b = length (rb_buf b) - write_cursor b"

text \<open>
  \<open>write_buf\<close> hands out the slice behind the write cursor, growing the vector when there is
  none: the model returns the buffer and the length of that slice. What the caller then
  stores in the slice is \<open>put_slice\<close>.
\<close>

definition write_buf :: "rw_buffer \<Rightarrow> rw_buffer \<times> nat" where
  "write_buf b =
     (let b' = (if remaining_write b = 0 then grow b else b)
      in (b', length (rb_buf b') - write_cursor b'))"

definition put_slice :: "bytes \<Rightarrow> rw_buffer \<Rightarrow> rw_buffer" where
  "put_slice d b =
     b\<lparr>rb_buf := take (write_cursor b) (rb_buf b) @ d
                 @ drop (write_cursor b + length d) (rb_buf b)\<rparr>"

definition compact :: "rw_buffer \<Rightarrow> rw_buffer res" where
  "compact b =
     (if read_cursor b < write_cursor b then
        (if read_cursor b > 0 then
           Inr (b\<lparr>rb_buf := read_buf b @ drop (write_cursor b - read_cursor b) (rb_buf b),
                  write_cursor := write_cursor b - read_cursor b, read_cursor := 0\<rparr>)
         else Inr b)
      else if read_cursor b = write_cursor b then
        Inr (b\<lparr>read_cursor := 0, write_cursor := 0\<rparr>)
      else Inl (Panic ''unreachable''))"

text \<open>\<open>Write::write\<close>: never grows, takes as much of the input as fits after compaction.\<close>

definition rwb_write :: "bytes \<Rightarrow> rw_buffer \<Rightarrow> (nat \<times> rw_buffer) res" where
  "rwb_write input b =
     and_then (if remaining_write b < length input then compact b else Inr b)
       (\<lambda>b1. let len = min (remaining_write b1) (length input)
             in if len > 0
                then and_then (advance_write len (put_slice (take len input) (fst (write_buf b1))))
                       (\<lambda>b2. Inr (len, b2))
                else Inr (len, b1))"

text \<open>\<open>Read::read\<close> into a slice of length \<open>n\<close>; the model returns the bytes read.\<close>

definition rwb_read :: "nat \<Rightarrow> rw_buffer \<Rightarrow> (bytes \<times> rw_buffer) res" where
  "rwb_read n b =
     (let len = min (remaining_read b) n
      in if len > 0
         then and_then (advance_read len b) (\<lambda>b'. Inr (take len (read_buf b), b'))
         else Inr ([], b))"

text \<open>
  The step the read loops share: one \<open>stream.read(buf.write_buf())\<close> followed by
  \<open>advance_write\<close> of the number of bytes read. That number, 0 at the end of the stream, is
  returned with the buffer and the rest of the stream.
\<close>

definition refill :: "rw_buffer \<Rightarrow> segments \<Rightarrow> (nat \<times> rw_buffer \<times> segments) res" where
  "refill b ss =
     (case write_buf b of (b', cap) \<Rightarrow>
      (case read_some cap ss of (d, ss') \<Rightarrow>
        and_then (advance_write (length d) (put_slice d b')) (\<lambda>b''. Inr (length d, b'', ss'))))"

section \<open>Invariant\<close>

definition rwb_inv :: "rw_buffer \<Rightarrow> bool" where
  "rwb_inv b \<longleftrightarrow> read_cursor b \<le> write_cursor b \<and> write_cursor b \<le> length (rb_buf b)"

lemma length_read_buf: "rwb_inv b \<Longrightarrow> length (read_buf b) = remaining_read b"
  by (auto simp: rwb_inv_def read_buf_def remaining_read_def)

lemma new_inv [simp]: "rwb_inv (rwb_new v)" and read_buf_new [simp]: "read_buf (rwb_new v) = []"
  by (simp_all add: rwb_inv_def rwb_new_def read_buf_def)

lemma advance_read_spec:
  assumes "rwb_inv b" and "n \<le> length (read_buf b)"
  obtains b' where "advance_read n b = Inr b'" "rwb_inv b'" "read_buf b' = drop n (read_buf b)"
    "rb_buf b' = rb_buf b"
proof -
  define b' where "b' = (if read_cursor b + n = write_cursor b then b\<lparr>read_cursor := 0, write_cursor := 0\<rparr>
                         else b\<lparr>read_cursor := read_cursor b + n\<rparr>)"
  have le: "read_cursor b + n \<le> write_cursor b"
    using assms length_read_buf[OF assms(1)] by (auto simp: remaining_read_def rwb_inv_def)
  show thesis
  proof (rule that)
    show "advance_read n b = Inr b'" using le by (simp add: advance_read_def b'_def Let_def)
    show "rwb_inv b'" "rb_buf b' = rb_buf b" using assms le by (auto simp: b'_def rwb_inv_def)
    show "read_buf b' = drop n (read_buf b)"
      using le by (auto simp: b'_def read_buf_def drop_take add.commute)
  qed
qed

lemma advance_read_panics:
  "rwb_inv b \<Longrightarrow> length (read_buf b) < n \<Longrightarrow> \<exists>p. advance_read n b = Inl (Panic p)"
  by (auto simp: advance_read_def rwb_inv_def length_read_buf remaining_read_def Let_def)

lemma grow_inv: "rwb_inv b \<Longrightarrow> rwb_inv (grow b)"
  by (auto simp: grow_def rwb_inv_def Let_def)

lemma grow_read_buf: "rwb_inv b \<Longrightarrow> read_buf (grow b) = read_buf b"
  by (auto simp: grow_def rwb_inv_def read_buf_def Let_def)

lemma grow_cursors [simp]:
  "read_cursor (grow b) = read_cursor b" "write_cursor (grow b) = write_cursor b"
  by (auto simp: grow_def Let_def)

lemma grow_length: "length (rb_buf b) \<le> length (rb_buf (grow b))"
  by (auto simp: grow_def Let_def)

lemma grow_strict: "2 \<le> length (rb_buf b) \<Longrightarrow> length (rb_buf b) < length (rb_buf (grow b))"
  by (auto simp: grow_def Let_def)

lemma write_buf_spec:
  assumes "rwb_inv b" and "write_buf b = (b', cap)"
  shows "rwb_inv b'" "read_buf b' = read_buf b" "cap = remaining_write b'"
    "length (rb_buf b) \<le> length (rb_buf b')"
  using assms grow_inv[of b] grow_read_buf[of b] grow_length[of b]
  by (auto simp: write_buf_def Let_def remaining_write_def split: if_splits)

lemma write_buf_room:
  assumes "rwb_inv b" and "2 \<le> length (rb_buf b)" and "write_buf b = (b', cap)"
  shows "0 < cap"
  using assms grow_strict[OF assms(2)]
  by (auto simp: write_buf_def Let_def remaining_write_def rwb_inv_def split: if_splits)

lemma store_spec:
  assumes "rwb_inv b" and "length d \<le> remaining_write b"
  obtains b' where "advance_write (length d) (put_slice d b) = Inr b'" "rwb_inv b'"
    "read_buf b' = read_buf b @ d" "length (rb_buf b') = length (rb_buf b)"
proof -
  define b1 where "b1 = put_slice d b"
  have len: "length (rb_buf b1) = length (rb_buf b)"
    using assms by (auto simp: b1_def put_slice_def rwb_inv_def remaining_write_def)
  have adv: "advance_write (length d) b1 = Inr (b1\<lparr>write_cursor := write_cursor b + length d\<rparr>)"
    using assms len by (auto simp: advance_write_def b1_def put_slice_def rwb_inv_def remaining_write_def Let_def)
  show thesis
  proof (rule that)
    show "advance_write (length d) (put_slice d b) = Inr (b1\<lparr>write_cursor := write_cursor b + length d\<rparr>)"
      using adv by (simp add: b1_def)
    show "rwb_inv (b1\<lparr>write_cursor := write_cursor b + length d\<rparr>)"
      using assms len by (auto simp: rwb_inv_def remaining_write_def b1_def put_slice_def)
    show "read_buf (b1\<lparr>write_cursor := write_cursor b + length d\<rparr>) = read_buf b @ d"
      using assms by (auto simp: read_buf_def b1_def put_slice_def rwb_inv_def remaining_write_def drop_take)
    show "length (rb_buf (b1\<lparr>write_cursor := write_cursor b + length d\<rparr>)) = length (rb_buf b)"
      using len by simp
  qed
qed

lemma compact_spec:
  assumes "rwb_inv b"
  obtains b' where "compact b = Inr b'" "rwb_inv b'" "read_buf b' = read_buf b"
    "read_cursor b' = 0" "length (rb_buf b') = length (rb_buf b)"
proof (cases "read_cursor b < write_cursor b \<and> 0 < read_cursor b")
  case True
  have len: "length (read_buf b) = write_cursor b - read_cursor b"
    using length_read_buf[OF assms] by (simp add: remaining_read_def)
  show ?thesis
    by (rule that[of "b\<lparr>rb_buf := read_buf b @ drop (write_cursor b - read_cursor b) (rb_buf b),
             write_cursor := write_cursor b - read_cursor b, read_cursor := 0\<rparr>"])
      (use True assms len in \<open>auto simp: compact_def rwb_inv_def read_buf_def[of "_\<lparr>read_cursor := _\<rparr>"]\<close>)
next
  case False
  show ?thesis
    by (rule that[of "if read_cursor b < write_cursor b then b else b\<lparr>read_cursor := 0, write_cursor := 0\<rparr>"])
      (use False assms in \<open>auto simp: compact_def rwb_inv_def read_buf_def\<close>)
qed

section \<open>The queue interface\<close>

locale byte_queue =
  fixes contents :: "'q \<Rightarrow> bytes"
    and invar :: "'q \<Rightarrow> bool"
    and room :: "'q \<Rightarrow> 'q \<times> nat"
    and store :: "bytes \<Rightarrow> 'q \<Rightarrow> 'q res"
    and consume :: "nat \<Rightarrow> 'q \<Rightarrow> 'q res"
  assumes room_ok: "invar q \<Longrightarrow> room q = (q', cap) \<Longrightarrow>
      invar q' \<and> contents q' = contents q \<and> 0 < cap"
    and store_ok: "invar q \<Longrightarrow> room q = (q', cap) \<Longrightarrow> length d \<le> cap \<Longrightarrow>
      \<exists>q''. store d q' = Inr q'' \<and> invar q'' \<and> contents q'' = contents q @ d"
    and consume_ok: "invar q \<Longrightarrow> n \<le> length (contents q) \<Longrightarrow>
      \<exists>q'. consume n q = Inr q' \<and> invar q' \<and> contents q' = drop n (contents q)"
begin

text \<open>One read from the connection appends what arrived, whatever the segmentation.\<close>

lemma pull:
  assumes "invar q" and "seg_ok ss" and "room q = (q', cap)" and "read_some cap ss = (d, ss')"
  shows "\<exists>q''. store d q' = Inr q'' \<and> invar q'' \<and> contents q'' @ concat ss' = contents q @ concat ss
           \<and> seg_ok ss' \<and> (d = [] \<longleftrightarrow> concat ss = [])"
proof -
  have "length d \<le> cap" using read_some_len assms(4) by blast
  then obtain q'' where "store d q' = Inr q''" "invar q''" "contents q'' = contents q @ d"
    using store_ok assms by blast
  moreover have "0 < cap" using room_ok assms by blast
  ultimately show ?thesis
    using read_some_concat[OF assms(4)] read_some_ok[OF assms(2,4)] read_some_progress[OF assms(2) _ assms(4)]
    by simp
qed

lemma pull_shrinks:
  assumes "invar q" and "seg_ok ss" and "room q = (q', cap)" and "read_some cap ss = (d, ss')" and "d \<noteq> []"
  shows "length (concat ss') < length (concat ss)"
  using read_some_concat[OF assms(4)] assms(5) by simp

end

text \<open>
  The program creates its buffers with at least two bytes (8, 128, 512 or 4096), which is
  what \<open>grow\<close> needs to make room.
\<close>

definition rwb_live :: "rw_buffer \<Rightarrow> bool" where
  "rwb_live b \<longleftrightarrow> rwb_inv b \<and> 2 \<le> length (rb_buf b)"

definition rwb_store :: "bytes \<Rightarrow> rw_buffer \<Rightarrow> rw_buffer res" where
  "rwb_store d b = advance_write (length d) (put_slice d b)"

interpretation rwq: byte_queue read_buf rwb_live write_buf rwb_store advance_read
proof
  fix q q' :: rw_buffer and cap
  assume q: "rwb_live q" "write_buf q = (q', cap)"
  show "rwb_live q' \<and> read_buf q' = read_buf q \<and> 0 < cap"
    using q write_buf_spec[of q q' cap] write_buf_room[of q q' cap] by (auto simp: rwb_live_def)
  fix d :: bytes assume d: "length d \<le> cap"
  have inv: "rwb_inv q'" "read_buf q' = read_buf q" "cap = remaining_write q'"
      "length (rb_buf q) \<le> length (rb_buf q')"
    using q write_buf_spec[of q q' cap] by (auto simp: rwb_live_def)
  obtain q'' where "advance_write (length d) (put_slice d q') = Inr q''" "rwb_inv q''"
      "read_buf q'' = read_buf q' @ d" "length (rb_buf q'') = length (rb_buf q')"
    using store_spec[OF inv(1), of d] d inv(3) by metis
  then show "\<exists>q''. rwb_store d q' = Inr q'' \<and> rwb_live q'' \<and> read_buf q'' = read_buf q @ d"
    using q inv by (auto simp: rwb_store_def rwb_live_def)
next
  fix q :: rw_buffer and n
  assume q: "rwb_live q" "n \<le> length (read_buf q)"
  then obtain q' where "advance_read n q = Inr q'" "rwb_inv q'" "read_buf q' = drop n (read_buf q)"
      "rb_buf q' = rb_buf q"
    using advance_read_spec[of q n] by (auto simp: rwb_live_def)
  then show "\<exists>q'. advance_read n q = Inr q' \<and> rwb_live q' \<and> read_buf q' = drop n (read_buf q)"
    using q by (auto simp: rwb_live_def)
qed

lemma refill_ok:
  assumes "rwb_live b" and "seg_ok ss"
  obtains n b' ss' where "refill b ss = Inr (n, b', ss')" "rwb_live b'" "seg_ok ss'"
    "read_buf b' @ concat ss' = read_buf b @ concat ss" "n = 0 \<longleftrightarrow> concat ss = []"
    "length (concat ss) = n + length (concat ss')"
proof -
  obtain b1 cap where w: "write_buf b = (b1, cap)" by force
  obtain d ss' where r: "read_some cap ss = (d, ss')" by force
  obtain b' where b': "rwb_store d b1 = Inr b'" "rwb_live b'"
      "read_buf b' @ concat ss' = read_buf b @ concat ss" "seg_ok ss'" "d = [] \<longleftrightarrow> concat ss = []"
    using rwq.pull[OF assms w r] by blast
  have "refill b ss = Inr (length d, b', ss')"
    using b'(1) w r by (simp add: refill_def rwb_store_def)
  moreover have "length d = 0 \<longleftrightarrow> concat ss = []" using b'(5) by simp
  moreover have "length (concat ss) = length d + length (concat ss')"
    using read_some_concat[OF r] by simp
  ultimately show thesis using that b' by blast
qed

section \<open>Reading and writing\<close>

lemma rwb_write_spec:
  assumes "rwb_inv b"
  shows "\<exists>n b'. rwb_write input b = Inr (n, b') \<and> rwb_inv b' \<and>
           read_buf b' = read_buf b @ take n input \<and>
           n = (if length input \<le> remaining_write b then length input
                else min (length input) (length (rb_buf b) - length (read_buf b)))"
proof -
  have wb: "fst (write_buf q) = q" if "0 < remaining_write q" for q
    using that by (simp add: write_buf_def)
  obtain b1 where b1: "(if remaining_write b < length input then compact b else Inr b) = Inr b1"
      "rwb_inv b1" "read_buf b1 = read_buf b"
      "min (remaining_write b1) (length input) = (if length input \<le> remaining_write b then length input
                else min (length input) (length (rb_buf b) - length (read_buf b)))"
  proof (cases "remaining_write b < length input")
    case True
    obtain b1 where c: "compact b = Inr b1" "rwb_inv b1" "read_buf b1 = read_buf b"
      "read_cursor b1 = 0" "length (rb_buf b1) = length (rb_buf b)"
      using compact_spec[OF assms] by metis
    have "remaining_write b1 = length (rb_buf b) - length (read_buf b)"
      using length_read_buf[OF c(2)] c by (simp add: remaining_read_def remaining_write_def)
    with True c that show ?thesis by (simp add: min.commute)
  qed (use assms that in auto)
  define len where "len = min (remaining_write b1) (length input)"
  have unf: "rwb_write input b =
      (if 0 < len then and_then (advance_write len (put_slice (take len input) (fst (write_buf b1)))) (\<lambda>b2. Inr (len, b2))
       else Inr (len, b1))"
    by (simp only: rwb_write_def b1(1) and_then_simps Let_def len_def)
  have n: "len = (if length input \<le> remaining_write b then length input
                else min (length input) (length (rb_buf b) - length (read_buf b)))"
    using b1(4) by (simp only: len_def)
  show ?thesis
  proof (cases "len = 0")
    case True
    then have "rwb_write input b = Inr (len, b1)" by (simp add: unf)
    with b1(2,3) n True show ?thesis by auto
  next
    case False
    then have r: "0 < remaining_write b1" and l: "length (take len input) = len"
      by (auto simp: len_def)
    obtain b' where b': "advance_write len (put_slice (take len input) b1) = Inr b'" "rwb_inv b'"
        "read_buf b' = read_buf b1 @ take len input"
      using store_spec[OF b1(2), of "take len input"] l by (auto simp: len_def)
    then have "rwb_write input b = Inr (len, b')" using False by (simp add: unf wb[OF r])
    with b' b1(3) n show ?thesis by auto
  qed
qed

lemma rwb_read_spec:
  assumes "rwb_inv b"
  shows "\<exists>b'. rwb_read n b = Inr (take n (read_buf b), b') \<and> rwb_inv b' \<and> read_buf b' = drop n (read_buf b)"
proof (cases "min (remaining_read b) n = 0")
  case True
  then have "n = 0 \<or> read_buf b = []" using length_read_buf[OF assms] by (auto simp: min_def split: if_splits)
  with True assms show ?thesis by (auto simp: rwb_read_def Let_def)
next
  case False
  define len where "len = min (remaining_read b) n"
  obtain b' where "advance_read len b = Inr b'" "rwb_inv b'" "read_buf b' = drop len (read_buf b)"
    using advance_read_spec[OF assms, of len] length_read_buf[OF assms] by (auto simp: len_def)
  moreover have "take len (read_buf b) = take n (read_buf b)" "drop len (read_buf b) = drop n (read_buf b)"
    using length_read_buf[OF assms] by (auto simp: len_def min_def)
  moreover have "rwb_read n b = and_then (advance_read len b) (\<lambda>b'. Inr (take len (read_buf b), b'))"
    using False by (simp add: rwb_read_def Let_def len_def)
  ultimately show ?thesis by auto
qed

section \<open>Properties\<close>

text \<open>
  \<open>RWBuffer\<close> used through \<open>Write\<close> is a bounded FIFO queue: a write never panics and never
  loses or reorders data, it appends a prefix of its input to the readable bytes, and it
  takes the whole input when the free space together with the already consumed space
  suffices.
\<close>

theorem write_appends:
  assumes "rwb_inv b"
  shows "\<exists>n b'. rwb_write input b = Inr (n, b') \<and> rwb_inv b' \<and>
           read_buf b' = read_buf b @ take n input \<and>
           n = (if length input \<le> remaining_write b then length input
                else min (length input) (length (rb_buf b) - length (read_buf b)))"
  using assms by (rule rwb_write_spec)

theorem write_appends_witness:
  "\<exists>n b'. rwb_write [7, 8, 9] \<lparr>rb_buf = [1, 2, 3, 4], read_cursor = 2, write_cursor = 3\<rparr> = Inr (n, b') \<and> rwb_inv b' \<and>
     read_buf b' = [3, 7, 8, 9] \<and> n = 3"
  using write_appends[of "\<lparr>rb_buf = [1, 2, 3, 4], read_cursor = 2, write_cursor = 3\<rparr>" "[7, 8, 9]"]
  by (simp add: rwb_inv_def remaining_write_def read_buf_def numeral_3_eq_3)

text \<open>
  Reading returns data in the order it was written: after a write that accepted \<open>n\<close> bytes,
  a read of any length returns the oldest readable bytes, old ones before new ones, and
  keeps the rest; neither call panics.
\<close>

theorem write_then_read_fifo:
  assumes "rwb_inv b"
  shows "\<exists>n b' b''. rwb_write input b = Inr (n, b') \<and>
           rwb_read m b' = Inr (take m (read_buf b @ take n input), b'') \<and>
           rwb_inv b'' \<and> read_buf b'' = drop m (read_buf b @ take n input)"
  using rwb_write_spec[OF assms, of input] rwb_read_spec[of _ m] by metis

theorem write_then_read_fifo_witness:
  "\<exists>n b' b''. rwb_write [7, 8, 9] \<lparr>rb_buf = [1, 2, 3, 4], read_cursor = 2, write_cursor = 3\<rparr> = Inr (n, b') \<and>
     rwb_read 2 b' = Inr (take 2 ([3] @ take n [7, 8, 9]), b'') \<and>
     rwb_inv b'' \<and> read_buf b'' = drop 2 ([3] @ take n [7, 8, 9])"
proof -
  have inv: "rwb_inv \<lparr>rb_buf = [1, 2, 3, 4], read_cursor = 2, write_cursor = 3\<rparr>"
    and buf: "read_buf \<lparr>rb_buf = [1, 2, 3, 4], read_cursor = 2, write_cursor = 3\<rparr> = [3]"
    by (simp_all add: rwb_inv_def read_buf_def)
  show ?thesis using write_then_read_fifo[OF inv, of "[7, 8, 9]" 2] unfolding buf .
qed

end
