(* ===== verification/Stream_Parser.thy ===== *)
theory Stream_Parser
  imports Rw_Buffer
begin

text \<open>
  The interface between the message parsers and the code that feeds them from a
  connection. A parser looks at the bytes received so far and answers with an error, with
  "not enough yet" (\<open>Inr None\<close>), or with the number of bytes it took and the message. The
  laws say that a decision, once made, does not change when more bytes arrive; from them
  follows that the read loops of the program do not depend on how the network cuts the
  byte stream into segments.
\<close>

type_synonym 'a parser = "bytes \<Rightarrow> ((nat \<times> 'a) option) res"

section \<open>The read loop\<close>

text \<open>
  The loop of \<open>handshake_socks5\<close>, of the single-protocol states of \<open>Handshaker::start\<close> and
  (after a first read) of \<open>parse_request\<close> and \<open>parse_response\<close>: try to parse what is
  buffered, read more when that is not enough, fail at the end of the stream.
\<close>

function read_loop :: "'a parser \<Rightarrow> rw_buffer \<Rightarrow> segments \<Rightarrow> (nat \<times> 'a \<times> rw_buffer \<times> segments) res" where
  "read_loop parse b ss =
     (case parse (read_buf b) of
        Inl e \<Rightarrow> Inl e
      | Inr (Some (n, x)) \<Rightarrow> Inr (n, x, b, ss)
      | Inr None \<Rightarrow>
          (case refill b ss of
             Inl e \<Rightarrow> Inl e
           | Inr (n, b', ss') \<Rightarrow>
               if n = 0 then Inl (Err ''Unexpected EOF'') else read_loop parse b' ss'))"
  by pat_completeness auto

lemma refill_decreases:
  "refill b ss = Inr (n, b', ss') \<Longrightarrow> length (concat ss) = n + length (concat ss')"
  using read_some_concat
  by (fastforce simp: refill_def and_then_def split: prod.splits sum.splits)

termination read_loop
  by (relation "measure (\<lambda>(p, b, ss). length (concat ss))") (auto dest: refill_decreases)

declare read_loop.simps [simp del]

section \<open>Streaming parsers\<close>

locale stream_parser =
  fixes parse :: "'a parser"
  assumes consumes: "parse s = Inr (Some (n, x)) \<Longrightarrow> n \<le> length s"
    and stable: "parse s = Inr (Some r) \<Longrightarrow> parse (s @ t) = Inr (Some r)"
    and stable_err: "parse s = Inl e \<Longrightarrow> parse (s @ t) = Inl e"
    and exact: "parse s = Inr (Some (n, x)) \<Longrightarrow> parse (take n s) = Inr (Some (n, x))"
begin

lemma undecided_prefix: "parse (s @ t) = Inr None \<Longrightarrow> parse s = Inr None"
  using stable stable_err by (metis option.exhaust sum.exhaust sum.inject(2) option.distinct(1) Inl_Inr_False)

lemma decided_prefix: "parse s = Inr None \<or> parse s = parse (s @ t)"
  using stable stable_err by (metis option.exhaust sum.exhaust)

text \<open>Two readers that saw different parts of the same stream never disagree.\<close>

lemma decisions_agree:
  "parse (s @ t) \<noteq> Inr None \<Longrightarrow> parse s \<noteq> Inr None \<Longrightarrow> parse s = parse (s @ t)"
  using decided_prefix by blast

text \<open>
  The loop computes what the parser says of the whole stream: the message and the buffer
  that still starts with it, or the parser's error, or the end-of-stream error.
\<close>

lemma read_loop_result:
  assumes "rwb_live b" and "seg_ok ss"
  shows "case parse (read_buf b @ concat ss) of
           Inl e \<Rightarrow> read_loop parse b ss = Inl e
         | Inr None \<Rightarrow> read_loop parse b ss = Inl (Err ''Unexpected EOF'')
         | Inr (Some (n, x)) \<Rightarrow> \<exists>b' ss'. read_loop parse b ss = Inr (n, x, b', ss') \<and> rwb_live b' \<and> seg_ok ss' \<and>
             n \<le> length (read_buf b') \<and> read_buf b' @ concat ss' = read_buf b @ concat ss"
  using assms
proof (induction "length (concat ss)" arbitrary: b ss rule: less_induct)
  case less
  let ?s = "read_buf b @ concat ss"
  show ?case
  proof (cases "parse (read_buf b)")
    case (Inl e)
    then have "parse ?s = Inl e" by (rule stable_err)
    with Inl show ?thesis by (simp add: read_loop.simps[of parse b ss])
  next
    case dec: (Inr r)
    show ?thesis
    proof (cases r)
      case (Some nx)
      obtain n x where nx: "nx = (n, x)" by force
      have "parse ?s = Inr (Some (n, x))" using dec Some nx stable by simp
      moreover have "n \<le> length (read_buf b)" using dec Some nx consumes by simp
      ultimately show ?thesis using dec Some nx less.prems by (simp add: read_loop.simps[of parse b ss])
    next
      case None
      obtain n b' ss' where r: "refill b ss = Inr (n, b', ss')" "rwb_live b'" "seg_ok ss'"
          "read_buf b' @ concat ss' = ?s" "n = 0 \<longleftrightarrow> concat ss = []"
        using refill_ok[OF less.prems] by blast
      show ?thesis
      proof (cases "n = 0")
        case True
        then have "concat ss = []" using r(5) by blast
        then have "parse ?s = Inr None" using dec None by (simp del: concat_eq_Nil_conv)
        with True r dec None show ?thesis by (simp add: read_loop.simps[of parse b ss])
      next
        case False
        have eq: "read_loop parse b ss = read_loop parse b' ss'"
          using False r(1) dec None by (simp add: read_loop.simps[of parse b ss])
        have "length (concat ss') < length (concat ss)"
          using refill_decreases[OF r(1)] False by simp
        from less.hyps[OF this r(2,3)] show ?thesis unfolding eq r(4) .
      qed
    qed
  qed
qed

text \<open>Corollary: the result is the same for every segmentation of the same bytes.\<close>

lemma read_loop_segmentation:
  assumes "rwb_live b1" "seg_ok ss1" "rwb_live b2" "seg_ok ss2"
    and "read_buf b1 @ concat ss1 = read_buf b2 @ concat ss2"
    and "read_loop parse b1 ss1 = Inr (n, x, b1', ss1')"
  shows "\<exists>b2' ss2'. read_loop parse b2 ss2 = Inr (n, x, b2', ss2') \<and>
           read_buf b2' @ concat ss2' = read_buf b1' @ concat ss1'"
  using read_loop_result[OF assms(1,2)] read_loop_result[OF assms(3,4)] assms(5,6)
  by (auto split: sum.splits option.splits)

end

section \<open>Codecs\<close>

text \<open>A streaming parser with an encoder whose output it reads back.\<close>

locale codec = stream_parser parse for parse :: "'a parser" +
  fixes encode :: "'a \<Rightarrow> bytes res"
    and wf :: "'a \<Rightarrow> bool"
  assumes encode_total: "wf x \<Longrightarrow> \<exists>bs. encode x = Inr bs"
    and parse_encode: "wf x \<Longrightarrow> encode x = Inr bs \<Longrightarrow> parse bs = Inr (Some (length bs, x))"
begin

lemma parse_encode_rest:
  assumes "wf x" and "encode x = Inr bs"
  shows "parse (bs @ rest) = Inr (Some (length bs, x))"
  using parse_encode[OF assms] by (rule stable)

lemma encode_injective:
  assumes "wf x" and "wf y" and "encode x = Inr bs" and "encode y = Inr bs"
  shows "x = y"
  using parse_encode[OF assms(1,3)] parse_encode[OF assms(2,4)] by simp

text \<open>No encoding is a proper prefix of another: messages can be sent back to back.\<close>

lemma encode_prefix_free:
  assumes "wf x" and "wf y" and "encode x = Inr bs" and "encode y = Inr (bs @ rest)"
  shows "rest = []"
  using parse_encode_rest[OF assms(1,3), of rest] parse_encode[OF assms(2,4)] by simp

end

end
