(* ===== verification/Socks5_Addr.thy ===== *)
theory Socks5_Addr
  imports Rust_Net Stream_Parser
begin

text \<open>
  Destination addresses (src/socks5/addr.rs): a socket address or a host name with a port,
  their SOCKS5 wire format, the synchronous and the streaming reader of that format, and
  their textual form in configuration files and URLs.
\<close>

section \<open>Model\<close>

datatype address = IP socket_addr | Name rstr u16

fun get_port :: "address \<Rightarrow> u16" where
  "get_port (IP a) = sock_port a"
| "get_port (Name h p) = p"

fun get_host :: "address \<Rightarrow> rstr" where
  "get_host (IP a) = show_ip (sock_ip a)"
| "get_host (Name h p) = h"

definition default_address :: address where
  "default_address = IP (SockV4 0 0)"

text \<open>\<open>TryFrom<&str>\<close>.\<close>

definition address_try_from :: "rstr \<Rightarrow> address res" where
  "address_try_from s =
     (case parse_socket_addr_str s of
        Some v \<Rightarrow> Inr (IP v)
      | None \<Rightarrow>
          (case rfind_byte 58 s of
             Some v \<Rightarrow>
               if v > 0 \<and> v < length s - 1
               then (case parse_u16 (drop (v + 1) s) of
                       Some p \<Rightarrow> Inr (Name (take v s) p)
                     | None \<Rightarrow> Inl (Err ''Parsing URL''))
               else Inl (Err ''Invalid URL'')
           | None \<Rightarrow> Inl (Err ''Invalid URL'')))"

text \<open>\<open>from_str\<close> owns what \<open>try_from\<close> borrows; an address is serialised as its text.\<close>

definition address_from_str :: "rstr \<Rightarrow> address res" where
  "address_from_str s = address_try_from s"

definition address_deserialize :: "rstr res \<Rightarrow> address res" where
  "address_deserialize text = and_then text address_from_str"

text \<open>\<open>From<(Cow<str>, u16)>\<close>: a host that is an IP literal becomes a socket address.\<close>

definition address_from :: "rstr \<Rightarrow> u16 \<Rightarrow> address" where
  "address_from host port =
     (case parse_ip_addr host of
        Some ip \<Rightarrow> IP (sock_new ip port)
      | None \<Rightarrow> Name host port)"

text \<open>
  \<open>resolve\<close> and \<open>resolve_first\<close>; the name service is the argument \<open>lookup\<close>.
\<close>

fun address_resolve :: "(rstr \<Rightarrow> u16 \<Rightarrow> socket_addr list res) \<Rightarrow> address \<Rightarrow> socket_addr list res" where
  "address_resolve lookup (IP a) = Inr [a]"
| "address_resolve lookup (Name h p) = lookup h p"

definition resolve_first :: "(rstr \<Rightarrow> u16 \<Rightarrow> socket_addr list res) \<Rightarrow> address \<Rightarrow> socket_addr res" where
  "resolve_first lookup a =
     and_then (address_resolve lookup a)
       (\<lambda>addrs. case addrs of [] \<Rightarrow> Inl (Err ''Unable to resolve'') | x # _ \<Rightarrow> Inr x)"

text \<open>\<open>parse_async\<close> on the bytes of the stream; the address and the bytes left.\<close>

definition address_parse_async :: "bytes \<Rightarrow> (address \<times> bytes) res" where
  "address_parse_async r =
     and_then (in_context ''Reading address type'' (read_exact 1 r)) (\<lambda>(t, r1).
       if t = [0x1] then
         and_then (in_context ''Reading IPv4 addr'' (read_exact 6 r1)) (\<lambda>(buf, r2).
           Inr (IP (SockV4 (from_be (take 4 buf)) (from_be (drop 4 buf))), r2))
       else if t = [0x4] then
         and_then (in_context ''Reading IPv6 addr'' (read_exact 18 r1)) (\<lambda>(buf, r2).
           Inr (IP (SockV6 (from_be (take 16 buf)) (from_be (drop 16 buf)) 0 0), r2))
       else if t = [0x3] then
         and_then (in_context ''Reading address len'' (read_exact 1 r1)) (\<lambda>(l, r2).
         and_then (in_context ''Reading address'' (read_exact (unat (hd l)) r2)) (\<lambda>(addr, r3).
         and_then (in_context ''Reading port'' (read_exact 2 r3)) (\<lambda>(port, r4).
         and_then (ok_or ''Parsing address string'' (from_utf8 addr)) (\<lambda>h.
           Inr (Name h (from_be port), r4)))))
       else Inl (Err ''Unknown address type''))"

fun address_parse :: "address parser" where
  "address_parse [] = Inr None"
| "address_parse (t # buf) =
     (if t = 0x1 then
        (if length buf < 6 then Inr None
         else Inr (Some (7, IP (SockV4 (from_be (take 4 buf)) (from_be (take 2 (drop 4 buf)))))))
      else if t = 0x3 then
        (case buf of
           [] \<Rightarrow> Inr None
         | l # buf \<Rightarrow>
             let name_len = unat l
             in if length buf < name_len + 2 then Inr None
                else Inr (Some (name_len + 4,
                       address_from (from_utf8_lossy (take name_len buf))
                         (from_be (take 2 (drop name_len buf))))))
      else if t = 0x4 then
        (if length buf < 18 then Inr None
         else Inr (Some (19, IP (SockV6 (from_be (take 16 buf)) (from_be (take 2 (drop 16 buf))) 0 0))))
      else Inl (Err ''IP address type''))"

fun is_unspecified :: "address \<Rightarrow> bool" where
  "is_unspecified (IP a) = ip_is_unspecified (sock_ip a)"
| "is_unspecified (Name h p) =
     (eq_ignore_ascii_case h (lit ''0.0.0.0'') \<or> eq_ignore_ascii_case h (lit ''::/128''))"

fun address_write_len :: "address \<Rightarrow> nat" where
  "address_write_len (IP (SockV4 a p)) = 1 + 4 + 2"
| "address_write_len (IP (SockV6 a p f s)) = 1 + 16 + 2"
| "address_write_len (Name h p) = 1 + (1 + length h) + 2"

text \<open>The bytes that \<open>write\<close> hands to the connection, and \<open>write_to\<close> appends to a vector.\<close>

fun address_write :: "address \<Rightarrow> bytes res" where
  "address_write (IP (SockV4 a p)) = Inr ([0x1] @ be32 a @ be16 p)"
| "address_write (IP (SockV6 a p f s)) = Inr ([0x4] @ be128 a @ be16 p)"
| "address_write (Name h p) =
     (if length h < 256 then Inr ([0x3, of_nat (length h)] @ h @ be16 p)
      else Inl (Err ''out of range integral type conversion attempted''))"

fun address_write_to :: "address \<Rightarrow> bytes \<Rightarrow> bytes res" where
  "address_write_to (IP (SockV4 a p)) out = Inr (((out @ [0x1]) @ be32 a) @ be16 p)"
| "address_write_to (IP (SockV6 a p f s)) out = Inr (((out @ [0x4]) @ be128 a) @ be16 p)"
| "address_write_to (Name h p) out =
     (if length h < 256 then Inr ((((out @ [0x3]) @ [of_nat (length h)]) @ h) @ be16 p)
      else Inl (Err ''out of range integral type conversion attempted''))"

fun show_address :: "address \<Rightarrow> rstr" where
  "show_address (IP a) = show_socket_addr a"
| "show_address (Name h p) = h @ [58] @ show_nat (unat p)"

section \<open>Wire format\<close>

text \<open>
  The addresses the wire format carries: no flow label or scope (the format has none), a
  host of at most 255 bytes. \<open>parse\<close> turns a host that is an IP literal into an address,
  so its round trip needs names that are none.
\<close>

fun wire_addr :: "address \<Rightarrow> bool" where
  "wire_addr (IP (SockV4 a p)) = True"
| "wire_addr (IP (SockV6 a p f s)) = (f = 0 \<and> s = 0)"
| "wire_addr (Name h p) = (length h < 256 \<and> utf8_valid h)"

fun wire_addr_strict :: "address \<Rightarrow> bool" where
  "wire_addr_strict (IP a) = wire_addr (IP a)"
| "wire_addr_strict (Name h p) = (wire_addr (Name h p) \<and> parse_ip_addr h = None)"

lemma wire_addr_strict_weak: "wire_addr_strict a \<Longrightarrow> wire_addr a"
  by (cases a) auto

lemma unat_of_nat_u8: "n < 256 \<Longrightarrow> unat (of_nat n :: u8) = n"
  by (simp add: unat_of_nat)

lemma address_write_to_eq: "address_write_to a out = and_then (address_write a) (\<lambda>bs. Inr (out @ bs))"
  by (cases a rule: address_write.cases) auto

lemma address_write_total: "wire_addr a \<Longrightarrow> \<exists>bs. address_write a = Inr bs"
  by (cases a rule: address_write.cases) auto

lemma address_write_length: "address_write a = Inr bs \<Longrightarrow> length bs = address_write_len a"
  by (cases a rule: address_write.cases) (auto split: if_splits)

lemma address_parse_write:
  "wire_addr_strict a \<Longrightarrow> address_write a = Inr bs \<Longrightarrow> address_parse bs = Inr (Some (length bs, a))"
  by (cases a rule: address_write.cases)
    (auto simp: address_from_def unat_of_nat_u8 split: if_splits)

lemma address_parse_async_write:
  "wire_addr a \<Longrightarrow> address_write a = Inr bs \<Longrightarrow> address_parse_async (bs @ rest) = Inr (a, rest)"
proof (cases a rule: address_write.cases)
  case (1 i p)
  assume bs: "address_write a = Inr bs"
  have "read_exact 6 (be32 i @ be16 p @ rest) = Inr (be32 i @ be16 p, rest)"
    using read_exact_append[of "be32 i @ be16 p" 6 rest] by simp
  then show ?thesis using bs 1 by (auto simp: address_parse_async_def)
next
  case (2 i p f s)
  assume bs: "address_write a = Inr bs" and wf: "wire_addr a"
  have "read_exact 18 (be128 i @ be16 p @ rest) = Inr (be128 i @ be16 p, rest)"
    using read_exact_append[of "be128 i @ be16 p" 18 rest] by simp
  then show ?thesis using bs wf 2 by (auto simp: address_parse_async_def)
next
  case (3 h p)
  assume bs: "address_write a = Inr bs" and wf: "wire_addr a"
  then have bs': "bs = [0x3, of_nat (length h)] @ h @ be16 p" and "length h < 256" "utf8_valid h"
    using 3 by (auto split: if_splits)
  then show ?thesis
    using 3 by (simp add: address_parse_async_def from_utf8_def unat_of_nat_u8)
qed

lemma address_parse_consumes: "address_parse s = Inr (Some (n, x)) \<Longrightarrow> n \<le> length s"
  by (cases s) (auto simp: Let_def split: if_splits list.splits)

lemma address_parse_stable: "address_parse s = Inr (Some r) \<Longrightarrow> address_parse (s @ t) = Inr (Some r)"
  by (cases s) (auto simp: Let_def split: if_splits list.splits)

lemma address_parse_stable_err: "address_parse s = Inl e \<Longrightarrow> address_parse (s @ t) = Inl e"
  by (cases s) (auto simp: Let_def split: if_splits list.splits)

lemma address_parse_exact: "address_parse s = Inr (Some (n, x)) \<Longrightarrow> address_parse (take n s) = Inr (Some (n, x))"
  by (cases s) (auto simp: Let_def take_Cons' drop_take split: if_splits list.splits)

interpretation addr: codec address_parse address_write wire_addr_strict
proof
  fix x assume "wire_addr_strict x"
  then show "\<exists>bs. address_write x = Inr bs"
    using address_write_total wire_addr_strict_weak by blast
qed (use address_parse_consumes address_parse_stable address_parse_stable_err address_parse_exact
    address_parse_write in auto)

section \<open>Text form\<close>

lemma address_try_from_name:
  assumes "h \<noteq> []" and "parse_socket_addr_str (h @ [58] @ show_nat (unat p)) = None"
  shows "address_try_from (h @ [58] @ show_nat (unat p)) = Inr (Name h p)"
proof -
  have "58 \<notin> set (show_nat (unat p))" using show_nat_digits colon_not_digit by blast
  then have "rfind_byte 58 (h @ [58] @ show_nat (unat p)) = Some (length h)"
    using rfind_byte_at[of 58 "show_nat (unat p)" h] by simp
  moreover have "length h < length (h @ [58] @ show_nat (unat p)) - 1"
    by (simp add: Suc_le_eq)
  ultimately show ?thesis using assms by (simp add: address_try_from_def)
qed

section \<open>Properties\<close>

text \<open>
  The SOCKS5 address codec round-trips: for every address the format can carry, \<open>write_to\<close>
  succeeds, it appends exactly \<open>write_len\<close> bytes, and \<open>parse\<close> of these bytes followed by any
  payload returns the address and the number of bytes it took.
\<close>

theorem address_roundtrip:
  assumes "wire_addr_strict a"
  shows "\<exists>bs. address_write_to a [] = Inr bs \<and> length bs = address_write_len a \<and>
           address_parse (bs @ rest) = Inr (Some (address_write_len a, a))"
proof -
  obtain bs where bs: "address_write a = Inr bs" using addr.encode_total[OF assms] by blast
  then show ?thesis
    using addr.parse_encode_rest[OF assms bs, of rest] address_write_length[OF bs]
    by (simp add: address_write_to_eq)
qed

theorem address_roundtrip_witness:
  "\<exists>bs. address_write_to (Name (lit ''localhost'') 9090) [] = Inr bs \<and> length bs = address_write_len (Name (lit ''localhost'') 9090) \<and>
     address_parse (bs @ lit ''hello'') = Inr (Some (address_write_len (Name (lit ''localhost'') 9090), Name (lit ''localhost'') 9090))"
proof (rule address_roundtrip)
  have "parse_ip_addr (lit ''localhost'') = None" by code_simp
  moreover have "utf8_valid (lit ''localhost'')" by (simp add: utf8_valid_ascii)
  ultimately show "wire_addr_strict (Name (lit ''localhost'') 9090)" by simp
qed

text \<open>
  \<open>parse_async\<close> reads back what \<open>write\<close> sent, also for names that are IP literals, and takes
  nothing beyond the address from the stream.
\<close>

theorem address_async_roundtrip:
  assumes "wire_addr a"
  shows "\<exists>bs. address_write a = Inr bs \<and> address_parse_async (bs @ rest) = Inr (a, rest)"
  using address_write_total[OF assms] address_parse_async_write[OF assms] by blast

theorem address_async_roundtrip_witness:
  "\<exists>bs. address_write (Name (lit ''1.2.3.4'') 80) = Inr bs \<and>
     address_parse_async (bs @ [1, 2]) = Inr (Name (lit ''1.2.3.4'') 80, [1, 2])"
  by (rule address_async_roundtrip) (simp add: utf8_valid_ascii)

text \<open>
  The two readers of the same wire format differ on host names that are IP literals:
  \<open>parse\<close> returns a socket address where \<open>parse_async\<close> keeps the name.
\<close>

theorem address_readers_disagree:
  assumes "parse_ip_addr h = Some ip" and "length h < 256" and "utf8_valid h"
    and "address_write (Name h p) = Inr bs"
  shows "address_parse bs = Inr (Some (length bs, IP (sock_new ip p))) \<and>
         address_parse_async bs = Inr (Name h p, [])"
proof -
  have "bs = [0x3, of_nat (length h)] @ h @ be16 p" using assms(2,4) by simp
  then have "address_parse bs = Inr (Some (length bs, IP (sock_new ip p)))"
    using assms(1-3) by (simp add: address_from_def unat_of_nat_u8)
  moreover have "address_parse_async bs = Inr (Name h p, [])"
    using address_parse_async_write[of "Name h p" bs "[]"] assms by simp
  ultimately show ?thesis ..
qed

theorem address_readers_disagree_witness:
  "address_parse ([3, 7] @ lit ''1.2.3.4'' @ [0, 80]) = Inr (Some (11, IP (SockV4 0x01020304 80))) \<and>
   address_parse_async ([3, 7] @ lit ''1.2.3.4'' @ [0, 80]) = Inr (Name (lit ''1.2.3.4'') 80, [])"
proof -
  have ip: "parse_ip_addr (lit ''1.2.3.4'') = Some (IpV4 0x01020304)" by code_simp
  have w: "address_write (Name (lit ''1.2.3.4'') 80) = Inr ([3, 7] @ lit ''1.2.3.4'' @ [0, 80])"
    by code_simp
  show ?thesis
    using address_readers_disagree[OF ip _ _ w] by (simp add: utf8_valid_ascii)
qed

lemma address_shown:
  assumes "(\<exists>i p. a = IP (SockV4 i p)) \<or>
    (\<exists>h p. a = Name h p \<and> h \<noteq> [] \<and> parse_socket_addr_str (show_address a) = None)"
  shows "address_try_from (show_address a) = Inr a"
  using assms
proof (elim disjE exE conjE)
  fix i p assume "a = IP (SockV4 i p)"
  then show ?thesis
    using parse_socket_addr_show_v4[of i p] by (simp add: address_try_from_def)
next
  fix h p assume "a = Name h p" "h \<noteq> []" "parse_socket_addr_str (show_address a) = None"
  then show ?thesis using address_try_from_name[of h p] by simp
qed

text \<open>
  Printing and parsing of addresses in configuration text round-trip: an IPv4 socket address
  is read back from its \<open>Display\<close> form, and so is a name with a port unless the text as a
  whole reads as a socket address.
\<close>

theorem address_text_roundtrip:
  assumes "(\<exists>i p. a = IP (SockV4 i p)) \<or>
    (\<exists>h p. a = Name h p \<and> h \<noteq> [] \<and> parse_socket_addr_str (show_address a) = None)"
  shows "address_deserialize (Inr (show_address a)) = Inr a"
  using address_shown[OF assms] by (simp add: address_deserialize_def address_from_str_def)

theorem address_text_roundtrip_witness:
  "address_deserialize (Inr (show_address (Name (lit ''domain.com'') 80))) = Inr (Name (lit ''domain.com'') 80)"
proof -
  have "parse_socket_addr_str (show_address (Name (lit ''domain.com'') 80)) = None" by code_simp
  then show ?thesis by (intro address_text_roundtrip) auto
qed

end
