(* ===== verification/Udp_Io.thy ===== *)
theory Udp_Io
  imports Socks5_Addr
begin

text \<open>
  Datagram sockets as sinks and streams (src/io/udp.rs) and the restartable timer
  (src/io/timer.rs). The socket itself is the list of the outcomes of its next \<open>send_to\<close>
  calls; what left the machine is the list of the datagrams whose call succeeded.
\<close>

section \<open>Model\<close>

text \<open>The timeout (in seconds) of a query that gets one reply only.\<close>

definition get_one_off_udp_query_timeout :: "address \<Rightarrow> nat option" where
  "get_one_off_udp_query_timeout dst = (if get_port dst = 53 then Some 2 else None)"

text \<open>The local address \<open>bind_udp\<close> asks for.\<close>

definition bind_udp_addr :: "bool \<Rightarrow> socket_addr" where
  "bind_udp_addr v4 = sock_new (if v4 then IpV4 0 else IpV6 0) 0"

datatype 'a poll = Pending | Ready 'a

datatype send_outcome = Sent | WouldBlock | SendFailed string

type_synonym datagram = "bytes \<times> socket_addr"

record udp_sink =
  buffers :: "datagram list"
  waker_waiting :: bool

definition MAX_BUFFER_SIZE :: nat where
  "MAX_BUFFER_SIZE = 10"

definition udp_sink_new :: udp_sink where
  "udp_sink_new = \<lparr>buffers = [], waker_waiting = False\<rparr>"

definition udp_poll_ready :: "udp_sink \<Rightarrow> unit res poll \<times> udp_sink" where
  "udp_poll_ready k =
     (if MAX_BUFFER_SIZE \<le> length (buffers k) then (Pending, k\<lparr>waker_waiting := True\<rparr>)
      else (Ready (Inr ()), k))"

definition udp_start_send :: "udp_sink \<Rightarrow> datagram \<Rightarrow> unit res \<times> udp_sink" where
  "udp_start_send k item = (Inr (), k\<lparr>buffers := buffers k @ [item]\<rparr>)"

text \<open>
  The send loop of \<open>poll_flush\<close>: the result, what was sent, what stays buffered and the
  outcomes not used. A socket with no outcome left would block.
\<close>

fun flush_loop :: "datagram list \<Rightarrow> send_outcome list \<Rightarrow> unit res poll \<times> datagram list \<times> datagram list \<times> send_outcome list" where
  "flush_loop [] os = (Ready (Inr ()), [], [], os)"
| "flush_loop (d # ds) [] = (Pending, [], d # ds, [])"
| "flush_loop (d # ds) (Sent # os) =
     (let (r, sent, rest, os') = flush_loop ds os in (r, d # sent, rest, os'))"
| "flush_loop (d # ds) (WouldBlock # os) = (Pending, [], d # ds, os)"
| "flush_loop (d # ds) (SendFailed e # os) = (Ready (Inl (Err e)), [], d # ds, os)"

text \<open>
  \<open>poll_flush\<close>; \<open>writable\<close> is the outcome of \<open>poll_writable\<close>. A waiting producer is woken when
  the buffer ran empty.
\<close>

definition udp_poll_flush ::
  "unit res poll \<Rightarrow> udp_sink \<Rightarrow> send_outcome list \<Rightarrow> unit res poll \<times> datagram list \<times> udp_sink \<times> send_outcome list" where
  "udp_poll_flush writable k os =
     (case writable of
        Pending \<Rightarrow> (Pending, [], k, os)
      | Ready (Inl e) \<Rightarrow> (Ready (Inl e), [], k, os)
      | Ready (Inr _) \<Rightarrow>
          (let (r, sent, rest, os') = flush_loop (buffers k) os
           in (r, sent,
               k\<lparr>buffers := rest, waker_waiting := waker_waiting k \<and> r \<noteq> Ready (Inr ())\<rparr>, os')))"

text \<open>
  \<open>poll_next\<close>: \<open>readable\<close> is the outcome of \<open>poll_readable\<close>, \<open>recv\<close> of \<open>recv_from\<close> into a fresh
  buffer of 65536 bytes.
\<close>

definition udp_poll_next ::
  "unit res poll \<Rightarrow> datagram res \<Rightarrow> (datagram res) option poll" where
  "udp_poll_next readable recv =
     (case readable of
        Pending \<Rightarrow> Pending
      | Ready (Inl e) \<Rightarrow> Ready None
      | Ready (Inr _) \<Rightarrow>
          (case recv of Inl e \<Rightarrow> Ready (Some (Inl e))
                      | Inr (data, addr) \<Rightarrow> Ready (Some (Inr (take 65536 data, addr)))))"

text \<open>\<open>to_connected\<close>: replies go to the address the last datagram came from.\<close>

definition connected_send :: "socket_addr \<Rightarrow> bytes \<Rightarrow> datagram" where
  "connected_send last_addr b = (b, last_addr)"

definition connected_recv :: "socket_addr \<Rightarrow> datagram res \<Rightarrow> bytes res \<times> socket_addr" where
  "connected_recv last_addr item =
     (case item of Inl e \<Rightarrow> (Inl e, last_addr) | Inr (data, addr) \<Rightarrow> (Inr data, addr))"

subsection \<open>Timer\<close>

text \<open>Time is a natural number; the inner timer is its deadline.\<close>

record timer =
  t_delay :: nat
  t_deadline :: nat

definition timer_new :: "nat \<Rightarrow> nat \<Rightarrow> timer" where
  "timer_new now d = \<lparr>t_delay = d, t_deadline = now + d\<rparr>"

definition timer_reset :: "nat \<Rightarrow> timer \<Rightarrow> timer" where
  "timer_reset now t = t\<lparr>t_deadline := now + t_delay t\<rparr>"

definition timer_poll :: "nat \<Rightarrow> timer \<Rightarrow> unit poll" where
  "timer_poll now t = (if t_deadline t \<le> now then Ready () else Pending)"

section \<open>The sink is a queue\<close>

text \<open>
  Runs of the sink: its state, what was accepted and what left the machine. The \<open>Sink\<close>
  contract lets a producer start a send only when the sink reported ready.
\<close>

inductive sink_run :: "udp_sink \<Rightarrow> datagram list \<Rightarrow> datagram list \<Rightarrow> bool" where
  run_init: "sink_run udp_sink_new [] []"
| run_ready: "sink_run k acc out \<Longrightarrow> sink_run (snd (udp_poll_ready k)) acc out"
| run_send: "sink_run k acc out \<Longrightarrow> fst (udp_poll_ready k) = Ready (Inr ()) \<Longrightarrow>
    sink_run (snd (udp_start_send k d)) (acc @ [d]) out"
| run_flush: "sink_run k acc out \<Longrightarrow> udp_poll_flush w k os = (r, sent, k', os') \<Longrightarrow>
    sink_run k' acc (out @ sent)"

lemma flush_loop_split:
  "flush_loop ds os = (r, sent, rest, os') \<Longrightarrow> ds = sent @ rest \<and> (r = Ready (Inr ()) \<longleftrightarrow> rest = [])"
  by (induction ds os arbitrary: r sent rest os' rule: flush_loop.induct) (auto split: prod.splits)

lemma udp_poll_flush_split:
  assumes "udp_poll_flush w k os = (r, sent, k', os')"
  shows "buffers k = sent @ buffers k'"
  using assms flush_loop_split[of "buffers k" os]
  by (auto simp: udp_poll_flush_def split: poll.splits sum.splits prod.splits)

lemma udp_poll_ready_buffers [simp]: "buffers (snd (udp_poll_ready k)) = buffers k"
  by (simp add: udp_poll_ready_def)

lemma udp_poll_ready_Ready: "fst (udp_poll_ready k) = Ready (Inr ()) \<longleftrightarrow> length (buffers k) < 10"
  by (simp add: udp_poll_ready_def MAX_BUFFER_SIZE_def)

lemma sink_run_inv: "sink_run k acc out \<Longrightarrow> acc = out @ buffers k \<and> length (buffers k) \<le> 10"
proof (induction rule: sink_run.induct)
  case (run_send k acc out d)
  then show ?case by (simp add: udp_start_send_def udp_poll_ready_Ready)
next
  case (run_flush k acc out w os r sent k' os')
  then show ?case using udp_poll_flush_split[OF run_flush.hyps(2)] by simp
qed (simp_all add: udp_sink_new_def)

section \<open>Properties\<close>



text \<open>
  A datagram the socket refuses stays at the head of the queue: as long as the socket refuses
  it every flush fails, sends nothing and keeps the queue, and once ten datagrams are queued
  the sink never becomes ready again.
\<close>

theorem udp_sink_blocked_by_refused:
  assumes "10 \<le> length (buffers k)"
    and "udp_poll_flush (Ready (Inr ())) k (SendFailed e # os) = (r, sent, k', os')"
  shows "r = Ready (Inl (Err e)) \<and> sent = [] \<and> buffers k' = buffers k \<and> fst (udp_poll_ready k') = Pending"
  using assms by (cases "buffers k")
    (auto simp: udp_poll_flush_def udp_poll_ready_def MAX_BUFFER_SIZE_def)

theorem udp_sink_blocked_by_refused_witness:
  "fst (udp_poll_ready (\<lparr>buffers = replicate 10 ([], SockV4 1 2), waker_waiting = False\<rparr>)) = Pending \<and>
   fst (udp_poll_flush (Ready (Inr ())) \<lparr>buffers = replicate 10 ([], SockV4 1 2), waker_waiting = False\<rparr> [SendFailed ''EMSGSIZE'']) =
     Ready (Inl (Err ''EMSGSIZE''))"
  using udp_sink_blocked_by_refused[of "\<lparr>buffers = replicate 10 ([], SockV4 1 2), waker_waiting = False\<rparr>" "''EMSGSIZE''" "[]"]
  by (auto simp: udp_poll_flush_def udp_poll_ready_def MAX_BUFFER_SIZE_def numeral_eq_Suc)

end
