(* ===== verification/Udpman_Server.thy ===== *)
theory Udpman_Server
  imports Conn_Map Udpman_Proto Udp_Io
begin

text \<open>
  The UDP server (src/protocol/udpman/server.rs): the receive loop of \<open>serve\<close> and the task that
  each connection runs, as transitions of one state. The connection table holds handles of
  tasks; a task keeps its inbound queue, so the table and the tasks may disagree for a while,
  as they do in the program: the task removes its entry when it ends (the \<open>defer!\<close> guard),
  the loop may remove it before.
\<close>

section \<open>State\<close>

text \<open>
  Phases of the task of a connection: before the initial datagram went out, waiting for the
  initial reply, forwarding, forwarding with one of its two child tasks ended, ended with the
  guard still to run, and gone.
\<close>

datatype phase = PStart | PReply | PRun | PHalf | PEnding | PDone

record conn_task =
  t_uuid :: rstr
  t_initial :: bytes
  t_src :: socket_addr
  t_dst :: socket_addr
  t_id :: u16
  t_phase :: phase
  t_incoming :: "bytes list"
  t_rx_open :: bool

text \<open>
  \<open>outgoing\<close> is what was handed to the sink, \<open>upstream\<close> what the tasks sent to the destinations
  (with the number of the task).
\<close>

record udp_server =
  conns_of :: conn_map
  tasks :: "conn_task list"
  outgoing :: "(message \<times> socket_addr) list"
  upstream :: "(nat \<times> bytes \<times> socket_addr) list"

definition server_init :: udp_server where
  "server_init = \<lparr>conns_of = [], tasks = [], outgoing = [], upstream = []\<rparr>"

section \<open>Operations\<close>

text \<open>
  A bounded channel of the \<open>futures\<close> crate with one sender holds its buffer and one item more.
\<close>

definition INCOMING_CAPACITY :: nat where
  "INCOMING_CAPACITY = 10 + 1"

definition upd_task :: "nat \<Rightarrow> (conn_task \<Rightarrow> conn_task) \<Rightarrow> udp_server \<Rightarrow> udp_server" where
  "upd_task n f s = s\<lparr>tasks := (tasks s)[n := f (tasks s ! n)]\<rparr>"

text \<open>Dropping a \<open>Conn\<close> cancels its task, whose guard then still runs.\<close>

definition drop_conn :: "conn option \<Rightarrow> udp_server \<Rightarrow> udp_server" where
  "drop_conn c s =
     (case c of
        None \<Rightarrow> s
      | Some c \<Rightarrow> upd_task (c_task c)
          (\<lambda>t. if t_phase t = PDone then t else t\<lparr>t_phase := PEnding, t_rx_open := False\<rparr>) s)"

definition server_remove :: "u16 \<Rightarrow> udp_server \<Rightarrow> udp_server" where
  "server_remove i s =
     (let (m, c) = conn_remove i (conns_of s) in drop_conn c (s\<lparr>conns_of := m\<rparr>))"

text \<open>\<open>Conn::new\<close> starts the task and never fails.\<close>

definition conn_new :: "rstr \<Rightarrow> bytes \<Rightarrow> socket_addr \<Rightarrow> socket_addr \<Rightarrow> u16 \<Rightarrow> udp_server \<Rightarrow> conn \<times> udp_server" where
  "conn_new uuid initial_data src dst conn_id s =
     (\<lparr>c_id = conn_id, c_task = length (tasks s)\<rparr>,
      s\<lparr>tasks := tasks s @ [\<lparr>t_uuid = uuid, t_initial = initial_data, t_src = src, t_dst = dst, t_id = conn_id,
           t_phase = PStart, t_incoming = [], t_rx_open = True\<rparr>]\<rparr>)"

definition serve_connect :: "rstr \<Rightarrow> bytes \<Rightarrow> socket_addr \<Rightarrow> socket_addr \<Rightarrow> udp_server \<Rightarrow> udp_server" where
  "serve_connect uuid initial_data dst from s =
     (case find_available_id (conns_of s) of
        None \<Rightarrow> s
      | Some conn_id \<Rightarrow>
          (let (c, s1) = conn_new uuid initial_data from dst conn_id s;
               (m, old) = conn_insert c (conns_of s1)
           in drop_conn old (s1\<lparr>conns_of := m\<rparr>)))"

text \<open>
  A full queue drops the datagram; a closed one removes the connection.
\<close>

definition serve_data :: "u16 \<Rightarrow> bytes \<Rightarrow> udp_server \<Rightarrow> udp_server" where
  "serve_data conn_id payload s =
     (case conn_get (conns_of s) conn_id of
        None \<Rightarrow> s
      | Some c \<Rightarrow>
          (let t = tasks s ! c_task c
           in if \<not> t_rx_open t then server_remove conn_id s
              else if length (t_incoming t) < INCOMING_CAPACITY
              then upd_task (c_task c) (\<lambda>t. t\<lparr>t_incoming := t_incoming t @ [payload]\<rparr>) s
              else s))"

text \<open>One turn of the receive loop of \<open>serve\<close>.\<close>

fun serve_recv :: "(message \<times> socket_addr) res \<Rightarrow> udp_server \<Rightarrow> udp_server" where
  "serve_recv (Inl e) s = s"
| "serve_recv (Inr (MConnect uuid initial_data None dst, from)) s = serve_connect uuid initial_data dst from s"
| "serve_recv (Inr (MData (Some conn_id) addr payload nonce, from)) s = serve_data conn_id payload s"
| "serve_recv (Inr (msg, from)) s = s"

text \<open>\<open>serve_socket\<close> drops the datagrams that do not parse.\<close>

definition serve_datagram :: "(bytes \<times> socket_addr) res \<Rightarrow> udp_server \<Rightarrow> udp_server" where
  "serve_datagram item s =
     (case item of
        Inl e \<Rightarrow> serve_recv (Inl e) s
      | Inr (data, from) \<Rightarrow>
          (case message_parse data of Inl _ \<Rightarrow> s | Inr msg \<Rightarrow> serve_recv (Inr (msg, from)) s))"

text \<open>The task of a connection, from one suspension point to the next.\<close>

definition task_initial :: "nat \<Rightarrow> unit res \<Rightarrow> udp_server \<Rightarrow> udp_server" where
  "task_initial n r s =
     (case r of
        Inl e \<Rightarrow> upd_task n (\<lambda>t. t\<lparr>t_phase := PEnding\<rparr>) s
      | Inr _ \<Rightarrow> upd_task n (\<lambda>t. t\<lparr>t_phase := PReply\<rparr>)
          (s\<lparr>upstream := upstream s @ [(n, t_initial (tasks s ! n), t_dst (tasks s ! n))]\<rparr>))"

definition task_reply :: "nat \<Rightarrow> (bytes \<times> socket_addr) res option \<Rightarrow> udp_server \<Rightarrow> udp_server" where
  "task_reply n r s =
     (let t = tasks s ! n;
          establish = (\<lambda>initial_reply. upd_task n
            (\<lambda>t. t\<lparr>t_phase := (if get_one_off_udp_query_timeout (IP (t_dst t)) \<noteq> None then PEnding else PRun)\<rparr>)
            (s\<lparr>outgoing := outgoing s @ [(MEstablish (t_uuid t) (t_id t) initial_reply, t_src t)]\<rparr>))
      in case r of
           None \<Rightarrow> establish None
         | Some (Inr (data, addr)) \<Rightarrow> establish (Some (data, addr))
         | Some (Inl e) \<Rightarrow> upd_task n (\<lambda>t. t\<lparr>t_phase := PEnding\<rparr>) s)"

definition task_upload :: "nat \<Rightarrow> unit res \<Rightarrow> udp_server \<Rightarrow> udp_server" where
  "task_upload n r s =
     (case t_incoming (tasks s ! n) of
        [] \<Rightarrow> s
      | d # ds \<Rightarrow>
          (case r of
             Inr _ \<Rightarrow> upd_task n (\<lambda>t. t\<lparr>t_incoming := ds\<rparr>)
               (s\<lparr>upstream := upstream s @ [(n, d, t_dst (tasks s ! n))]\<rparr>)
           | Inl e \<Rightarrow> upd_task n (\<lambda>t. t\<lparr>t_incoming := ds, t_phase := PHalf, t_rx_open := False\<rparr>) s))"

definition task_download :: "nat \<Rightarrow> (bytes \<times> socket_addr) res option \<Rightarrow> udp_server \<Rightarrow> udp_server" where
  "task_download n r s =
     (let t = tasks s ! n
      in case r of
           Some (Inr (data, addr)) \<Rightarrow>
             s\<lparr>outgoing := outgoing s @
                 [(MData None (if addr = t_dst t then None else Some addr) data None, t_src t)]\<rparr>
         | _ \<Rightarrow> upd_task n (\<lambda>t. t\<lparr>t_phase := PHalf\<rparr>) s)"

text \<open>The \<open>select!\<close> returns, on a child task that ended or on the timer.\<close>

definition task_select :: "nat \<Rightarrow> udp_server \<Rightarrow> udp_server" where
  "task_select n s = upd_task n (\<lambda>t. t\<lparr>t_phase := PEnding, t_rx_open := False\<rparr>) s"

text \<open>The \<open>defer!\<close> guard: it removes by id whatever connection has the id now.\<close>

definition task_guard :: "nat \<Rightarrow> udp_server \<Rightarrow> udp_server" where
  "task_guard n s =
     server_remove (t_id (tasks s ! n)) (upd_task n (\<lambda>t. t\<lparr>t_phase := PDone, t_rx_open := False\<rparr>) s)"

section \<open>Runs\<close>

inductive server_step :: "udp_server \<Rightarrow> udp_server \<Rightarrow> bool" where
  recv: "server_step s (serve_datagram item s)"
| initial: "n < length (tasks s) \<Longrightarrow> t_phase (tasks s ! n) = PStart \<Longrightarrow> server_step s (task_initial n r s)"
| reply: "n < length (tasks s) \<Longrightarrow> t_phase (tasks s ! n) = PReply \<Longrightarrow> server_step s (task_reply n q s)"
| upload: "n < length (tasks s) \<Longrightarrow> t_phase (tasks s ! n) \<in> {PRun, PHalf} \<Longrightarrow> t_rx_open (tasks s ! n) \<Longrightarrow>
    server_step s (task_upload n r s)"
| download: "n < length (tasks s) \<Longrightarrow> t_phase (tasks s ! n) \<in> {PRun, PHalf} \<Longrightarrow>
    server_step s (task_download n q s)"
| select: "n < length (tasks s) \<Longrightarrow> t_phase (tasks s ! n) \<in> {PRun, PHalf} \<Longrightarrow> server_step s (task_select n s)"
| guard: "n < length (tasks s) \<Longrightarrow> t_phase (tasks s ! n) = PEnding \<Longrightarrow> server_step s (task_guard n s)"

inductive server_reach :: "udp_server \<Rightarrow> bool" where
  start: "server_reach server_init"
| more: "server_reach s \<Longrightarrow> server_step s s' \<Longrightarrow> server_reach s'"

section \<open>Invariant\<close>

text \<open>
  The table is sorted and its entries point to tasks with their id; each message the server
  sent to a client belongs to a task that serves this client: it announces the uuid of the
  client's request with the id of the connection, or it is data, which names its sender when
  that is not the destination.
\<close>

definition conn_ok :: "udp_server \<Rightarrow> conn \<Rightarrow> bool" where
  "conn_ok s c \<longleftrightarrow> c_task c < length (tasks s) \<and> t_id (tasks s ! c_task c) = c_id c"

fun message_of :: "conn_task \<Rightarrow> message \<times> socket_addr \<Rightarrow> bool" where
  "message_of t (MEstablish uuid i r, a) = (uuid = t_uuid t \<and> i = t_id t \<and> a = t_src t)"
| "message_of t (MData c addr p nonce, a) = (c = None \<and> addr \<noteq> Some (t_dst t) \<and> nonce = None \<and> a = t_src t)"
| "message_of t (MConnect u d n dst, a) = False"

definition server_inv :: "udp_server \<Rightarrow> bool" where
  "server_inv s \<longleftrightarrow> conn_sorted (conns_of s) \<and> list_all (conn_ok s) (conns_of s) \<and>
     list_all (\<lambda>m. list_ex (\<lambda>t. message_of t m) (tasks s)) (outgoing s)"

text \<open>The fields of a task that never change.\<close>

definition same_task :: "conn_task \<Rightarrow> conn_task \<Rightarrow> bool" where
  "same_task t u \<longleftrightarrow> t_uuid t = t_uuid u \<and> t_src t = t_src u \<and> t_dst t = t_dst u \<and> t_id t = t_id u"

lemma message_of_cong: "same_task t u \<Longrightarrow> message_of t m = message_of u m"
  by (cases m rule: message_of.cases[of "(t, m)" for m, simplified]) (auto simp: same_task_def)

definition extends_tasks :: "udp_server \<Rightarrow> udp_server \<Rightarrow> bool" where
  "extends_tasks s s' \<longleftrightarrow> length (tasks s) \<le> length (tasks s') \<and>
     (\<forall>i < length (tasks s). same_task (tasks s ! i) (tasks s' ! i))"

lemma same_task_refl [simp]: "same_task t t"
  by (simp add: same_task_def)

lemma extends_tasks_refl [simp]: "extends_tasks s s"
  by (simp add: extends_tasks_def)

lemma extends_upd_task:
  "tasks s' = tasks s \<Longrightarrow> (\<And>t. same_task t (f t)) \<Longrightarrow> extends_tasks s (upd_task n f s')"
  by (simp add: extends_tasks_def upd_task_def) (metis nth_list_update_eq nth_list_update_neq same_task_refl)

lemma upd_task_simps [simp]:
  "conns_of (upd_task n f s) = conns_of s" "outgoing (upd_task n f s) = outgoing s"
  "upstream (upd_task n f s) = upstream s" "length (tasks (upd_task n f s)) = length (tasks s)"
  "n < length (tasks s) \<Longrightarrow> tasks (upd_task n f s) ! n = f (tasks s ! n)"
  "k \<noteq> n \<Longrightarrow> tasks (upd_task n f s) ! k = tasks s ! k"
  by (simp_all add: upd_task_def)

lemma drop_conn_simps [simp]:
  "conns_of (drop_conn c s) = conns_of s" "outgoing (drop_conn c s) = outgoing s"
  "upstream (drop_conn c s) = upstream s" "length (tasks (drop_conn c s)) = length (tasks s)"
  by (cases c; simp add: drop_conn_def)+

lemma extends_drop_conn: "tasks s' = tasks s \<Longrightarrow> extends_tasks s (drop_conn c s')"
  by (cases c) (auto simp: drop_conn_def same_task_def intro!: extends_upd_task, simp add: extends_tasks_def)

lemma conn_ok_extends: "conn_ok s c \<Longrightarrow> extends_tasks s s' \<Longrightarrow> conn_ok s' c"
  by (auto simp: conn_ok_def extends_tasks_def same_task_def)

lemma message_of_extends:
  assumes "list_ex (\<lambda>t. message_of t m) (tasks s)" and "extends_tasks s s'"
  shows "list_ex (\<lambda>t. message_of t m) (tasks s')"
proof -
  obtain i where i: "i < length (tasks s)" "message_of (tasks s ! i) m"
    using assms(1) by (auto simp: list_ex_iff in_set_conv_nth)
  then have "i < length (tasks s')" "message_of (tasks s' ! i) m"
    using assms(2) message_of_cong[of "tasks s ! i" "tasks s' ! i" m] by (auto simp: extends_tasks_def)
  then show ?thesis unfolding list_ex_iff using nth_mem by blast
qed

text \<open>A step keeps the invariant when it only adds good entries, tasks and messages.\<close>

lemma server_inv_extends:
  assumes "server_inv s" and "extends_tasks s s'" and "conn_sorted (conns_of s')"
    and "\<And>c. c \<in> set (conns_of s') \<Longrightarrow> c \<in> set (conns_of s) \<or> conn_ok s' c"
    and "\<And>m. m \<in> set (outgoing s') \<Longrightarrow> m \<in> set (outgoing s) \<or> list_ex (\<lambda>t. message_of t m) (tasks s')"
  shows "server_inv s'"
  using assms conn_ok_extends message_of_extends
  unfolding server_inv_def list_all_iff by metis

lemma server_inv_sorted: "server_inv s \<Longrightarrow> conn_sorted (conns_of s)"
  by (simp add: server_inv_def)

lemma server_inv_conn: "server_inv s \<Longrightarrow> conn_get (conns_of s) i = Some c \<Longrightarrow> conn_ok s c \<and> c_id c = i"
  by (auto simp: server_inv_def list_all_iff conn_get_iff)

lemma server_inv_upd_task:
  assumes "server_inv s" and "\<And>t. same_task t (f t)"
  shows "server_inv (upd_task n f s)"
  using assms(1) extends_upd_task[OF refl assms(2)] by (rule server_inv_extends) (use assms in \<open>auto simp: server_inv_def\<close>)

lemma server_remove_inv: "server_inv s \<Longrightarrow> server_inv (server_remove i s)"
  by (rule server_inv_extends[of s])
    (auto simp: server_remove_def extends_drop_conn split_beta server_inv_sorted conns.del_inv conn_remove_set)

lemma serve_connect_eq:
  assumes "conn_sorted (conns_of s)" and "find_available_id (conns_of s) = Some i"
  shows "serve_connect uuid d dst from s =
     s\<lparr>conns_of := fst (conn_insert \<lparr>c_id = i, c_task = length (tasks s)\<rparr> (conns_of s)),
       tasks := tasks s @ [\<lparr>t_uuid = uuid, t_initial = d, t_src = from, t_dst = dst, t_id = i,
           t_phase = PStart, t_incoming = [], t_rx_open = True\<rparr>]\<rparr>"
  using conns.ins_fresh(1)[OF assms(1), of "\<lparr>c_id = i, c_task = length (tasks s)\<rparr>"] assms(2)
  by (simp add: serve_connect_def conn_new_def drop_conn_def split_beta)

lemma serve_connect_inv:
  assumes "server_inv s"
  shows "server_inv (serve_connect uuid d dst from s)"
proof (cases "find_available_id (conns_of s)")
  case None
  then show ?thesis using assms by (simp add: serve_connect_def)
next
  case (Some i)
  note srt = server_inv_sorted[OF assms]
  show ?thesis
    unfolding serve_connect_eq[OF srt Some]
    by (rule server_inv_extends[OF assms])
      (auto simp: extends_tasks_def nth_append conns.ins_inv srt conn_insert_set conn_ok_def)
qed

lemma serve_data_inv: "server_inv s \<Longrightarrow> server_inv (serve_data i p s)"
  by (auto simp: serve_data_def Let_def same_task_def intro!: server_remove_inv server_inv_upd_task
      split: option.split)

lemma serve_recv_inv: "server_inv s \<Longrightarrow> server_inv (serve_recv item s)"
  by (cases "(item, s)" rule: serve_recv.cases) (simp_all add: serve_connect_inv serve_data_inv)

lemma serve_datagram_inv: "server_inv s \<Longrightarrow> server_inv (serve_datagram item s)"
  by (auto simp: serve_datagram_def serve_recv_inv split: sum.split)

text \<open>Sending a message of a task keeps the invariant.\<close>

lemma server_inv_send:
  assumes "server_inv s" and "n < length (tasks s)" and "message_of (tasks s ! n) m"
  shows "server_inv (s\<lparr>outgoing := outgoing s @ [m]\<rparr>)"
  using assms by (auto simp: server_inv_def list_ex_iff list_all_iff conn_ok_def)

lemma server_inv_upstream: "server_inv (s\<lparr>upstream := u\<rparr>) = server_inv s"
  by (auto simp: server_inv_def conn_ok_def list_all_iff)

lemma task_reply_inv: "server_inv s \<Longrightarrow> n < length (tasks s) \<Longrightarrow> server_inv (task_reply n q s)"
  by (auto simp: task_reply_def Let_def same_task_def intro!: server_inv_upd_task server_inv_send
      split: option.split sum.split)

lemma task_download_inv: "server_inv s \<Longrightarrow> n < length (tasks s) \<Longrightarrow> server_inv (task_download n q s)"
  by (auto simp: task_download_def Let_def same_task_def intro!: server_inv_upd_task server_inv_send
      split: option.split sum.split)

lemma task_other_inv:
  "server_inv s \<Longrightarrow> server_inv (task_initial n r s)"
  "server_inv s \<Longrightarrow> server_inv (task_upload n r s)"
  "server_inv s \<Longrightarrow> server_inv (task_select n s)"
  "server_inv s \<Longrightarrow> server_inv (task_guard n s)"
  by (auto simp: task_initial_def task_upload_def task_select_def task_guard_def same_task_def server_inv_upstream
      intro!: server_inv_upd_task server_remove_inv split: sum.split list.split)

lemma server_step_inv: "server_step s s' \<Longrightarrow> server_inv s \<Longrightarrow> server_inv s'"
  by (induction rule: server_step.induct)
    (simp_all add: serve_datagram_inv task_reply_inv task_download_inv task_other_inv)

lemma server_init_inv: "server_inv server_init"
  by (simp add: server_inv_def server_init_def conn_sorted_def)

lemma server_reach_inv: "server_reach s \<Longrightarrow> server_inv s"
  by (induction rule: server_reach.induct) (auto simp: server_init_inv server_step_inv)

lemma serve_datagram_parsed:
  "message_parse data = Inr msg \<Longrightarrow> serve_datagram (Inr (data, from)) s = serve_recv (Inr (msg, from)) s"
  by (simp add: serve_datagram_def)

section \<open>Properties\<close>


text \<open>
  C22: A \<open>Connect\<close> request never disturbs another connection: in a reachable state with a free id it
  gets an id no connection has, adds one entry and one task, and leaves all other entries and
  tasks as they are; when all ids are taken it changes nothing.
\<close>

theorem connect_gets_fresh_id:
  assumes "server_reach s" and "message_parse data = Inr (MConnect uuid d None dst)"
  shows "case find_available_id (conns_of s) of
      None \<Rightarrow> dom (conn_get (conns_of s)) = UNIV \<and> serve_datagram (Inr (data, from)) s = s
    | Some i \<Rightarrow> conn_get (conns_of s) i = None \<and>
        (\<exists>t. tasks (serve_datagram (Inr (data, from)) s) = tasks s @ [t] \<and> t_id t = i \<and> t_src t = from \<and>
             t_uuid t = uuid \<and> t_dst t = dst \<and> t_initial t = d \<and>
             conn_get (conns_of (serve_datagram (Inr (data, from)) s)) =
               (conn_get (conns_of s))(i \<mapsto> \<lparr>c_id = i, c_task = length (tasks s)\<rparr>))"
proof -
  note srt = server_inv_sorted[OF server_reach_inv[OF assms(1)]]
  have eq: "serve_datagram (Inr (data, from)) s = serve_connect uuid d dst from s"
    using serve_datagram_parsed[OF assms(2)] by simp
  show ?thesis
  proof (cases "find_available_id (conns_of s)")
    case None
    then show ?thesis using conns.fresh_iff[OF srt] by (simp add: eq serve_connect_def)
  next
    case (Some i)
    then show ?thesis
      using conns.fresh_free[OF srt Some] conns.lookup_ins[OF srt, of "\<lparr>c_id = i, c_task = length (tasks s)\<rparr>"]
      by (simp add: eq serve_connect_eq[OF srt Some])
  qed
qed

lemma server_reach_recv: "server_reach s \<Longrightarrow> server_reach (serve_datagram item s)"
  by (rule more[OF _ recv])


theorem connect_gets_fresh_id_witness:
  "conn_get (conns_of (serve_datagram (Inr ([0x00, 1, 65, 1, 2, 3, 4, 0, 80, 7], SockV4 9 9)) server_init)) 1 =
     Some \<lparr>c_id = 1, c_task = 0\<rparr>"
proof -
  have p: "message_parse [0x00, 1, 65, 1, 2, 3, 4, 0, 80, 7] = Inr (MConnect [65] [7] None (SockV4 0x01020304 80))"
    by code_simp
  have f: "find_available_id (conns_of server_init) = Some 1" by code_simp
  show ?thesis using connect_gets_fresh_id[OF start p, of "SockV4 9 9"] f by (auto simp: server_init_def)
qed

text \<open>
  Data of a client reaches the connection it names and no other: in a reachable state, the
  encoded \<open>Data\<close> message appends its payload to the queue of the task behind that id when there is
  room, whatever its other fields; a full queue, an unknown id or bytes that do not parse
  leave the state unchanged.
\<close>

theorem data_reaches_connection:
  assumes "server_reach s" and "message_to_bytes (MData (Some i) a p n) = Inr data" and "wire_msg (MData (Some i) a p n)"
  shows "(case conn_get (conns_of s) i of
       None \<Rightarrow> serve_datagram (Inr (data, from)) s = s
     | Some c \<Rightarrow> t_id (tasks s ! c_task c) = i \<and>
         (t_rx_open (tasks s ! c_task c) \<longrightarrow>
          serve_datagram (Inr (data, from)) s =
            (if length (t_incoming (tasks s ! c_task c)) < 11
             then upd_task (c_task c) (\<lambda>t. t\<lparr>t_incoming := t_incoming t @ [p]\<rparr>) s else s)))"
proof -
  have eq: "serve_datagram (Inr (data, from)) s = serve_data i p s"
    using serve_datagram_parsed[OF message_parse_encode[OF assms(3,2)]] by simp
  show ?thesis
    using server_inv_conn[OF server_reach_inv[OF assms(1)], of i]
    by (auto simp: eq serve_data_def INCOMING_CAPACITY_def conn_ok_def Let_def split: option.split)
qed

definition demo_run :: udp_server where
  "demo_run = serve_datagram (Inr ([0x00, 1, 65, 1, 2, 3, 4, 0, 80, 7], SockV4 9 9)) server_init"

theorem data_reaches_connection_witness:
  "t_incoming (tasks (serve_datagram (Inr ([0x41, 0, 1, 42], SockV4 9 9)) demo_run) ! 0) = [[42]]"
proof -
  have r: "server_reach demo_run" unfolding demo_run_def by (rule server_reach_recv[OF start])
  have e: "message_to_bytes (MData (Some 1) None [42] None) = Inr [0x41, 0, 1, 42]" by code_simp
  have g: "conn_get (conns_of demo_run) 1 = Some \<lparr>c_id = 1, c_task = 0\<rparr>" by code_simp
  have t: "t_rx_open (tasks demo_run ! 0)" "t_incoming (tasks demo_run ! 0) = []" "0 < length (tasks demo_run)"
    by code_simp+
  show ?thesis
    using data_reaches_connection[OF r e, of "SockV4 9 9"] g t by simp
qed

text \<open>
  The removal by id that ends a task can hit a connection that is not its own: the server can
  reach a state in which a connection that was just accepted (its task has not even sent the
  first datagram) has the id of an older task whose guard is still to run, and that guard
  then deletes the new connection.
\<close>

definition race_run :: "nat \<Rightarrow> udp_server" where
  "race_run k =
     (let s1 = demo_run;
          s2 = task_initial 0 (Inr ()) s1;
          s3 = task_reply 0 None s2;
          s4 = serve_datagram (Inr ([0x41, 0, 1, 42], SockV4 9 9)) s3;
          s5 = task_upload 0 (Inl (Err ''EPERM'')) s4;
          s6 = serve_datagram (Inr ([0x41, 0, 1, 43], SockV4 9 9)) s5;
          s7 = serve_datagram (Inr ([0x00, 1, 66, 1, 2, 3, 4, 0, 80, 8], SockV4 10 10)) s6
      in [s1, s2, s3, s4, s5, s6, s7] ! k)"

lemma race_run_reach: "server_reach (race_run 6)"
proof -
  have 1: "server_reach (race_run 0)"
    using server_reach_recv[OF start] by (simp add: race_run_def demo_run_def Let_def)
  have "0 < length (tasks (race_run 0))" "t_phase (tasks (race_run 0) ! 0) = PStart" by code_simp+
  then have 2: "server_reach (race_run 1)"
    using more[OF 1 initial[of 0 "race_run 0" "Inr ()"]] by (simp add: race_run_def Let_def)
  have "0 < length (tasks (race_run 1))" "t_phase (tasks (race_run 1) ! 0) = PReply" by code_simp+
  then have 3: "server_reach (race_run 2)"
    using more[OF 2 reply[of 0 "race_run 1" None]] by (simp add: race_run_def Let_def)
  have 4: "server_reach (race_run 3)"
    using server_reach_recv[OF 3] by (simp add: race_run_def Let_def)
  have "0 < length (tasks (race_run 3))" "t_phase (tasks (race_run 3) ! 0) = PRun"
    "t_rx_open (tasks (race_run 3) ! 0)" by code_simp+
  then have 5: "server_reach (race_run 4)"
    using more[OF 4 upload[of 0 "race_run 3" "Inl (Err ''EPERM'')"]] by (simp add: race_run_def Let_def)
  have 6: "server_reach (race_run 5)"
    using server_reach_recv[OF 5] by (simp add: race_run_def Let_def)
  then show ?thesis
    using server_reach_recv[OF 6] by (simp add: race_run_def Let_def)
qed

theorem stale_guard_removes_new_connection:
  "\<exists>s c. server_reach s \<and> server_step s (task_guard 0 s) \<and> conn_get (conns_of s) 1 = Some c \<and> c_task c = 1 \<and>
     t_phase (tasks s ! 1) = PStart \<and> conn_get (conns_of (task_guard 0 s)) 1 = None"
proof -
  have "0 < length (tasks (race_run 6))" "t_phase (tasks (race_run 6) ! 0) = PEnding" by code_simp+
  then have "server_step (race_run 6) (task_guard 0 (race_run 6))" by (rule guard)
  moreover have "conn_get (conns_of (race_run 6)) 1 = Some \<lparr>c_id = 1, c_task = 1\<rparr>"
    "t_phase (tasks (race_run 6) ! 1) = PStart" "conn_get (conns_of (task_guard 0 (race_run 6))) 1 = None"
    by code_simp+
  ultimately show ?thesis using race_run_reach by (intro exI[of _ "race_run 6"]) auto
qed

end
