(* ===== verification/Udpman_Serve.thy ===== *)
theory Udpman_Serve
  imports Udpman_Server
begin

text \<open>
  The whole UDP server (\<open>serve_socket\<close> and \<open>serve\<close> of src/protocol/udpman/server.rs): the receiving task with the tasks of the
  connections (\<open>Udpman_Server\<close>), the sending task, which takes the messages for the clients from
  their common channel, encodes them and sends them through the socket's sink (\<open>Udp_Io\<close>), and the race of the two. The bound of the channel,
  which only delays the tasks that fill it, plays no role in what is sent and is left out.
\<close>

section \<open>State\<close>

text \<open>
  \<open>us_taken\<close> counts the messages taken from the channel; \<open>us_sending\<close> says that the sending task is inside \<open>send\<close>,
  \<open>us_wire\<close> is what left the machine, \<open>us_result\<close> the result of \<open>serve\<close> once it has one.
\<close>

record udp_serve =
  us_core :: udp_server
  us_taken :: nat
  us_sending :: bool
  us_sink :: udp_sink
  us_wire :: "datagram list"
  us_result :: "unit res option"

definition udp_serve_new :: udp_serve where
  "udp_serve_new = \<lparr>us_core = server_init, us_taken = 0, us_sending = False, us_sink = udp_sink_new, us_wire = [], us_result = None\<rparr>"

section \<open>The sending task\<close>

text \<open>The next message is taken, encoded (the \<open>with\<close> of \<open>serve_socket\<close>) and handed to the sink; an error ends the task, and with it the race.\<close>

definition serve_take :: "udp_serve \<Rightarrow> udp_serve" where
  "serve_take s =
     (if us_sending s \<or> length (outgoing (us_core s)) \<le> us_taken s then s
      else (let (m, a) = outgoing (us_core s) ! us_taken s; s' = s\<lparr>us_taken := us_taken s + 1\<rparr>
            in case message_to_bytes m of
                 Inl e \<Rightarrow> s'\<lparr>us_result := Some (Inl e)\<rparr>
               | Inr b \<Rightarrow> s'\<lparr>us_sending := True, us_sink := snd (udp_start_send (us_sink s) (b, a))\<rparr>))"

text \<open>A poll of \<open>send\<close> that flushes the sink; \<open>w\<close> and \<open>os\<close> are the outcomes of the socket.\<close>

definition serve_flush :: "unit res poll \<Rightarrow> send_outcome list \<Rightarrow> udp_serve \<Rightarrow> udp_serve" where
  "serve_flush w os s =
     (if \<not> us_sending s then s
      else (let (r, sent, k, _) = udp_poll_flush w (us_sink s) os; s' = s\<lparr>us_sink := k, us_wire := us_wire s @ sent\<rparr>
            in case r of
                 Pending \<Rightarrow> s'
               | Ready (Inr _) \<Rightarrow> s'\<lparr>us_sending := False\<rparr>
               | Ready (Inl e) \<Rightarrow> s'\<lparr>us_result := Some (Inl e)\<rparr>))"

text \<open>The receiving task ends when the stream of datagrams does.\<close>

definition serve_closed :: "udp_serve \<Rightarrow> udp_serve" where
  "serve_closed s = s\<lparr>us_result := Some (Inr ())\<rparr>"

section \<open>Runs\<close>

text \<open>
  Without a result, every task may go on; with one, \<open>race\<close> has dropped the other task, and with it the table
  and the tasks of the connections.
\<close>

inductive udp_serve_step :: "udp_serve \<Rightarrow> udp_serve \<Rightarrow> bool" where
  us_work: "us_result s = None \<Longrightarrow> server_step (us_core s) c \<Longrightarrow> udp_serve_step s (s\<lparr>us_core := c\<rparr>)"
| us_take: "us_result s = None \<Longrightarrow> udp_serve_step s (serve_take s)"
| us_flush: "us_result s = None \<Longrightarrow> udp_serve_step s (serve_flush w os s)"
| us_closed: "us_result s = None \<Longrightarrow> udp_serve_step s (serve_closed s)"

inductive_cases udp_serve_stepE: "udp_serve_step s s'"

inductive udp_serve_reach :: "udp_serve \<Rightarrow> bool" where
  us_start: "udp_serve_reach udp_serve_new"
| us_more: "udp_serve_reach s \<Longrightarrow> udp_serve_step s s' \<Longrightarrow> udp_serve_reach s'"

section \<open>Invariant\<close>

text \<open>
  The messages taken so far, encoded, are what left the machine and then what the sink still holds, except that
  a message that could not be encoded, the last one, has no datagram.
\<close>

definition encoded :: "(message \<times> socket_addr) list \<Rightarrow> datagram list \<Rightarrow> bool" where
  "encoded ms ds \<longleftrightarrow> list_all2 (\<lambda>(m, a) (b, a'). message_to_bytes m = Inr b \<and> a' = a) ms ds"

definition serve_inv :: "udp_serve \<Rightarrow> bool" where
  "serve_inv s \<longleftrightarrow> server_reach (us_core s) \<and> us_taken s \<le> length (outgoing (us_core s)) \<and>
     (\<not> us_sending s \<longrightarrow> buffers (us_sink s) = []) \<and> length (buffers (us_sink s)) \<le> 1 \<and>
     (\<exists>n. n \<le> us_taken s \<and> (us_result s = None \<longrightarrow> n = us_taken s) \<and>
        encoded (take n (outgoing (us_core s))) (us_wire s @ buffers (us_sink s)))"

text \<open>The connections' tasks only ever append to the channel.\<close>

lemma outgoing_remove [simp]: "outgoing (server_remove i s) = outgoing s"
  by (simp add: server_remove_def Let_def split_beta)

lemma outgoing_connect [simp]: "outgoing (serve_connect u d dst from s) = outgoing s"
  by (simp add: serve_connect_def conn_new_def Let_def split_beta split: option.split)

lemma outgoing_data [simp]: "outgoing (serve_data i p s) = outgoing s"
  by (simp add: serve_data_def Let_def split: option.split)

lemma outgoing_recv [simp]: "outgoing (serve_recv r s) = outgoing s"
  by (cases "(r, s)" rule: serve_recv.cases) simp_all

lemma outgoing_grows: "server_step s s' \<Longrightarrow> \<exists>ms. outgoing s' = outgoing s @ ms"
  by (induction rule: server_step.induct)
    (auto simp: serve_datagram_def task_initial_def task_reply_def task_upload_def task_download_def task_select_def
       task_guard_def Let_def split: sum.split option.split list.split)

lemma encoded_Nil [simp]: "encoded [] ds \<longleftrightarrow> ds = []"
  by (simp add: encoded_def)

lemma encoded_snoc: "encoded ms ds \<Longrightarrow> message_to_bytes m = Inr b \<Longrightarrow> encoded (ms @ [(m, a)]) (ds @ [(b, a)])"
  by (simp add: encoded_def list_all2_appendI)

lemma serve_inv_take:
  assumes "serve_inv s" and "us_result s = None"
  shows "serve_inv (serve_take s)"
proof (cases "us_sending s \<or> length (outgoing (us_core s)) \<le> us_taken s")
  case True
  then show ?thesis using assms by (simp add: serve_take_def)
next
  case False
  obtain m a where ma: "outgoing (us_core s) ! us_taken s = (m, a)" by fastforce
  have b: "buffers (us_sink s) = []" and e: "encoded (take (us_taken s) (outgoing (us_core s))) (us_wire s)"
    using assms False by (auto simp: serve_inv_def)
  show ?thesis
  proof (cases "message_to_bytes m")
    case (Inl err)
    then show ?thesis using assms False ma b e
      by (auto simp: serve_take_def serve_inv_def intro: exI[of _ "us_taken s"])
  next
    case (Inr bs)
    have "take (Suc (us_taken s)) (outgoing (us_core s)) = take (us_taken s) (outgoing (us_core s)) @ [(m, a)]"
      using False ma by (simp add: take_Suc_conv_app_nth)
    then show ?thesis using assms False ma b encoded_snoc[OF e Inr, of a] Inr
      by (auto simp: serve_take_def serve_inv_def udp_start_send_def)
  qed
qed

lemma serve_inv_flush:
  assumes "serve_inv s" and "us_result s = None"
  shows "serve_inv (serve_flush w os s)"
proof -
  obtain r sent k os' where f: "udp_poll_flush w (us_sink s) os = (r, sent, k, os')" by (metis prod_cases4)
  have split: "buffers (us_sink s) = sent @ buffers k" by (rule udp_poll_flush_split[OF f])
  have drained: "r = Ready (Inr ()) \<Longrightarrow> buffers k = []"
    using f flush_loop_split[of "buffers (us_sink s)" os]
    by (auto simp: udp_poll_flush_def split: poll.splits sum.splits prod.splits)
  show ?thesis
    using assms f split drained
    by (cases r) (auto simp: serve_flush_def serve_inv_def Let_def split: sum.split)
qed

lemma serve_inv_work:
  assumes "serve_inv s" and "server_step (us_core s) c"
  shows "serve_inv (s\<lparr>us_core := c\<rparr>)"
  using outgoing_grows[OF assms(2)] assms(1) more[OF _ assms(2)]
  by (auto simp: serve_inv_def)

lemma serve_reach_inv: "udp_serve_reach s \<Longrightarrow> serve_inv s"
proof (induction rule: udp_serve_reach.induct)
  case us_start
  then show ?case by (simp add: serve_inv_def udp_serve_new_def server_reach.start udp_sink_new_def)
next
  case (us_more s s')
  show ?case
    using us_more.hyps(2)
  proof cases
    case us_closed
    then show ?thesis using us_more.IH by (auto simp: serve_closed_def serve_inv_def)
  qed (use us_more.IH serve_inv_work serve_inv_take serve_inv_flush in auto)
qed

section \<open>Properties\<close>


text \<open>Two clients whose destinations answer: the run until the first reply is in the sink.\<close>

definition serve_demo_core :: udp_server where
  "serve_demo_core =
     task_reply 1 (Some (Inr ([2], SockV4 5 80))) (task_initial 1 (Inr ()) (serve_datagram (Inr ([0x00, 1, 66, 1, 2, 3, 4, 0, 80, 8], SockV4 10 10))
       (task_reply 0 (Some (Inr ([1], SockV4 5 80))) (task_initial 0 (Inr ()) demo_run))))"

definition serve_demo :: udp_serve where
  "serve_demo = serve_take (udp_serve_new\<lparr>us_core := serve_demo_core\<rparr>)"

lemma serve_demo_core_reach: "server_reach serve_demo_core"
proof -
  let ?a = "demo_run" and ?b = "task_initial 0 (Inr ()) demo_run"
  let ?c = "task_reply 0 (Some (Inr ([1], SockV4 5 80))) ?b"
  let ?d = "serve_datagram (Inr ([0x00, 1, 66, 1, 2, 3, 4, 0, 80, 8], SockV4 10 10)) ?c"
  let ?e = "task_initial 1 (Inr ()) ?d"
  have "server_reach ?a" unfolding demo_run_def by (rule server_reach_recv[OF start])
  moreover have "0 < length (tasks ?a)" "t_phase (tasks ?a ! 0) = PStart" by code_simp+
  ultimately have "server_reach ?b" by (intro more[OF _ initial])
  moreover have "0 < length (tasks ?b)" "t_phase (tasks ?b ! 0) = PReply" by code_simp+
  ultimately have "server_reach ?d" by (intro server_reach_recv more[OF _ reply])
  moreover have "1 < length (tasks ?d)" "t_phase (tasks ?d ! 1) = PStart" by code_simp+
  ultimately have "server_reach ?e" by (intro more[OF _ initial])
  moreover have "1 < length (tasks ?e)" "t_phase (tasks ?e ! 1) = PReply" by code_simp+
  ultimately show ?thesis unfolding serve_demo_core_def by (intro more[OF _ reply])
qed

text \<open>The steps of the other tasks carry over to the whole server.\<close>

lemma serve_reach_core: "server_reach c \<Longrightarrow> udp_serve_reach (udp_serve_new\<lparr>us_core := c\<rparr>)"
proof (induction rule: server_reach.induct)
  case start
  then show ?case using us_start by (simp add: udp_serve_new_def)
next
  case (more c c')
  then show ?case using us_more[OF more.IH us_work, of c'] by (simp add: udp_serve_new_def)
qed

lemma serve_demo_reach: "udp_serve_reach serve_demo"
  unfolding serve_demo_def by (intro us_more[OF serve_reach_core[OF serve_demo_core_reach]] us_take) (simp add: udp_serve_new_def)


text \<open>
  One reply the socket refuses (a datagram that is too long for the network, or a client that claims port 0) ends the
  server for all clients: the error leaves the sending task, wins the race, and the replies to the other clients, already produced, are never sent.
\<close>

theorem failed_reply_ends_server:
  "\<exists>s s'. udp_serve_reach s \<and> udp_serve_step s s' \<and> us_result s = None \<and> us_result s' = Some (Inl (Err ''EMSGSIZE'')) \<and>
     (\<exists>m. (m, SockV4 10 10) \<in> set (drop (us_taken s') (outgoing (us_core s')))) \<and> us_wire s' = [] \<and> (\<nexists>s''. udp_serve_step s' s'')"
proof -
  let ?s' = "serve_flush (Ready (Inr ())) [SendFailed ''EMSGSIZE''] serve_demo"
  have n: "us_result serve_demo = None" by code_simp
  have e: "us_result ?s' = Some (Inl (Err ''EMSGSIZE''))" "us_wire ?s' = []" by code_simp+
  have "SockV4 10 10 \<in> set (map snd (drop (us_taken ?s') (outgoing (us_core ?s'))))" by code_simp
  then show ?thesis
    using serve_demo_reach us_flush[OF n] n e by (intro exI[of _ serve_demo] exI[of _ ?s']) (auto elim: udp_serve_stepE)
qed

end
