(* ===== verification/Udpman_Client.thy ===== *)
theory Udpman_Client
  imports Udpman_Server
begin

text \<open>
  The UDP client (src/protocol/udpman/client.rs): it sends \<open>Connect\<close> with the first datagram,
  waits for the \<open>Establish\<close> that repeats its uuid, and then forwards datagrams in both
  directions under the connection id. The state is that of the task \<open>new_datagram\<close> spawns;
  what the application receives is collected in \<open>delivered\<close>.
\<close>

section \<open>Model\<close>

datatype client_phase = CWaiting | CRunning u16 | CStopped

record udpman_client =
  cl_uuid :: rstr
  cl_initial_dst :: socket_addr
  cl_last_addr :: socket_addr
  cl_phase :: client_phase
  cl_delivered :: "(bytes \<times> address) res list"
  cl_app_closed :: bool

text \<open>
  \<open>new_datagram\<close> up to the spawn: the name service resolves the server and the destination,
  the \<open>Connect\<close> message goes out, \<open>send_ok\<close> is the outcome of that \<open>send_to\<close>. The uuid has 16 bytes.
\<close>

definition udpman_new_datagram ::
  "(rstr \<Rightarrow> u16 \<Rightarrow> socket_addr list res) \<Rightarrow> rstr \<Rightarrow> address \<Rightarrow> address \<Rightarrow> bytes \<Rightarrow> unit res \<Rightarrow>
   ((bytes \<times> socket_addr) \<times> udpman_client) res" where
  "udpman_new_datagram lookup uuid addr dst initial_data send_ok =
     and_then (resolve_first lookup addr) (\<lambda>upstream_addr.
     and_then (resolve_first lookup dst) (\<lambda>initial_dst.
     and_then (message_to_bytes (MConnect uuid initial_data None initial_dst)) (\<lambda>connect_msg.
     and_then (in_context ''Sending connect message'' send_ok) (\<lambda>_.
       Inr ((connect_msg, upstream_addr),
            \<lparr>cl_uuid = uuid, cl_initial_dst = initial_dst, cl_last_addr = upstream_addr,
             cl_phase = CWaiting, cl_delivered = [], cl_app_closed = False\<rparr>)))))"

definition client_deliver :: "(bytes \<times> address) res \<Rightarrow> udpman_client \<Rightarrow> udpman_client" where
  "client_deliver item c =
     (if cl_app_closed c then c else c\<lparr>cl_delivered := cl_delivered c @ [item]\<rparr>)"

definition client_fail :: "fault \<Rightarrow> udpman_client \<Rightarrow> udpman_client" where
  "client_fail e c = (client_deliver (Inl e) c)\<lparr>cl_phase := CStopped\<rparr>"

text \<open>\<open>msg_stream.next()\<close>: one datagram of the socket, parsed; it also moves the peer address.\<close>

definition client_next :: "(bytes \<times> socket_addr) res \<Rightarrow> udpman_client \<Rightarrow> message res \<times> udpman_client" where
  "client_next item c =
     (let (data, last) = connected_recv (cl_last_addr c) item
      in (and_then data message_parse, c\<lparr>cl_last_addr := last\<rparr>))"

text \<open>
  The wait for the first message: \<open>None\<close> is the timeout, \<open>Some None\<close> the end of the stream.
\<close>

definition client_first :: "(bytes \<times> socket_addr) res option option \<Rightarrow> udpman_client \<Rightarrow> udpman_client" where
  "client_first r c =
     (case r of
        None \<Rightarrow> client_fail (Err ''Timeout waiting for first message'') c
      | Some None \<Rightarrow> client_fail (Err ''Message stream closed'') c
      | Some (Some item) \<Rightarrow>
          (case client_next item c of
             (Inl e, c) \<Rightarrow> client_fail e c
           | (Inr (MEstablish received_uuid conn_id initial_reply), c) \<Rightarrow>
               if cl_uuid c \<noteq> received_uuid
               then client_fail (Err ''First replying message's UUID doesn't match the requested one'') c
               else
                 (let c1 = (case initial_reply of
                              None \<Rightarrow> c
                            | Some (data, addr) \<Rightarrow> client_deliver (Inr (data, IP addr)) c)
                  in if cl_app_closed c1 then c1\<lparr>cl_phase := CStopped\<rparr>
                     else c1\<lparr>cl_phase := CRunning conn_id\<rparr>)
           | (Inr _, c) \<Rightarrow> client_fail (Err ''Invalid first message'') c))"

text \<open>One turn of the upload task; the address the application gave is not used.\<close>

definition client_upload :: "bytes \<times> address \<Rightarrow> udpman_client \<Rightarrow> (bytes \<times> socket_addr) res" where
  "client_upload item c =
     (case cl_phase c of
        CRunning conn_id \<Rightarrow>
          and_then (message_to_bytes (MData (Some conn_id) None (fst item) None))
            (\<lambda>b. Inr (connected_send (cl_last_addr c) b))
      | _ \<Rightarrow> Inl (Err ''closed''))"

text \<open>One turn of the download task.\<close>

definition client_download :: "(bytes \<times> socket_addr) res \<Rightarrow> udpman_client \<Rightarrow> udpman_client" where
  "client_download item c =
     (case client_next item c of
        (Inl e, c) \<Rightarrow> c\<lparr>cl_phase := CStopped\<rparr>
      | (Inr (MData conn_id addr payload nonce), c) \<Rightarrow>
          if cl_app_closed c then c\<lparr>cl_phase := CStopped\<rparr>
          else client_deliver
                 (Inr (payload, IP (case addr of None \<Rightarrow> cl_initial_dst c | Some a \<Rightarrow> a))) c
      | (Inr m, c) \<Rightarrow> c)"

section \<open>Lemmas\<close>

lemma client_next_ok:
  "message_parse data = Inr m \<Longrightarrow> client_next (Inr (data, a)) c = (Inr m, c\<lparr>cl_last_addr := a\<rparr>)"
  by (simp add: client_next_def connected_recv_def)

lemma client_first_establish:
  assumes "message_parse data = Inr (MEstablish (cl_uuid c) i r)" and "\<not> cl_app_closed c"
  shows "cl_phase (client_first (Some (Some (Inr (data, a)))) c) = CRunning i \<and>
         cl_delivered (client_first (Some (Some (Inr (data, a)))) c) =
           cl_delivered c @ (case r of None \<Rightarrow> [] | Some (d, from) \<Rightarrow> [Inr (d, IP from)])"
  using assms by (cases r) (auto simp: client_first_def client_next_ok client_deliver_def Let_def)

lemma client_first_phase:
  "cl_phase (client_first r c) = CStopped \<or>
   (\<exists>data a i reply. r = Some (Some (Inr (data, a))) \<and> message_parse data = Inr (MEstablish (cl_uuid c) i reply) \<and>
      cl_phase (client_first r c) = CRunning i)"
  by (auto simp: client_first_def client_next_def connected_recv_def client_fail_def client_deliver_def Let_def
      and_then_def split: option.split sum.split message.split prod.split)

section \<open>Properties\<close>

text \<open>
  The client starts forwarding only on the answer to its own request: whatever arrives first, it
  either stops or has received an \<open>Establish\<close> with its uuid, and then runs under the connection
  id of that message.
\<close>

theorem client_establish_sound:
  "cl_phase (client_first r c) \<noteq> CWaiting \<and>
   (cl_phase (client_first r c) = CRunning i \<longrightarrow>
     (\<exists>data a reply. r = Some (Some (Inr (data, a))) \<and> message_parse data = Inr (MEstablish (cl_uuid c) i reply)))"
  using client_first_phase[of r c] by auto

definition demo_client :: udpman_client where
  "demo_client = \<lparr>cl_uuid = [65], cl_initial_dst = SockV4 1 80, cl_last_addr = SockV4 2 90,
     cl_phase = CWaiting, cl_delivered = [], cl_app_closed = False\<rparr>"

theorem client_establish_sound_witness:
  "\<exists>data a reply. Some (Some (Inr ([0x20, 1, 65, 0, 7], SockV4 2 90))) = Some (Some (Inr (data, a) :: (bytes \<times> socket_addr) res)) \<and>
     message_parse data = Inr (MEstablish [65] 7 reply)"
proof -
  have "cl_phase (client_first (Some (Some (Inr ([0x20, 1, 65, 0, 7], SockV4 2 90)))) demo_client) = CRunning 7"
    by code_simp
  then show ?thesis
    using client_establish_sound[of "Some (Some (Inr ([0x20, 1, 65, 0, 7], SockV4 2 90)))" demo_client 7]
    by (simp add: demo_client_def)
qed

end
