(* ===== verification/Udpman_Session.thy ===== *)
theory Udpman_Session
  imports Udpman_Client
begin

text \<open>
  The UDP client and the UDP server together: from the \<open>Connect\<close> of the client to data on the
  server's connection, with the encoders and parsers of both sides in between.
\<close>

lemma connect_message_sent:
  assumes "udpman_new_datagram lookup uuid addr dst d ok = Inr ((msg, up), c)"
  obtains to where "message_to_bytes (MConnect uuid d None to) = Inr msg" "length uuid < 256"
    "cl_uuid c = uuid" "cl_initial_dst c = to" "\<not> cl_app_closed c" "cl_delivered c = []"
proof -
  obtain to where t: "message_to_bytes (MConnect uuid d None to) = Inr msg" "cl_uuid c = uuid"
    "cl_initial_dst c = to" "\<not> cl_app_closed c" "cl_delivered c = []"
    using assms unfolding udpman_new_datagram_def by (auto simp: and_then_Inr_conv)
  moreover have "length uuid < 256"
    using t(1) by (auto simp: write_uuid_def split: if_splits)
  ultimately show thesis using that by blast
qed

text \<open>The server after it took the request and its task got the answer of the destination.\<close>

definition server_established ::
  "bytes \<Rightarrow> socket_addr \<Rightarrow> (bytes \<times> socket_addr) option \<Rightarrow> udp_server \<Rightarrow> udp_server" where
  "server_established msg from answer s =
     (let n = length (tasks s)
      in task_reply n (map_option Inr answer) (task_initial n (Inr ()) (serve_datagram (Inr (msg, from)) s)))"

lemma server_established_state:
  assumes "conn_sorted (conns_of s)" and "find_available_id (conns_of s) = Some i"
    and "message_parse msg = Inr (MConnect uuid d None dst)"
  shows "conns_of (server_established msg from answer s) =
           fst (conn_insert \<lparr>c_id = i, c_task = length (tasks s)\<rparr> (conns_of s))"
    and "outgoing (server_established msg from answer s) = outgoing s @ [(MEstablish uuid i answer, from)]"
    and "upstream (server_established msg from answer s) = upstream s @ [(length (tasks s), d, dst)]"
    and "tasks (server_established msg from answer s) =
           tasks s @ [\<lparr>t_uuid = uuid, t_initial = d, t_src = from, t_dst = dst, t_id = i,
             t_phase = (if sock_port dst = 53 then PEnding else PRun), t_incoming = [], t_rx_open = True\<rparr>]"
  using serve_datagram_parsed[OF assms(3), of "from" s] assms(1,2)
  by (cases answer; auto simp: server_established_def serve_connect_eq task_initial_def task_reply_def
      upd_task_def get_one_off_udp_query_timeout_def Let_def)+

text \<open>
  C13: A UDP session works end to end: let the client's request be sent and some server, in any
  reachable state with a free id, receive it from \<open>src\<close>. Then the destination gets the first
  datagram; the server's answer to \<open>src\<close>, encoded, makes the client run under the id of a new
  connection and deliver the destination's reply (if there was one); and the next datagram
  the client sends, once the server received it, is the content of the queue of exactly this
  connection.
\<close>

theorem udp_session_end_to_end:
  assumes "server_reach s" and "find_available_id (conns_of s) = Some i"
    and "udpman_new_datagram lookup uuid addr dst d ok = Inr ((msg, up), c)"
    and "plain_sock (cl_initial_dst c)" and "case answer of None \<Rightarrow> True | Some (r, a) \<Rightarrow> plain_sock a"
  shows "\<exists>est c' bs. let s' = server_established msg src answer s in
      upstream s' = upstream s @ [(length (tasks s), d, cl_initial_dst c)] \<and>
      message_to_bytes (fst (last (outgoing s'))) = Inr est \<and> snd (last (outgoing s')) = src \<and>
      c' = client_first (Some (Some (Inr (est, up)))) c \<and> cl_phase c' = CRunning i \<and>
      cl_delivered c' = (case answer of None \<Rightarrow> [] | Some (r, a) \<Rightarrow> [Inr (r, IP a)]) \<and>
      client_upload (p, whatever) c' = Inr (bs, up) \<and>
      conn_get (conns_of s') i = Some \<lparr>c_id = i, c_task = length (tasks s)\<rparr> \<and>
      t_incoming (tasks (serve_datagram (Inr (bs, src)) s') ! length (tasks s)) = [p]"
proof -
  note srt = server_inv_sorted[OF server_reach_inv[OF assms(1)]]
  obtain to where to: "message_to_bytes (MConnect uuid d None to) = Inr msg" "length uuid < 256"
    "cl_uuid c = uuid" "cl_initial_dst c = to" "\<not> cl_app_closed c" "cl_delivered c = []"
    by (rule connect_message_sent[OF assms(3)])
  have req: "message_parse msg = Inr (MConnect uuid d None to)"
    by (rule message_parse_encode[OF _ to(1)]) (use to assms(4) in simp)
  note st = server_established_state[OF srt assms(2) req, of src answer]
  let ?s' = "server_established msg src answer s"
  have wf: "wire_msg (MEstablish uuid i answer)" using to(2) assms(5) by simp
  then obtain est where est: "message_to_bytes (MEstablish uuid i answer) = Inr est"
    using message_encode_total by blast
  let ?c' = "client_first (Some (Some (Inr (est, up)))) c"
  have parsed: "message_parse est = Inr (MEstablish (cl_uuid c) i answer)"
    using message_parse_encode[OF wf est] to(3) by simp
  have run: "cl_phase ?c' = CRunning i"
      "cl_delivered ?c' = (case answer of None \<Rightarrow> [] | Some (r, a) \<Rightarrow> [Inr (r, IP a)])"
    using client_first_establish[OF parsed to(5), of up] to(6) by auto
  have last: "cl_last_addr ?c' = up"
    using to(3,5) parsed
    by (cases answer) (auto simp: client_first_def client_next_ok client_deliver_def Let_def)
  obtain bs where bs: "message_to_bytes (MData (Some i) None p None) = Inr bs" by simp
  have up: "client_upload (p, whatever) ?c' = Inr (bs, up)"
    using run(1) last bs by (simp add: client_upload_def connected_send_def)
  have data: "message_parse bs = Inr (MData (Some i) None p None)"
    by (rule message_parse_encode[OF _ bs]) simp
  have g: "conn_get (conns_of ?s') i = Some \<lparr>c_id = i, c_task = length (tasks s)\<rparr>"
    using conns.lookup_ins[OF srt, of "\<lparr>c_id = i, c_task = length (tasks s)\<rparr>"] by (simp add: st(1))
  have "t_incoming (tasks (serve_datagram (Inr (bs, src)) ?s') ! length (tasks s)) = [p]"
    using g by (simp add: serve_datagram_parsed[OF data] serve_data_def st(4) INCOMING_CAPACITY_def upd_task_def)
  then show ?thesis
    using st(2,3) to(4) est run up g by (intro exI[of _ est] exI[of _ ?c'] exI[of _ bs]) (simp add: Let_def)
qed

definition demo_lookup :: "rstr \<Rightarrow> u16 \<Rightarrow> socket_addr list res" where
  "demo_lookup h p = (if h = lit ''example.com'' then Inr [SockV4 0x01020304 p] else Inl (Err ''unknown host''))"

theorem udp_session_end_to_end_witness:
  "\<exists>msg c est. udpman_new_datagram demo_lookup [65] (IP (SockV4 7 70)) (Name (lit ''example.com'') 80) [1, 2] (Inr ()) =
       Inr ((msg, SockV4 7 70), c) \<and>
     cl_phase (client_first (Some (Some (Inr (est, SockV4 7 70)))) c) = CRunning 1"
proof -
  let ?c = "demo_client\<lparr>cl_initial_dst := SockV4 0x01020304 80, cl_last_addr := SockV4 7 70\<rparr>"
  have new: "udpman_new_datagram demo_lookup [65] (IP (SockV4 7 70)) (Name (lit ''example.com'') 80) [1, 2] (Inr ()) =
      Inr (([0x00, 1, 65, 1, 2, 3, 4, 0, 80, 1, 2], SockV4 7 70), ?c)"
    by code_simp
  have free: "find_available_id (conns_of server_init) = Some 1" by code_simp
  have "plain_sock (cl_initial_dst ?c)" by (simp add: plain_sock_def)
  from udp_session_end_to_end[OF start free new this, of None "SockV4 9 9" "[3]" "IP (SockV4 1 1)"]
  show ?thesis using new by (auto simp: Let_def)
qed

text \<open>One reply of the destination, as the server's task sends it and as the client delivers it.\<close>

definition download_message :: "socket_addr \<Rightarrow> bytes \<times> socket_addr \<Rightarrow> message" where
  "download_message dst r = MData None (if snd r = dst then None else Some (snd r)) (fst r) None"

lemma task_download_message:
  "task_download n (Some (Inr r)) s = s\<lparr>outgoing := outgoing s @ [(download_message (t_dst (tasks s ! n)) r, t_src (tasks s ! n))]\<rparr>"
  by (cases r) (simp add: task_download_def download_message_def Let_def)

lemma client_downloads_message:
  assumes "plain_sock (snd r)" and "message_to_bytes (download_message (cl_initial_dst c) r) = Inr b" and "\<not> cl_app_closed c"
  shows "client_download (Inr (b, up)) c = c\<lparr>cl_last_addr := up, cl_delivered := cl_delivered c @ [Inr (fst r, IP (snd r))]\<rparr>"
proof -
  have "wire_msg (download_message (cl_initial_dst c) r)" using assms(1) by (simp add: download_message_def)
  then have "message_parse b = Inr (download_message (cl_initial_dst c) r)" using assms(2) by (rule message_parse_encode)
  then show ?thesis using assms(3) by (auto simp: client_download_def client_next_ok download_message_def client_deliver_def)
qed

text \<open>
  What the destination and others send back reaches the application with its true sender: the server's task turns every
  datagram into a message to its client, and the client, whose request named the task's destination, delivers from the
  encoded messages exactly these datagrams with the addresses they came from, in order.
\<close>

theorem udp_downloads_end_to_end:
  assumes "t_dst (tasks s ! n) = cl_initial_dst c" and "\<not> cl_app_closed c" and "\<forall>r \<in> set rs. plain_sock (snd r)"
  shows "\<exists>bs. outgoing (fold (\<lambda>r. task_download n (Some (Inr r))) rs s) =
        outgoing s @ map (\<lambda>r. (download_message (t_dst (tasks s ! n)) r, t_src (tasks s ! n))) rs \<and>
     map (\<lambda>r. message_to_bytes (download_message (t_dst (tasks s ! n)) r)) rs = map Inr bs \<and>
     cl_delivered (fold (\<lambda>b. client_download (Inr (b, up))) bs c) = cl_delivered c @ map (\<lambda>(d, a). Inr (d, IP a)) rs"
  using assms
proof (induction rs arbitrary: s c)
  case (Cons r rs)
  have "wire_msg (download_message (cl_initial_dst c) r)" using Cons.prems(3) by (simp add: download_message_def)
  then obtain b where b: "message_to_bytes (download_message (cl_initial_dst c) r) = Inr b" using message_encode_total by blast
  let ?s = "task_download n (Some (Inr r)) s" and ?c = "client_download (Inr (b, up)) c"
  have c: "?c = c\<lparr>cl_last_addr := up, cl_delivered := cl_delivered c @ [Inr (fst r, IP (snd r))]\<rparr>"
    using client_downloads_message b Cons.prems(2,3) by simp
  have "t_dst (tasks ?s ! n) = cl_initial_dst ?c" "\<not> cl_app_closed ?c" "\<forall>r \<in> set rs. plain_sock (snd r)"
    using Cons.prems c by (simp_all add: task_download_message[of n r s])
  from Cons.IH[OF this] obtain bs where "outgoing (fold (\<lambda>r. task_download n (Some (Inr r))) rs ?s) =
        outgoing ?s @ map (\<lambda>r. (download_message (t_dst (tasks ?s ! n)) r, t_src (tasks ?s ! n))) rs"
      "map (\<lambda>r. message_to_bytes (download_message (t_dst (tasks ?s ! n)) r)) rs = map Inr bs"
      "cl_delivered (fold (\<lambda>b. client_download (Inr (b, up))) bs ?c) = cl_delivered ?c @ map (\<lambda>(d, a). Inr (d, IP a)) rs" by blast
  then show ?case using b Cons.prems(1) by (intro exI[of _ "b # bs"]) (simp add: task_download_message[of n r s] c split_beta)
qed simp

theorem udp_downloads_end_to_end_witness:
  "\<exists>bs. cl_delivered (fold (\<lambda>b. client_download (Inr (b, SockV4 7 70))) bs (demo_client\<lparr>cl_initial_dst := SockV4 0x01020304 80\<rparr>)) =
     [Inr ([1], IP (SockV4 0x01020304 80)), Inr ([2], IP (SockV4 5 53))]"
proof -
  have d: "t_dst (tasks demo_run ! 0) = cl_initial_dst (demo_client\<lparr>cl_initial_dst := SockV4 0x01020304 80\<rparr>)" by code_simp
  have "\<forall>r \<in> set [([1 :: u8], SockV4 0x01020304 80), ([2], SockV4 5 53)]. plain_sock (snd r)" by (simp add: plain_sock_def)
  from udp_downloads_end_to_end[OF d _ this, of "SockV4 7 70"] show ?thesis by (auto simp: demo_client_def)
qed

end
