(* ===== verification/Packet_Stream.thy ===== *)
theory Packet_Stream
  imports Socks5_Addr
begin

text \<open>
  Datagrams over a TCP connection: the request that opens a session
  (src/protocol/tcpman/proto.rs), the packet format that leaves out an address that did not
  change since the last packet (src/protocol/tcpman/udp_stream.rs), and the sink and stream
  built on it (src/protocol/tcpman/dgram.rs).
\<close>

section \<open>The request\<close>

datatype tcpman_request = ReqTCP address bytes | ReqUDP address bytes

definition request_parse :: "bytes \<Rightarrow> tcpman_request res" where
  "request_parse buf =
     (case buf of
        [] \<Rightarrow> Inl (Err ''Invalid buf size'')
      | t # buf \<Rightarrow>
          if t \<noteq> 0 \<and> t \<noteq> 1 then Inl (Err ''Reading request_type'')
          else and_then (in_context ''Parsing address'' (address_parse buf)) (\<lambda>r.
               and_then (ok_or ''Expecting complete address'' r) (\<lambda>(offset, dst).
                 Inr (if t = 0 then ReqTCP dst (drop offset buf) else ReqUDP dst (drop offset buf)))))"

text \<open>\<open>to_vec\<close>; the \<open>unwrap\<close> of \<open>write_to\<close> panics.\<close>

definition request_to_vec :: "tcpman_request \<Rightarrow> bytes res" where
  "request_to_vec r =
     (let (t, dst, initial_data) =
        (case r of ReqTCP dst d \<Rightarrow> (0, dst, d) | ReqUDP dst d \<Rightarrow> (1, dst, d))
      in case address_write_to dst [t] of
           Inr buf \<Rightarrow> Inr (buf @ initial_data)
         | Inl _ \<Rightarrow> Inl (Panic ''called `Result::unwrap()` on an `Err` value''))"

section \<open>Packets\<close>

datatype packet_type = PayloadOnly | WithV4Addr | WithV6Addr | WithDomainName

definition packet_type_from_u8 :: "u8 \<Rightarrow> packet_type option" where
  "packet_type_from_u8 v =
     (if v = 1 then Some PayloadOnly else if v = 2 then Some WithV4Addr
      else if v = 3 then Some WithV6Addr else if v = 4 then Some WithDomainName else None)"

fun packet_type_u8 :: "packet_type \<Rightarrow> u8" where
  "packet_type_u8 PayloadOnly = 1"
| "packet_type_u8 WithV4Addr = 2"
| "packet_type_u8 WithV6Addr = 3"
| "packet_type_u8 WithDomainName = 4"

record packet_reader =
  last_received :: "address option"

record packet_writer =
  last_sent :: "address option"

definition reader_new :: packet_reader where
  "reader_new = \<lparr>last_received = None\<rparr>"

definition reader_new_with_initial_addr :: "address \<Rightarrow> packet_reader" where
  "reader_new_with_initial_addr a = \<lparr>last_received = Some a\<rparr>"

definition writer_new :: packet_writer where
  "writer_new = \<lparr>last_sent = None\<rparr>"

definition read_vec :: "bytes \<Rightarrow> nat \<Rightarrow> (bytes \<times> bytes) res" where
  "read_vec input n = in_context ''Reading payload'' (read_exact n input)"

text \<open>
  \<open>PacketReader::read\<close> on the bytes of the connection: the payload with its address, the
  reader and the bytes left.
\<close>

definition reader_read :: "packet_reader \<Rightarrow> bytes \<Rightarrow> ((bytes \<times> address) \<times> packet_reader \<times> bytes) res" where
  "reader_read r input =
     and_then (in_context ''Read headers'' (read_exact 3 input)) (\<lambda>(hdrs, i1).
     and_then (ok_or ''Convert payload type'' (packet_type_from_u8 (hd hdrs))) (\<lambda>packet_type.
       let payload_len = unat (from_be (tl hdrs) :: u16)
       in case packet_type of
            PayloadOnly \<Rightarrow>
              and_then (read_vec i1 payload_len) (\<lambda>(payload, i2).
              and_then (ok_or ''Getting last address'' (last_received r)) (\<lambda>a.
                Inr ((payload, a), r, i2)))
          | WithV4Addr \<Rightarrow>
              and_then (read_vec i1 (payload_len + 6)) (\<lambda>(data, i2).
                let a = IP (SockV4 (from_be (take 4 data)) (from_be (take 2 (drop 4 data))))
                in Inr ((drop 6 data, a), r\<lparr>last_received := Some a\<rparr>, i2))
          | WithV6Addr \<Rightarrow>
              and_then (read_vec i1 (payload_len + 18)) (\<lambda>(data, i2).
                let a = IP (SockV6 (from_be (take 16 data)) (from_be (take 2 (drop 16 data))) 0 0)
                in Inr ((drop 18 data, a), r\<lparr>last_received := Some a\<rparr>, i2))
          | WithDomainName \<Rightarrow>
              and_then (in_context ''Read host len'' (read_exact 2 i1)) (\<lambda>(l, i2).
                let host_name_len = unat (from_be l :: u16)
                in and_then (read_vec i2 (host_name_len + 2 + payload_len)) (\<lambda>(data, i3).
                   and_then (ok_or ''Converting host name'' (from_utf8 (take host_name_len data))) (\<lambda>name.
                     let a = Name name (from_be (take 2 (drop host_name_len data)))
                     in Inr ((drop (host_name_len + 2) data, a), r\<lparr>last_received := Some a\<rparr>, i3))))))"

definition u16_len :: "string \<Rightarrow> bytes \<Rightarrow> u16 res" where
  "u16_len ctx bs = (if length bs < 65536 then Inr (of_nat (length bs)) else Inl (Err ctx))"

fun packet_header :: "address option \<Rightarrow> u16 \<Rightarrow> bytes res" where
  "packet_header None l = Inr ([packet_type_u8 PayloadOnly] @ be16 l)"
| "packet_header (Some (IP (SockV4 a p))) l = Inr ([packet_type_u8 WithV4Addr] @ be16 l @ be32 a @ be16 p)"
| "packet_header (Some (IP (SockV6 a p f s))) l = Inr ([packet_type_u8 WithV6Addr] @ be16 l @ be128 a @ be16 p)"
| "packet_header (Some (Name h p)) l =
     and_then (u16_len ''Converting name len to u16 int'' h) (\<lambda>n.
       Inr ([packet_type_u8 WithDomainName] @ be16 l @ be16 n @ h @ be16 p))"

text \<open>
  \<open>PacketWriter::write\<close> on a connection that takes everything: the writer and the bytes sent.
  The writer remembers the address before it knows that the header can be written.
\<close>

definition writer_write :: "packet_writer \<Rightarrow> bytes \<times> address \<Rightarrow> packet_writer \<times> bytes res" where
  "writer_write w item =
     (let (payload, addr) = item
      in case u16_len ''Converting payload len to u16 int'' payload of
           Inl e \<Rightarrow> (w, Inl e)
         | Inr payload_len \<Rightarrow>
             (let (w', a) = (if last_sent w = Some addr then (w, None)
                             else (w\<lparr>last_sent := Some addr\<rparr>, Some addr))
              in (w', and_then (packet_header a payload_len) (\<lambda>h. Inr (h @ payload)))))"

text \<open>The tasks behind \<open>create_udp_sink\<close> and \<open>create_udp_stream\<close>; both stop at the first error.\<close>

fun udp_sink_task :: "packet_writer \<Rightarrow> (bytes \<times> address) list \<Rightarrow> bytes" where
  "udp_sink_task w [] = []"
| "udp_sink_task w (x # xs) =
     (case writer_write w x of
        (w', Inr bs) \<Rightarrow> bs @ udp_sink_task w' xs
      | (w', Inl e) \<Rightarrow> [])"

lemma in_context_length: "in_context c (read_exact n i) = Inr (a, b) \<Longrightarrow> length i = n + length b"
  by (auto simp: res_simps)

lemma read_vec_length: "read_vec i n = Inr (a, b) \<Longrightarrow> length i = n + length b"
  unfolding read_vec_def by (rule in_context_length)

lemma reader_read_consumes:
  assumes "reader_read r input = Inr (x, r', rest)"
  shows "length rest < length input"
proof -
  obtain hdrs i1 t where h: "in_context ''Read headers'' (read_exact 3 input) = Inr (hdrs, i1)"
      "packet_type_from_u8 (hd hdrs) = Some t"
    using assms by (auto simp: reader_read_def and_then_Inr_conv ok_or_Inr_conv)
  then have "length rest \<le> length i1"
    using assms
    by (cases t) (auto simp: reader_read_def and_then_Inr_conv Let_def dest!: read_vec_length in_context_length)
  then show ?thesis using in_context_length[OF h(1)] by simp
qed

function udp_stream_task :: "packet_reader \<Rightarrow> bytes \<Rightarrow> (bytes \<times> address) res list" where
  "udp_stream_task r input =
     (case reader_read r input of
        Inl e \<Rightarrow> [Inl e]
      | Inr (x, r', rest) \<Rightarrow> Inr x # udp_stream_task r' rest)"
  by pat_completeness auto
termination
  by (relation "measure (\<lambda>(r, i). length i)") (auto dest: reader_read_consumes)

declare udp_stream_task.simps [simp del]

definition create_udp_sink :: "(bytes \<times> address) list \<Rightarrow> bytes" where
  "create_udp_sink items = udp_sink_task writer_new items"

definition create_udp_stream :: "bytes \<Rightarrow> address option \<Rightarrow> (bytes \<times> address) res list" where
  "create_udp_stream input initial_address =
     udp_stream_task
       (case initial_address of Some a \<Rightarrow> reader_new_with_initial_addr a | None \<Rightarrow> reader_new) input"

section \<open>Stateful codecs\<close>

text \<open>
  A writer and a reader that keep state in step: when their states are related, the reader
  reads back what the writer wrote, takes exactly these bytes, and the states are related
  again.
\<close>

locale stateful_codec =
  fixes wr :: "'w \<Rightarrow> 'a \<Rightarrow> 'w \<times> bytes res"
    and rd :: "'r \<Rightarrow> bytes \<Rightarrow> ('a \<times> 'r \<times> bytes) res"
    and rel :: "'w \<Rightarrow> 'r \<Rightarrow> bool"
    and wf :: "'a \<Rightarrow> bool"
  assumes wr_ok: "wf x \<Longrightarrow> \<exists>bs. snd (wr w x) = Inr bs"
    and rd_wr: "rel w r \<Longrightarrow> wf x \<Longrightarrow> wr w x = (w', Inr bs) \<Longrightarrow>
      \<exists>r'. rel w' r' \<and> (\<forall>rest. rd r (bs @ rest) = Inr (x, r', rest))"
begin

fun wr_all :: "'w \<Rightarrow> 'a list \<Rightarrow> bytes" where
  "wr_all w [] = []"
| "wr_all w (x # xs) = (case wr w x of (w', Inr bs) \<Rightarrow> bs @ wr_all w' xs | (w', Inl e) \<Rightarrow> [])"

inductive rd_all :: "'r \<Rightarrow> bytes \<Rightarrow> 'a list \<Rightarrow> 'r \<Rightarrow> bytes \<Rightarrow> bool" where
  rd_none: "rd_all r i [] r i"
| rd_one: "rd r i = Inr (x, r', i') \<Longrightarrow> rd_all r' i' xs r'' i'' \<Longrightarrow> rd_all r i (x # xs) r'' i''"

lemma rd_wr_all:
  "rel w r \<Longrightarrow> list_all wf xs \<Longrightarrow> \<exists>r'. rd_all r (wr_all w xs @ rest) xs r' rest"
proof (induction xs arbitrary: w r)
  case Nil
  then show ?case using rd_none by auto
next
  case (Cons x xs)
  obtain w' bs where w: "wr w x = (w', Inr bs)"
    using wr_ok[of x w] Cons.prems(2) by (cases "wr w x") auto
  then obtain r1 where r1: "rel w' r1" "\<And>rest. rd r (bs @ rest) = Inr (x, r1, rest)"
    using rd_wr[OF Cons.prems(1) _ w] Cons.prems(2) by auto
  then obtain r' where "rd_all r1 (wr_all w' xs @ rest) xs r' rest"
    using Cons.IH[OF r1(1)] Cons.prems(2) by auto
  then have "rd_all r (bs @ wr_all w' xs @ rest) (x # xs) r' rest" by (rule rd_one[OF r1(2)])
  then show ?case using w by auto
qed

end

section \<open>The packet codec\<close>

text \<open>
  Packets the format carries: a payload below 64 KiB and an address the wire can hold. The
  states agree when the reader knows the address the writer will leave out.
\<close>

fun packet_addr_ok :: "address \<Rightarrow> bool" where
  "packet_addr_ok (IP (SockV4 a p)) = True"
| "packet_addr_ok (IP (SockV6 a p f s)) = (f = 0 \<and> s = 0)"
| "packet_addr_ok (Name h p) = (length h < 65536 \<and> utf8_valid h)"

definition packet_ok :: "bytes \<times> address \<Rightarrow> bool" where
  "packet_ok x \<longleftrightarrow> length (fst x) < 65536 \<and> packet_addr_ok (snd x)"

definition packet_sync :: "packet_writer \<Rightarrow> packet_reader \<Rightarrow> bool" where
  "packet_sync w r \<longleftrightarrow> last_sent w = None \<or> last_sent w = last_received r"

lemma packet_type_roundtrip [simp]: "packet_type_from_u8 (packet_type_u8 t) = Some t"
  by (cases t) (simp_all add: packet_type_from_u8_def)

lemma unat_of_nat_u16 [simp]: "n < 65536 \<Longrightarrow> unat (of_nat n :: u16) = n"
  by (simp add: unat_of_nat)

lemma u16_len_ok [simp]: "length bs < 65536 \<Longrightarrow> u16_len ctx bs = Inr (of_nat (length bs))"
  by (simp add: u16_len_def)

lemma packet_header_ok: "packet_addr_ok a \<Longrightarrow> \<exists>h. packet_header (Some a) l = Inr h"
  by (cases a rule: packet_addr_ok.cases) auto

lemma read_exact_hdr: "read_exact 3 (t # be16 l @ rest) = Inr (t # be16 l, rest)"
  using read_exact_append[of "t # be16 l" 3 rest] by simp

lemma read_vec_append: "length xs = n \<Longrightarrow> read_vec (xs @ ys) n = Inr (xs, ys)"
  by (simp add: read_vec_def)

lemma packet_read_omitted:
  assumes "length p < 65536" and "last_received r = Some a" and "packet_header None (of_nat (length p)) = Inr h"
  shows "reader_read r (h @ p @ rest) = Inr ((p, a), r, rest)"
  using assms by (auto simp: reader_read_def read_exact_hdr read_vec_append packet_type_from_u8_def)

lemma packet_read_with_addr:
  assumes "length p < 65536" and "packet_addr_ok a" and "packet_header (Some a) (of_nat (length p)) = Inr h"
  shows "reader_read r (h @ p @ rest) = Inr ((p, a), r\<lparr>last_received := Some a\<rparr>, rest)"
proof (cases a rule: packet_addr_ok.cases)
  case (1 i q)
  have "read_vec ((be32 i @ be16 q @ p) @ rest) (length p + 6) = Inr (be32 i @ be16 q @ p, rest)"
    by (rule read_vec_append) simp
  then show ?thesis
    using assms 1 by (auto simp: reader_read_def read_exact_hdr packet_type_from_u8_def Let_def)
next
  case (2 i q f s)
  have "read_vec ((be128 i @ be16 q @ p) @ rest) (length p + 18) = Inr (be128 i @ be16 q @ p, rest)"
    by (rule read_vec_append) simp
  then show ?thesis
    using assms 2 by (auto simp: reader_read_def read_exact_hdr packet_type_from_u8_def Let_def)
next
  case (3 n q)
  have "read_vec ((n @ be16 q @ p) @ rest) (length n + 2 + length p) = Inr (n @ be16 q @ p, rest)"
    by (rule read_vec_append) simp
  then show ?thesis
    using assms 3
    by (auto simp: reader_read_def read_exact_hdr packet_type_from_u8_def Let_def from_utf8_def)
qed

lemma writer_write_ok: "packet_ok x \<Longrightarrow> \<exists>bs. snd (writer_write w x) = Inr bs"
  using packet_header_ok[of "snd x" "of_nat (length (fst x))"]
  by (auto simp: packet_ok_def writer_write_def split_beta Let_def)

lemma packet_rd_wr:
  assumes "packet_sync w r" and "packet_ok x" and "writer_write w x = (w', Inr bs)"
  shows "\<exists>r'. packet_sync w' r' \<and> (\<forall>rest. reader_read r (bs @ rest) = Inr (x, r', rest))"
proof -
  obtain p a where x: "x = (p, a)" by force
  have ok: "length p < 65536" "packet_addr_ok a" using assms(2) x by (auto simp: packet_ok_def)
  show ?thesis
  proof (cases "last_sent w = Some a")
    case True
    then have r: "last_received r = Some a" using assms(1) by (auto simp: packet_sync_def)
    obtain h where h: "packet_header None (of_nat (length p)) = Inr h" "bs = h @ p" "w' = w"
      using assms(3) True x ok by (auto simp: writer_write_def)
    then show ?thesis
      using packet_read_omitted[OF ok(1) r h(1)] assms(1) x by (intro exI[of _ r]) simp
  next
    case False
    obtain h where h: "packet_header (Some a) (of_nat (length p)) = Inr h" "bs = h @ p"
        "w' = w\<lparr>last_sent := Some a\<rparr>"
      using assms(3) False x ok by (auto simp: writer_write_def and_then_Inr_conv)
    then show ?thesis
      using packet_read_with_addr[OF ok h(1), of r] x
      by (intro exI[of _ "r\<lparr>last_received := Some a\<rparr>"]) (simp add: packet_sync_def)
  qed
qed

interpretation packets: stateful_codec writer_write reader_read packet_sync packet_ok
  using writer_write_ok packet_rd_wr by unfold_locales

lemma udp_sink_task_eq: "udp_sink_task w xs = packets.wr_all w xs"
  by (induction xs arbitrary: w) (auto split: prod.split sum.split)

lemma udp_stream_task_rd_all:
  "packets.rd_all r i xs r' i' \<Longrightarrow> udp_stream_task r i = map Inr xs @ udp_stream_task r' i'"
  by (induction rule: packets.rd_all.induct) (simp_all add: udp_stream_task.simps[where input = "_ :: bytes"])

lemma udp_stream_task_end: "udp_stream_task r [] = [Inl (Err ''Read headers'')]"
  by (simp add: udp_stream_task.simps reader_read_def)

lemma request_bytes:
  assumes "wire_addr_strict dst" and "q = ReqTCP dst d \<or> q = ReqUDP dst d"
  shows "\<exists>bs. request_to_vec q = Inr bs \<and> request_parse bs = Inr q"
proof -
  obtain bs where bs: "address_write dst = Inr bs" using addr.encode_total[OF assms(1)] by blast
  have "address_parse (bs @ d) = Inr (Some (length bs, dst))" using addr.parse_encode_rest[OF assms(1) bs] .
  then show ?thesis using assms(2) bs by (auto simp: request_to_vec_def request_parse_def address_write_to_eq)
qed

text \<open>
  Datagrams survive the TCP tunnel: a sequence of packets that fit the format, written by the
  sink with repeated addresses left out, comes out of the stream packet by packet, in order,
  each with its payload and its address, whatever address the reader started with; then the
  end of the connection is reported.
\<close>

lemma packet_stream_exact:
  assumes "list_all packet_ok items"
  shows "create_udp_stream (create_udp_sink items) initial = map Inr items @ [Inl (Err ''Read headers'')]"
proof -
  let ?r = "case initial of Some a \<Rightarrow> reader_new_with_initial_addr a | None \<Rightarrow> reader_new"
  have "packet_sync writer_new ?r" by (simp add: packet_sync_def writer_new_def)
  then obtain r' where "packets.rd_all ?r (packets.wr_all writer_new items @ []) items r' []"
    using packets.rd_wr_all assms by blast
  then show ?thesis
    using udp_stream_task_rd_all
    by (simp add: create_udp_stream_def create_udp_sink_def udp_sink_task_eq udp_stream_task_end)
qed

section \<open>Properties\<close>

text \<open>
  The opening request of a tunnel round-trips for every destination the SOCKS5 format carries,
  and \<open>to_vec\<close> panics on every host name longer than 255 bytes.
\<close>

theorem tcpman_request_roundtrip:
  "(wire_addr_strict dst \<longrightarrow>
      (\<exists>bs. request_to_vec (ReqTCP dst d) = Inr bs \<and> request_parse bs = Inr (ReqTCP dst d)) \<and>
      (\<exists>bs. request_to_vec (ReqUDP dst d) = Inr bs \<and> request_parse bs = Inr (ReqUDP dst d))) \<and>
   (255 < length h \<longrightarrow> (\<exists>e. request_to_vec (ReqTCP (Name h p) d) = Inl (Panic e)))"
proof (intro conjI impI)
  assume "wire_addr_strict dst"
  then show "\<exists>bs. request_to_vec (ReqTCP dst d) = Inr bs \<and> request_parse bs = Inr (ReqTCP dst d)"
    and "\<exists>bs. request_to_vec (ReqUDP dst d) = Inr bs \<and> request_parse bs = Inr (ReqUDP dst d)"
    using request_bytes by blast+
next
  assume "255 < length h"
  then show "\<exists>e. request_to_vec (ReqTCP (Name h p) d) = Inl (Panic e)"
    by (simp add: request_to_vec_def)
qed

theorem tcpman_request_roundtrip_witness:
  "(\<exists>bs. request_to_vec (ReqTCP (IP (SockV4 1 2)) [9]) = Inr bs \<and> request_parse bs = Inr (ReqTCP (IP (SockV4 1 2)) [9])) \<and>
   (\<exists>e. request_to_vec (ReqTCP (Name (replicate 300 97) 2) [9]) = Inl (Panic e))"
  using tcpman_request_roundtrip[of "IP (SockV4 1 2)" "[9]" "replicate 300 97" 2] by simp

end
