(* ===== verification/Buffers.thy ===== *)
theory Buffers
  imports Packet_Stream Udp_Io
begin

text \<open>
  Buffers of uninitialised memory (\<open>new_vec_uninitialised\<close>, \<open>new_vec_for_udp\<close> and \<open>VecExt\<close> of src/utils.rs) and their two
  uses: a buffer that is cut to what was received (src/io/udp.rs, src/client/tcp.rs and the other receivers), and a
  buffer that is filled completely (\<open>read_vec\<close> of src/protocol/tcpman/udp_stream.rs). A byte of memory is \<open>None\<close> while it is
  uninitialised; looking at such a byte is undefined behaviour. \<open>alloc\<close> gives the capacity of a vector that was asked for \<open>n\<close>
  bytes; the standard library promises at least \<open>n\<close>.
\<close>

section \<open>Vectors\<close>

record vec =
  vec_mem :: "u8 option list"
  vec_len :: nat

definition capacity :: "vec \<Rightarrow> nat" where
  "capacity v = length (vec_mem v)"

definition new_vec_uninitialised :: "(nat \<Rightarrow> nat) \<Rightarrow> nat \<Rightarrow> vec" where
  "new_vec_uninitialised alloc len = (let v = \<lparr>vec_mem = replicate (alloc len) None, vec_len = 0\<rparr> in v\<lparr>vec_len := capacity v\<rparr>)"

definition new_vec_for_udp :: "(nat \<Rightarrow> nat) \<Rightarrow> vec" where
  "new_vec_for_udp alloc = new_vec_uninitialised alloc 65536"

definition set_len_uninit :: "nat \<Rightarrow> vec \<Rightarrow> vec res" where
  "set_len_uninit len v =
     (if capacity v < len then Inl (Panic ''Desired length is greater than capacity'') else Inr (v\<lparr>vec_len := len\<rparr>))"

definition set_len_to_capacity :: "vec \<Rightarrow> vec res" where
  "set_len_to_capacity v = set_len_uninit (capacity v) v"

text \<open>The content of a vector, and none if it has an uninitialised byte; a reader that puts bytes at its front.\<close>

definition vec_bytes :: "vec \<Rightarrow> bytes option" where
  "vec_bytes v = those (take (vec_len v) (vec_mem v))"

definition fill :: "bytes \<Rightarrow> vec \<Rightarrow> vec" where
  "fill d v = v\<lparr>vec_mem := map Some d @ drop (length d) (vec_mem v)\<rparr>"

section \<open>Uses\<close>

text \<open>
  A receiver: the call puts at most the buffer's length of the data that arrived into it, and the buffer is cut to what it
  reports.
\<close>

definition receive :: "vec \<Rightarrow> bytes res \<Rightarrow> vec res" where
  "receive buf arrived =
     and_then arrived (\<lambda>data. let got = take (vec_len buf) data in set_len_uninit (length got) (fill got buf))"

text \<open>\<open>read_vec\<close> with the allocator written out.\<close>

definition read_vec_alloc :: "(nat \<Rightarrow> nat) \<Rightarrow> bytes \<Rightarrow> nat \<Rightarrow> (vec \<times> bytes) res" where
  "read_vec_alloc alloc input len =
     (let payload = new_vec_uninitialised alloc len
      in and_then (in_context ''Reading payload'' (read_exact (vec_len payload) input)) (\<lambda>(data, rest). Inr (fill data payload, rest)))"

section \<open>Lemmas\<close>

lemma those_map_Some [simp]: "those (map Some xs) = Some xs"
  by (induction xs) simp_all

lemma new_vec_simps [simp]:
  "vec_len (new_vec_uninitialised alloc n) = alloc n" "length (vec_mem (new_vec_uninitialised alloc n)) = alloc n"
  by (simp_all add: new_vec_uninitialised_def capacity_def Let_def)

lemma receive_exact:
  assumes "vec_len buf \<le> capacity buf"
  shows "\<exists>v. receive buf (Inr data) = Inr v \<and> vec_bytes v = Some (take (vec_len buf) data) \<and> vec_len v \<le> capacity v"
  using assms by (auto simp: receive_def set_len_uninit_def fill_def capacity_def vec_bytes_def Let_def min_def)

section \<open>Properties\<close>

text \<open>
  C33: Receiving never looks at uninitialised memory and never panics: whatever the allocator, as long as it gives at least what
  was asked for, a buffer for \<open>n\<close> bytes cut to what the call reports holds exactly the data that arrived (its front, when
  it is longer than the buffer), and all of a datagram of at most \<open>n\<close> bytes.
\<close>

theorem receive_initialised:
  assumes "n \<le> alloc n"
  shows "\<exists>v. receive (new_vec_uninitialised alloc n) (Inr data) = Inr v \<and> vec_bytes v = Some (take (alloc n) data) \<and>
     (length data \<le> n \<longrightarrow> vec_bytes v = Some data)"
  using receive_exact[of "new_vec_uninitialised alloc n" data] assms by (auto simp: capacity_def)

theorem receive_initialised_witness:
  "\<exists>v. receive (new_vec_uninitialised (\<lambda>n. n + 8) 4) (Inr [1, 2, 3]) = Inr v \<and> vec_bytes v = Some [1, 2, 3]"
  using receive_initialised[of 4 "\<lambda>n. n + 8" "[1, 2, 3]"] by auto

text \<open>A fresh buffer that is looked at as it is exposes uninitialised memory, whatever its size.\<close>

lemma those_None: "None \<in> set xs \<Longrightarrow> those xs = None"
  by (induction xs) (auto split: option.split)

theorem fresh_buffer_unreadable: "0 < alloc n \<Longrightarrow> vec_bytes (new_vec_uninitialised alloc n) = None"
  by (simp add: vec_bytes_def new_vec_uninitialised_def capacity_def Let_def those_None)

text \<open>
  Filling a buffer completely is right only when the allocator gives exactly what was asked for: then it reads what
  \<open>read_vec\<close> of the packet reader reads; an allocator that rounds up, which the standard library allows,
  makes it take bytes of the next packet.
\<close>

theorem read_vec_needs_exact_capacity:
  "(alloc n = n \<longrightarrow>
      (case read_vec_alloc alloc input n of
         Inl e \<Rightarrow> read_vec input n = Inl e
       | Inr (v, rest) \<Rightarrow> \<exists>data. read_vec input n = Inr (data, rest) \<and> vec_bytes v = Some data)) \<and>
   (n < alloc n \<and> alloc n \<le> length input \<longrightarrow>
      (\<exists>v. read_vec_alloc alloc input n = Inr (v, drop (alloc n) input) \<and> vec_bytes v = Some (take (alloc n) input)))"
  by (auto simp: read_vec_alloc_def read_vec_def read_exact_def in_context_def fill_def vec_bytes_def Let_def split: sum.splits if_splits)

end
