(* ===== verification/Sniff.thy ===== *)
theory Sniff
  imports Rust_Net "HOL-Library.Monad_Syntax"
begin

text \<open>
  Names from traffic: the host of an HTTP request or of a TLS hello (src/sni.rs), and the cache
  of names seen in DNS answers (src/dns.rs). The TLS and DNS parsers are parameters.
\<close>

section \<open>The Host header\<close>

datatype host_state = Idle | Matches nat | FirstNewLine

definition eq_letter :: "u8 \<Rightarrow> u8 \<Rightarrow> bool" where
  "eq_letter a b = eq_ignore_ascii_case [a] [b]"

text \<open>
  One step of the scan over byte \<open>c\<close> at index \<open>i\<close>: \<open>None\<close> ends it, otherwise the new state and the
  start of the value when it is found.
\<close>

definition host_scan_step :: "host_state \<Rightarrow> nat \<Rightarrow> u8 \<Rightarrow> (host_state \<times> nat option) option" where
  "host_scan_step acc i c =
     (if (acc = FirstNewLine \<or> acc = Idle) \<and> eq_letter c 72 then Some (Matches 1, None)
      else if acc = Matches 1 \<and> eq_letter c 111 then Some (Matches 2, None)
      else if acc = Matches 2 \<and> eq_letter c 115 then Some (Matches 3, None)
      else if acc = Matches 3 \<and> eq_letter c 116 then Some (Matches 4, None)
      else if acc = Matches 4 \<and> c = 58 then Some (acc, Some (i + 1))
      else if acc = FirstNewLine \<and> c = 10 then None
      else if c = 10 then Some (FirstNewLine, None)
      else Some (Idle, None))"

fun host_scan :: "host_state \<Rightarrow> nat \<Rightarrow> bytes \<Rightarrow> nat option" where
  "host_scan acc i [] = None"
| "host_scan acc i (c # cs) =
     (case host_scan_step acc i c of
        None \<Rightarrow> None
      | Some (acc', Some v) \<Rightarrow> Some v
      | Some (acc', None) \<Rightarrow> host_scan acc' (Suc i) cs)"

definition extract_http_host_header :: "bytes \<Rightarrow> rstr option" where
  "extract_http_host_header data = do {
     value_start_index \<leftarrow> host_scan Idle 0 data;
     value_length \<leftarrow> find_byte 10 (drop value_start_index data);
     s \<leftarrow> from_utf8 (take value_length (drop value_start_index data));
     Some (trim s)
   }"

section \<open>The TLS server name\<close>

text \<open>
  What the program looks at of the results of \<open>tls_parser\<close>: the messages of a record, the
  extensions of a client hello, and the entries of a server name extension.
\<close>

datatype tls_message = ClientHello "bytes option" | OtherMessage

datatype tls_extension = ExtSNI "(bool \<times> bytes) list" | OtherExtension

text \<open>\<open>True\<close> in an entry of \<open>ExtSNI\<close> is the type \<open>HostName\<close>.\<close>

record tls_parsers =
  tls_plaintext :: "bytes \<Rightarrow> (bytes \<times> tls_message list) option"
  tls_ext :: "bytes \<Rightarrow> (bytes \<times> tls_extension) option"

fun first_hello :: "tls_message list \<Rightarrow> bytes option option" where
  "first_hello [] = None"
| "first_hello (ClientHello e # ms) = Some e"
| "first_hello (OtherMessage # ms) = first_hello ms"

text \<open>
  The inner loop: \<open>Inl r\<close> is the return of the function with \<open>r\<close>, \<open>Inr\<close> the end of the extensions.
  Both loops run until their parser fails or the input is used up; \<open>None\<close> stands for a loop
  that never ends, which a parser that takes nothing could cause.
\<close>

partial_function (option) sni_ext_loop :: "tls_parsers \<Rightarrow> bytes \<Rightarrow> (rstr option + unit) option" where
  "sni_ext_loop P ext =
     (if ext = [] then Some (Inr ())
      else case tls_ext P ext of
        None \<Rightarrow> Some (Inl None)
      | Some (r, ExtSNI sni) \<Rightarrow>
          if sni \<noteq> [] \<and> fst (hd sni) then Some (Inl (from_utf8 (snd (hd sni))))
          else sni_ext_loop P r
      | Some (r, OtherExtension) \<Rightarrow> sni_ext_loop P r)"

partial_function (option) sni_loop :: "tls_parsers \<Rightarrow> bytes \<Rightarrow> rstr option option" where
  "sni_loop P rem =
     (if rem = [] then Some None
      else case tls_plaintext P rem of
        None \<Rightarrow> Some None
      | Some (r, msgs) \<Rightarrow>
          (case first_hello msgs of
             None \<Rightarrow> sni_loop P r
           | Some e \<Rightarrow>
               (case sni_ext_loop P (case e of None \<Rightarrow> [] | Some x \<Rightarrow> x) of
                  None \<Rightarrow> None
                | Some (Inl v) \<Rightarrow> Some v
                | Some (Inr _) \<Rightarrow> sni_loop P r)))"

definition extract_ssl_sni_host :: "tls_parsers \<Rightarrow> bytes \<Rightarrow> rstr option option" where
  "extract_ssl_sni_host P data = sni_loop P data"

section \<open>DNS\<close>

datatype rdata = DnsA u32 | DnsAAAA u128 | DnsOther

record dns_packet =
  dns_questions :: "(bool \<times> rstr) list"
  dns_answers :: "(rstr \<times> rdata) list"

text \<open>\<open>True\<close> in a question is the class \<open>IN\<close>. \<open>parse\<close> is \<open>dns_parser\<close>'s \<open>Packet::parse\<close>.\<close>

definition dns_get_host_names :: "(bytes \<Rightarrow> dns_packet option) \<Rightarrow> bytes \<Rightarrow> rstr list option" where
  "dns_get_host_names parse pkt =
     map_option (\<lambda>p. map snd (takeWhile fst (dns_questions p))) (parse pkt)"

record dns_entry =
  de_host :: rstr
  de_created :: nat

type_synonym dns_cache = "ip_addr \<rightharpoonup> dns_entry"

definition ENTRY_TIMEOUT :: nat where
  "ENTRY_TIMEOUT = 120"

definition dns_new :: dns_cache where
  "dns_new = Map.empty"

definition dns_clean_up :: "nat \<Rightarrow> dns_cache \<Rightarrow> dns_cache" where
  "dns_clean_up now m =
     (\<lambda>ip. case m ip of
        None \<Rightarrow> None
      | Some e \<Rightarrow> if now - de_created e > ENTRY_TIMEOUT then None else Some e)"

fun dns_cache_answers :: "nat \<Rightarrow> (rstr \<times> rdata) list \<Rightarrow> dns_cache \<Rightarrow> dns_cache" where
  "dns_cache_answers now [] m = m"
| "dns_cache_answers now ((name, DnsA a) # as) m =
     dns_cache_answers now as (m(IpV4 a \<mapsto> \<lparr>de_host = name, de_created = now\<rparr>))"
| "dns_cache_answers now ((name, DnsAAAA a) # as) m =
     dns_cache_answers now as (m(IpV6 a \<mapsto> \<lparr>de_host = name, de_created = now\<rparr>))"
| "dns_cache_answers now ((name, DnsOther) # as) m = m"

definition dns_cache_response :: "(bytes \<Rightarrow> dns_packet option) \<Rightarrow> nat \<Rightarrow> bytes \<Rightarrow> dns_cache \<Rightarrow> dns_cache res" where
  "dns_cache_response parse now response m =
     and_then (ok_or ''Error parsing DNS packet'' (parse response)) (\<lambda>pkt.
       Inr (dns_cache_answers now (dns_answers pkt) m))"

definition dns_get :: "dns_cache \<Rightarrow> ip_addr \<Rightarrow> rstr option" where
  "dns_get m ip = map_option de_host (m ip)"

section \<open>Lemmas\<close>

text \<open>The search for the name ends when both parsers consume something whenever they succeed.\<close>

definition tls_consumes :: "tls_parsers \<Rightarrow> bool" where
  "tls_consumes P \<longleftrightarrow> (\<forall>i r m. tls_plaintext P i = Some (r, m) \<longrightarrow> length r < length i) \<and>
     (\<forall>i r e. tls_ext P i = Some (r, e) \<longrightarrow> length r < length i)"

lemma sni_ext_loop_ends:
  assumes "tls_consumes P"
  shows "\<exists>r. sni_ext_loop P ext = Some r"
proof (induction "length ext" arbitrary: ext rule: less_induct)
  case less
  show ?case
    using assms less
    by (subst sni_ext_loop.simps) (auto simp: tls_consumes_def split: option.split tls_extension.split)
qed

lemma sni_loop_ends:
  assumes "tls_consumes P"
  shows "\<exists>r. sni_loop P rem = Some r"
proof (induction "length rem" arbitrary: rem rule: less_induct)
  case less
  show ?case
  proof (cases "rem = []")
    case True
    then show ?thesis by (simp add: sni_loop.simps)
  next
    case False
    show ?thesis
    proof (cases "tls_plaintext P rem")
      case None
      then show ?thesis using False by (simp add: sni_loop.simps)
    next
      case (Some rm)
      obtain r msgs where rm: "rm = (r, msgs)" by force
      have "\<exists>v. sni_loop P r = Some v" using less assms Some rm by (auto simp: tls_consumes_def)
      moreover obtain q where "sni_ext_loop P (case the (first_hello msgs) of None \<Rightarrow> [] | Some x \<Rightarrow> x) = Some q"
        using sni_ext_loop_ends[OF assms] by blast
      ultimately show ?thesis
        using False Some rm by (cases q) (auto simp: sni_loop.simps[of P rem] split: option.split)
    qed
  qed
qed

lemma dns_cache_answers_app:
  "(\<And>n d. (n, d) \<in> set as \<Longrightarrow> d \<noteq> DnsOther) \<Longrightarrow>
   dns_cache_answers now (as @ bs) m = dns_cache_answers now bs (dns_cache_answers now as m)"
proof (induction now as m rule: dns_cache_answers.induct)
  case (4 now name as m)
  then show ?case by fastforce
qed auto

text \<open>No empty line; the flag tells that the byte before was a line feed.\<close>

fun no_blank_line :: "bool \<Rightarrow> bytes \<Rightarrow> bool" where
  "no_blank_line b [] = True"
| "no_blank_line b (c # cs) = (\<not> (b \<and> c = 10) \<and> no_blank_line (c = 10) cs)"

lemma eq_letter_newline [simp]:
  "\<not> eq_letter 10 72" "\<not> eq_letter 10 111" "\<not> eq_letter 10 115" "\<not> eq_letter 10 116"
  by (simp_all add: eq_letter_def eq_ignore_ascii_case_def to_lower_def)

lemma host_scan_skip:
  assumes "list_all (\<lambda>c. \<not> eq_letter c 72) pre" and "no_blank_line b pre"
  shows "\<exists>st. (st = Idle \<or> st = FirstNewLine) \<and>
     host_scan (if b then FirstNewLine else Idle) i (pre @ rest) = host_scan st (i + length pre) rest"
  using assms
proof (induction pre arbitrary: b i)
  case Nil
  then show ?case by (cases b) auto
next
  case (Cons c cs)
  have "host_scan (if b then FirstNewLine else Idle) i ((c # cs) @ rest) =
      host_scan (if c = 10 then FirstNewLine else Idle) (Suc i) (cs @ rest)"
    using Cons.prems by (cases b) (auto simp: host_scan_step_def)
  then show ?case using Cons.IH[of "c = 10" "Suc i"] Cons.prems by auto
qed

lemma host_scan_name:
  assumes "eq_letter h 72" "eq_letter o' 111" "eq_letter s 115" "eq_letter t 116"
    and "st = Idle \<or> st = FirstNewLine"
  shows "host_scan st i (h # o' # s # t # 58 # rest) = Some (i + 5)"
  using assms(5) by (elim disjE) (simp_all add: host_scan_step_def assms(1-4))

section \<open>Properties\<close>

text \<open>
  The host of an HTTP request is found: when nothing before the header contains the letter h or an
  empty line, the header name may have any case, and the value, up to the end of its line, is
  returned without surrounding white space.
\<close>

theorem http_host_found:
  assumes "list_all (\<lambda>c. \<not> eq_letter c 72) pre" and "no_blank_line False pre"
    and "eq_letter h 72" "eq_letter o' 111" "eq_letter s 115" "eq_letter t 116"
    and "10 \<notin> set v" and "utf8_valid v"
  shows "extract_http_host_header (pre @ [h, o', s, t, 58] @ v @ [10] @ rest) = Some (trim v)"
proof -
  obtain st where st: "st = Idle \<or> st = FirstNewLine"
      "host_scan Idle 0 (pre @ ([h, o', s, t, 58] @ v @ [10] @ rest)) =
       host_scan st (length pre) ([h, o', s, t, 58] @ v @ [10] @ rest)"
    using host_scan_skip[OF assms(1,2), of 0 "[h, o', s, t, 58] @ v @ [10] @ rest"]
    unfolding if_False add_0 by blast
  then have start: "host_scan Idle 0 (pre @ [h, o', s, t, 58] @ v @ [10] @ rest) = Some (length pre + 5)"
    using host_scan_name[OF assms(3-6) st(1)] by simp
  have rest: "drop (length pre + 5) (pre @ [h, o', s, t, 58] @ v @ [10] @ rest) = v @ 10 # rest"
    by simp
  have "find_byte 10 (v @ 10 # rest) = Some (length v)" using assms(7) by (rule find_byte_at)
  then show ?thesis
    unfolding extract_http_host_header_def start using rest assms(8) by (simp add: from_utf8_def)
qed

theorem http_host_found_witness:
  "extract_http_host_header (lit ''GET / '' @ [13, 10] @ lit ''hOST: a.b'' @ [13] @ [10] @ [13, 10]) = Some (lit ''a.b'')"
proof -
  have 1: "list_all (\<lambda>c. \<not> eq_letter c 72) (lit ''GET / '' @ [13, 10])" by code_simp
  have 2: "no_blank_line False (lit ''GET / '' @ [13, 10])" by code_simp
  have 3: "eq_letter 104 72" "eq_letter 79 111" "eq_letter 83 115" "eq_letter 84 116" by code_simp+
  have 4: "10 \<notin> set (lit '' a.b'' @ [13])" "utf8_valid (lit '' a.b'' @ [13])" by code_simp+
  have 5: "trim (lit '' a.b'' @ [13]) = lit ''a.b''" by code_simp
  have "lit ''GET / '' @ [13, 10] @ lit ''hOST: a.b'' @ [13] @ [10] @ [13, 10] =
      (lit ''GET / '' @ [13, 10]) @ [104, 79, 83, 84, 58] @ (lit '' a.b'' @ [13]) @ [10] @ [13, 10]"
    by (simp add: lit_def)
  then show ?thesis using http_host_found[OF 1 2 3 4, of "[13, 10]"] 5 by simp
qed

text \<open>
  The scan takes the first text \<open>host:\<close> that starts at any place outside a partial match for the
  header: a header whose name ends in \<open>Host\<close> wins over the real one, and a line \<open>Host:\<close> in the body is
  taken when the head has none, because the empty line of a real request, with carriage
  returns, does not end the scan.
\<close>

theorem http_host_confused:
  "extract_http_host_header (lit ''GET / HTTP/1.1'' @ [13, 10] @ lit ''X-Forwarded-Host: evil'' @ [13, 10] @
     lit ''Host: good'' @ [13, 10, 13, 10]) = Some (lit ''evil'') \<and>
   extract_http_host_header (lit ''POST /'' @ [13, 10, 13, 10] @ lit ''Host: body'' @ [13, 10]) = Some (lit ''body'')"
  by code_simp

text \<open>
  C30: The search for a TLS server name always ends: for parsers that use up input whenever they
  succeed, the two nested loops return on every input.
\<close>

theorem sni_search_ends:
  assumes "tls_consumes P"
  shows "\<exists>r. extract_ssl_sni_host P data = Some r"
  using sni_loop_ends[OF assms] by (simp add: extract_ssl_sni_host_def)

definition demo_tls :: tls_parsers where
  "demo_tls = \<lparr>tls_plaintext = (\<lambda>i. if i = [] then None else Some ([], [OtherMessage, ClientHello (Some i)])),
     tls_ext = (\<lambda>i. if i = [] then None else Some ([], ExtSNI [(True, i)]))\<rparr>"

theorem sni_search_ends_witness:
  "\<exists>r. extract_ssl_sni_host demo_tls [97, 98] = Some r"
  by (rule sni_search_ends) (auto simp: tls_consumes_def demo_tls_def split: if_splits)

text \<open>
  DNS answers are cached up to the first answer that is no address: names of addresses before it
  can be looked up, while everything after it (such as the addresses behind an alias) is
  ignored; an entry is dropped by the clean-up exactly when it is older than 120 seconds.
\<close>

theorem dns_cache_behaviour:
  assumes "parse response = Some pkt"
    and "dns_answers pkt = before @ (alias, DnsOther) # after" and "\<forall>(n, d) \<in> set before. d \<noteq> DnsOther"
  shows "dns_cache_response parse now response m = Inr (dns_cache_answers now before m) \<and>
    dns_get (dns_clean_up later c) ip =
      (case c ip of Some e \<Rightarrow> if later - de_created e > 120 then None else Some (de_host e) | None \<Rightarrow> None)"
proof -
  have "dns_cache_answers now (before @ (alias, DnsOther) # after) m = dns_cache_answers now before m"
    using assms(3) by (subst dns_cache_answers_app) auto
  then show ?thesis
    using assms(1,2)
    by (simp add: dns_cache_response_def dns_get_def dns_clean_up_def ENTRY_TIMEOUT_def split: option.split)
qed

theorem dns_cache_behaviour_witness:
  "dns_cache_response (\<lambda>_. Some \<lparr>dns_questions = [], dns_answers = [(lit ''a'', DnsA 1), (lit ''b'', DnsOther), (lit ''c'', DnsA 2)]\<rparr>) 5 [] dns_new =
     Inr (dns_cache_answers 5 [(lit ''a'', DnsA 1)] dns_new)"
  using dns_cache_behaviour[of "\<lambda>_. Some \<lparr>dns_questions = [], dns_answers = [(lit ''a'', DnsA 1), (lit ''b'', DnsOther), (lit ''c'', DnsA 2)]\<rparr>"
      "[]" _ "[(lit ''a'', DnsA 1)]" "lit ''b''" "[(lit ''c'', DnsA 2)]" 5 dns_new 0 dns_new "IpV4 0"]
  by simp

end
