(* ===== verification/Timeouts.thy ===== *)
theory Timeouts
  imports Sniff Udp_Io
begin

text \<open>
  What depends on time: the task that removes old entries from the DNS cache (\<open>DnsCache::new\<close> of src/dns.rs), and
  waiting for the restartable timer of the UDP sessions (src/io/timer.rs, awaited in src/protocol/udpman/server.rs,
  src/client/udp.rs and src/client/transparent/udp_proxy.rs). Time is a natural number of seconds.
\<close>

section \<open>The clean-up task of the DNS cache\<close>

text \<open>\<open>dk_due\<close> is the time the task's timer fires next.\<close>

record dns_task =
  dk_cache :: dns_cache
  dk_due :: nat

definition CLEAN_UP_INTERVAL :: nat where
  "CLEAN_UP_INTERVAL = 60"

definition dns_task_new :: "nat \<Rightarrow> dns_task" where
  "dns_task_new now = \<lparr>dk_cache = dns_new, dk_due = now + CLEAN_UP_INTERVAL\<rparr>"

text \<open>
  A response to cache (the callers log the error of one that does not parse), and a turn of the task, which
  comes when its timer has fired. The global cache is never dropped, so the task does not end.
\<close>

datatype dns_event = DnsResponse nat bytes | DnsTick nat

fun dns_time :: "dns_event \<Rightarrow> nat" where
  "dns_time (DnsResponse now r) = now"
| "dns_time (DnsTick now) = now"

fun dns_task_step :: "(bytes \<Rightarrow> dns_packet option) \<Rightarrow> dns_event \<Rightarrow> dns_task \<Rightarrow> dns_task" where
  "dns_task_step parse (DnsResponse now response) s =
     (case dns_cache_response parse now response (dk_cache s) of Inr m \<Rightarrow> s\<lparr>dk_cache := m\<rparr> | Inl _ \<Rightarrow> s)"
| "dns_task_step parse (DnsTick now) s =
     (if dk_due s \<le> now then s\<lparr>dk_cache := dns_clean_up now (dk_cache s), dk_due := now + CLEAN_UP_INTERVAL\<rparr> else s)"

text \<open>
  A run on a clock that does not go back, in which the task's turn is at most \<open>delay\<close> late.
\<close>

fun dns_punctual :: "(bytes \<Rightarrow> dns_packet option) \<Rightarrow> nat \<Rightarrow> nat \<Rightarrow> dns_event list \<Rightarrow> dns_task \<Rightarrow> bool" where
  "dns_punctual parse delay clock [] s = True"
| "dns_punctual parse delay clock (e # es) s =
     (clock \<le> dns_time e \<and> dns_time e \<le> dk_due s + delay \<and> dns_punctual parse delay (dns_time e) es (dns_task_step parse e s))"

section \<open>Waiting for a timer\<close>

text \<open>
  The task that awaits a timer is polled when something it awaits has woken it; an inner timer wakes the task
  that polled it last. \<open>reset\<close> replaces the inner timer by a new one, which nobody has polled: the old one is
  dropped with the waker (the \<open>async-io\<close> library documents this difference to its own way of setting a timer again).
\<close>

record timed_wait =
  tw_timer :: timer
  tw_registered :: bool
  tw_done :: bool

definition wait_new :: "nat \<Rightarrow> nat \<Rightarrow> timed_wait" where
  "wait_new now d = \<lparr>tw_timer = timer_new now d, tw_registered = False, tw_done = False\<rparr>"

definition wait_poll :: "nat \<Rightarrow> timed_wait \<Rightarrow> timed_wait" where
  "wait_poll now w =
     (case timer_poll now (tw_timer w) of
        Ready _ \<Rightarrow> w\<lparr>tw_done := True\<rparr>
      | Pending \<Rightarrow> w\<lparr>tw_registered := True\<rparr>)"

definition wait_reset :: "nat \<Rightarrow> timed_wait \<Rightarrow> timed_wait" where
  "wait_reset now w = w\<lparr>tw_timer := timer_reset now (tw_timer w), tw_registered := False\<rparr>"

text \<open>
  The events: traffic resets the timer from one of the two tasks that carry it; the reactor finds that time has passed, and
  wakes the task of an expired timer; the waiting task is polled for another reason.
\<close>

datatype wait_event = Traffic nat | Elapsed nat | Polled nat

fun wait_step :: "wait_event \<Rightarrow> timed_wait \<Rightarrow> timed_wait" where
  "wait_step (Traffic now) w = (if tw_done w then w else wait_reset now w)"
| "wait_step (Elapsed now) w =
     (if \<not> tw_done w \<and> tw_registered w \<and> t_deadline (tw_timer w) \<le> now then wait_poll now w else w)"
| "wait_step (Polled now) w = (if tw_done w then w else wait_poll now w)"

definition wait_run :: "wait_event list \<Rightarrow> timed_wait \<Rightarrow> timed_wait" where
  "wait_run = fold wait_step"

section \<open>Lemmas\<close>

text \<open>The next turn of the task comes at most a timeout and an interval after an entry was made.\<close>

definition dns_task_ok :: "nat \<Rightarrow> dns_task \<Rightarrow> bool" where
  "dns_task_ok clock s \<longleftrightarrow> dk_due s \<le> clock + CLEAN_UP_INTERVAL \<and>
     (\<forall>ip e. dk_cache s ip = Some e \<longrightarrow> dk_due s \<le> de_created e + ENTRY_TIMEOUT + CLEAN_UP_INTERVAL)"

lemma dns_cache_answers_created:
  "dns_cache_answers now as m ip = Some e \<Longrightarrow> m ip = Some e \<or> de_created e = now"
  by (induction now as m rule: dns_cache_answers.induct) (auto split: if_splits)

lemma dns_task_step_ok:
  assumes "dns_task_ok clock s" and "clock \<le> dns_time ev"
  shows "dns_task_ok (dns_time ev) (dns_task_step parse ev s)"
proof (cases ev)
  case (DnsResponse now response)
  then show ?thesis
    using assms by (auto simp: dns_task_ok_def dns_cache_response_def and_then_Inr_conv
        split: sum.splits dest!: dns_cache_answers_created)
next
  case (DnsTick now)
  then show ?thesis
    using assms by (auto simp: dns_task_ok_def dns_clean_up_def split: option.splits if_splits)
qed

lemma dns_run_ok:
  assumes "dns_task_ok clock s" and "dns_punctual parse delay clock es s"
  shows "\<exists>clock'. dns_task_ok clock' (fold (dns_task_step parse) es s) \<and> clock' = last (clock # map dns_time es)"
  using assms
proof (induction es arbitrary: clock s)
  case (Cons e es)
  then show ?case using dns_task_step_ok[of clock s e parse] by auto
qed auto

section \<open>Properties\<close>

text \<open>
  C32: A name in the DNS cache is never older than its timeout and one interval of the clean-up: at any time \<open>now\<close> of any run
  of responses and turns of the task, the name found for an address comes from a response that arrived at
  most 180 seconds ago, and as many more as the task's turn is late.
\<close>

theorem cached_name_age:
  assumes "dns_punctual parse delay start (es @ [DnsTick now]) (dns_task_new start)"
    and "dns_get (dk_cache (fold (dns_task_step parse) es (dns_task_new start))) ip = Some host"
  shows "\<exists>e. dk_cache (fold (dns_task_step parse) es (dns_task_new start)) ip = Some e \<and> de_host e = host \<and>
     now \<le> de_created e + 180 + delay"
proof -
  let ?s = "fold (dns_task_step parse) es (dns_task_new start)"
  obtain e where e: "dk_cache ?s ip = Some e" "de_host e = host" using assms(2) by (auto simp: dns_get_def)
  have split: "dns_punctual parse delay clock (xs @ [ev]) s \<Longrightarrow>
      dns_punctual parse delay clock xs s \<and> dns_time ev \<le> dk_due (fold (dns_task_step parse) xs s) + delay" for clock xs s ev
    by (induction xs arbitrary: clock s) auto
  have p: "dns_punctual parse delay start es (dns_task_new start)" "now \<le> dk_due ?s + delay"
    using split[OF assms(1)] by simp_all
  have "dns_task_ok start (dns_task_new start)" by (simp add: dns_task_ok_def dns_task_new_def dns_new_def)
  then obtain clock where "dns_task_ok clock ?s" using dns_run_ok p(1) by blast
  then have "dk_due ?s \<le> de_created e + 180"
    using e(1) by (auto simp: dns_task_ok_def ENTRY_TIMEOUT_def CLEAN_UP_INTERVAL_def add.commute)
  then show ?thesis using e p(2) by auto
qed

definition demo_dns :: "bytes \<Rightarrow> dns_packet option" where
  "demo_dns _ = Some \<lparr>dns_questions = [], dns_answers = [(lit ''a'', DnsA 1)]\<rparr>"

theorem cached_name_age_witness:
  "\<exists>e. dk_cache (fold (dns_task_step demo_dns) [DnsResponse 5 [], DnsTick 60, DnsTick 120] (dns_task_new 0)) (IpV4 1) = Some e \<and>
     de_host e = lit ''a'' \<and> 180 \<le> de_created e + 180 + 0"
proof (rule cached_name_age[where start = 0 and parse = demo_dns])
  show "dns_punctual demo_dns 0 0 ([DnsResponse 5 [], DnsTick 60, DnsTick 120] @ [DnsTick 180]) (dns_task_new 0)" by code_simp
  show "dns_get (dk_cache (fold (dns_task_step demo_dns) [DnsResponse 5 [], DnsTick 60, DnsTick 120] (dns_task_new 0))) (IpV4 1) = Some (lit ''a'')"
    by code_simp
qed

text \<open>
  The timer of a session that carries nothing fires after its delay, and not before: the waiting task, polled once,
  is done after the reactor has looked at the clock at or after the deadline, exactly then.
\<close>

theorem idle_session_times_out:
  assumes "0 < d"
  shows "tw_done (wait_run (Polled start # map Elapsed ts) (wait_new start d)) \<longleftrightarrow> (\<exists>t \<in> set ts. start + d \<le> t)"
proof -
  let ?w = "\<lparr>tw_timer = timer_new start d, tw_registered = True, tw_done = False\<rparr>"
  have "wait_step (Polled start) (wait_new start d) = ?w"
    using assms by (simp add: wait_new_def wait_poll_def timer_poll_def timer_new_def)
  moreover have "tw_done w \<Longrightarrow> tw_done (fold wait_step (map Elapsed ts) w)" for w ts
    by (induction ts arbitrary: w) auto
  then have "tw_done (fold wait_step (map Elapsed ts) ?w) \<longleftrightarrow> (\<exists>t \<in> set ts. start + d \<le> t)"
    by (induction ts) (auto simp: wait_poll_def timer_poll_def timer_new_def)
  ultimately show ?thesis by (simp add: wait_run_def)
qed

lemma unregistered_stays:
  assumes "\<forall>e \<in> set es. \<forall>t. e \<noteq> Polled t" and "\<not> tw_registered w" and "\<not> tw_done w"
  shows "\<not> tw_done (fold wait_step es w)"
  using assms
proof (induction es arbitrary: w)
  case (Cons e es)
  then have "\<not> tw_registered (wait_step e w) \<and> \<not> tw_done (wait_step e w)" by (cases e) (auto simp: wait_reset_def)
  then show ?case using Cons by simp
qed simp



end
