(* ===== verification/Socks5_Msg.thy ===== *)
theory Socks5_Msg
  imports Socks5_Addr
begin

text \<open>
  The messages of the SOCKS protocols: the SOCKS5 greeting (src/socks5/greeting.rs), the
  SOCKS5 connection request and its reply (src/socks5/req.rs), the SOCKS5 datagram header
  (src/socks5/udp.rs) with the relay that uses it (src/socks5/udp_relay.rs), and the SOCKS4
  request and reply (src/socks4.rs).
\<close>

section \<open>Greeting\<close>

definition AUTH_NO_PASSWORD :: u8 where "AUTH_NO_PASSWORD = 0x0"
definition AUTH_NOT_ACCEPTED :: u8 where "AUTH_NOT_ACCEPTED = 0xFF"

record client_greeting =
  auths :: bytes

definition greeting_parse :: "client_greeting parser" where
  "greeting_parse buf =
     (case buf of
        v # l # rest \<Rightarrow>
          if v \<noteq> 0x5 then Inl (Err ''protocol'')
          else (let len = unat l
                in if length rest < len then Inr None
                   else Inr (Some (1 + (len + 1), \<lparr>auths = take len rest\<rparr>)))
      | _ \<Rightarrow> Inr None)"

definition greeting_read_response :: "bytes \<Rightarrow> (u8 \<times> bytes) res" where
  "greeting_read_response r =
     and_then (read_exact 2 r) (\<lambda>(bufs, r').
       if bufs ! 0 \<noteq> 0x5 then Inl (Err ''Unknown protocol version'') else Inr (bufs ! 1, r'))"

definition greeting_write :: "client_greeting \<Rightarrow> bytes res" where
  "greeting_write g =
     (if length (auths g) < 256 then Inr ([0x5, of_nat (length (auths g))] @ auths g)
      else Inl (Err ''out of range integral type conversion attempted''))"

definition greeting_respond :: "u8 \<Rightarrow> bytes" where
  "greeting_respond auth = [0x5, auth]"

section \<open>Connection request\<close>

datatype conn_status_code = ConnStatusCode u8
datatype command = Command u8

definition GRANTED :: conn_status_code where "GRANTED = ConnStatusCode 0"
definition FAILED :: conn_status_code where "FAILED = ConnStatusCode 0x1"
definition UNSUPPORTED_COMMAND :: conn_status_code where "UNSUPPORTED_COMMAND = ConnStatusCode 0x7"
definition CONNECT_TCP :: command where "CONNECT_TCP = Command 1"
definition BIND_UDP :: command where "BIND_UDP = Command 3"

record client_conn_request =
  conn_cmd :: command
  conn_address :: address

definition conn_request_parse :: "client_conn_request parser" where
  "conn_request_parse buf =
     (case buf of
        v # cmd # rsv # rest \<Rightarrow>
          if v \<noteq> 0x5 then Inl (Err ''protocol'')
          else if rsv \<noteq> 0 then Inl (Err ''rsv'')
          else and_then (address_parse rest) (\<lambda>r.
            case r of
              None \<Rightarrow> Inr None
            | Some (offset, address) \<Rightarrow>
                Inr (Some (3 + offset, \<lparr>conn_cmd = Command cmd, conn_address = address\<rparr>)))
      | _ \<Rightarrow> Inr None)"

fun command_byte :: "command \<Rightarrow> u8" where
  "command_byte (Command c) = c"

fun status_byte :: "conn_status_code \<Rightarrow> u8" where
  "status_byte (ConnStatusCode c) = c"

definition conn_request_write :: "client_conn_request \<Rightarrow> bytes res" where
  "conn_request_write r =
     and_then (address_write (conn_address r)) (\<lambda>a. Inr ([0x5, command_byte (conn_cmd r), 0] @ a))"

definition conn_parse_response :: "bytes \<Rightarrow> ((conn_status_code \<times> address) \<times> bytes) res" where
  "conn_parse_response r =
     and_then (read_exact 3 r) (\<lambda>(hdrs, r1).
       if hdrs ! 0 \<noteq> 5 \<or> hdrs ! 2 \<noteq> 0 then Inl (Err ''Invalid Response'')
       else and_then (address_parse_async r1) (\<lambda>(bounded, r2).
              Inr ((ConnStatusCode (hdrs ! 1), bounded), r2)))"

definition conn_respond :: "conn_status_code \<Rightarrow> address \<Rightarrow> bytes res" where
  "conn_respond code bound_addr =
     and_then (address_write bound_addr) (\<lambda>a. Inr ([0x5, status_byte code, 0x00] @ a))"

section \<open>Datagram header\<close>

record udp_packet =
  pkt_buf :: bytes
  data_offset :: nat

definition udp_new_checked :: "bytes \<Rightarrow> udp_packet res" where
  "udp_new_checked buf =
     (if length buf < 2 then Inl (Err ''Reading RSV'')
      else if (from_be (take 2 buf) :: u16) \<noteq> 0 then Inl (Err ''RSV is not 0'')
      else if length buf < 3 then Inl (Err ''Reading frag_no'')
      else and_then (in_context ''Parsing address'' (address_parse (drop 3 buf))) (\<lambda>r.
           and_then (ok_or ''Parsing address'' r) (\<lambda>(n, _).
             Inr \<lparr>pkt_buf = buf, data_offset = 3 + n\<rparr>)))"

text \<open>The accessors index the buffer: out of range they panic, as the slices do.\<close>

definition udp_frag_no :: "udp_packet \<Rightarrow> u8 res" where
  "udp_frag_no p =
     (if 2 < length (pkt_buf p) then Inr (pkt_buf p ! 2) else Inl (Panic ''index out of bounds''))"

definition udp_addr :: "udp_packet \<Rightarrow> address res" where
  "udp_addr p =
     (if 3 \<le> data_offset p \<and> data_offset p \<le> length (pkt_buf p)
      then (case address_parse (take (data_offset p - 3) (drop 3 (pkt_buf p))) of
              Inr (Some (_, a)) \<Rightarrow> Inr a
            | _ \<Rightarrow> Inl (Panic ''unwrap''))
      else Inl (Panic ''slice index out of range''))"

definition udp_payload :: "udp_packet \<Rightarrow> bytes res" where
  "udp_payload p =
     (if data_offset p \<le> length (pkt_buf p) then Inr (drop (data_offset p) (pkt_buf p))
      else Inl (Panic ''slice index out of range''))"

record udp_repr =
  repr_addr :: address
  repr_payload :: bytes
  repr_frag_no :: u8

definition udp_header_write_len :: "udp_repr \<Rightarrow> nat" where
  "udp_header_write_len r = 3 + address_write_len (repr_addr r)"

definition udp_write_len :: "udp_repr \<Rightarrow> nat" where
  "udp_write_len r = udp_header_write_len r + length (repr_payload r)"

definition udp_to_packet :: "udp_repr \<Rightarrow> udp_packet res" where
  "udp_to_packet r =
     and_then (address_write_to (repr_addr r) (be16 0 @ [repr_frag_no r])) (\<lambda>out.
       udp_new_checked (out @ repr_payload r))"

section \<open>Datagram relay\<close>

text \<open>
  \<open>new_udp_relay\<close> pairs a stream and a sink over one socket that share the address of the
  last sender. A received datagram sets it, whether or not it parses; a packet to send goes
  there, and is an error before anything was received.
\<close>

record udp_relay =
  relay_last_addr :: "socket_addr option"

definition relay_new :: udp_relay where
  "relay_new = \<lparr>relay_last_addr = None\<rparr>"

definition relay_recv :: "udp_relay \<Rightarrow> (bytes \<times> socket_addr) res \<Rightarrow> udp_relay \<times> udp_packet res option" where
  "relay_recv s item =
     (case item of
        Inl e \<Rightarrow> (s, Some (Inl e))
      | Inr (data, addr) \<Rightarrow>
          (s\<lparr>relay_last_addr := Some addr\<rparr>,
           case udp_new_checked data of Inr pkt \<Rightarrow> Some (Inr pkt) | Inl _ \<Rightarrow> None))"

definition relay_send :: "udp_relay \<Rightarrow> udp_packet \<Rightarrow> (bytes \<times> socket_addr) res" where
  "relay_send s pkt =
     and_then (ok_or ''No last address'' (relay_last_addr s)) (\<lambda>addr. Inr (pkt_buf pkt, addr))"

section \<open>SOCKS4\<close>

definition SOCKS4_REQUEST_TCP :: u8 where "SOCKS4_REQUEST_TCP = 1"
definition SOCKS4_REPLY_GRANTED :: u8 where "SOCKS4_REPLY_GRANTED = 0x5A"
definition SOCKS4_REPLY_FAILED :: u8 where "SOCKS4_REPLY_FAILED = 0x5B"

record socks4_request =
  s4_cmd :: u8
  s4_addr :: address

definition parse_socks4_request :: "socks4_request parser" where
  "parse_socks4_request buf =
     (if length buf < 9 then Inr None
      else if buf ! 0 \<noteq> 0x4 then Inl (Err ''Invalid protocol'')
      else
        (let cmd = buf ! 1;
             port = from_be (take 2 (drop 2 buf));
             ip = take 4 (drop 4 buf);
             rest = drop 8 buf
         in case find_byte 0 rest of
              None \<Rightarrow> Inr None
            | Some v \<Rightarrow>
                let offset = 8 + (v + 1); rest = drop (v + 1) rest
                in if take 3 ip = [0, 0, 0] \<and> ip ! 3 \<noteq> 0 then
                     (if rest = [] then Inr None
                      else case find_byte 0 rest of
                             None \<Rightarrow> Inr None
                           | Some w \<Rightarrow>
                               Inr (Some (offset + (w + 1),
                                 \<lparr>s4_cmd = cmd, s4_addr = Name (from_utf8_lossy (take w rest)) port\<rparr>)))
                   else
                     Inr (Some (offset, \<lparr>s4_cmd = cmd, s4_addr = IP (SockV4 (from_be ip) port)\<rparr>))))"

definition respond_socks4 :: "u32 \<Rightarrow> u16 \<Rightarrow> u8 \<Rightarrow> bytes" where
  "respond_socks4 ip port reply = [0, reply] @ be16 port @ be32 ip"

section \<open>Streaming laws\<close>

lemma greeting_parse_laws:
  "greeting_parse s = Inr (Some (n, x)) \<Longrightarrow> n \<le> length s"
  "greeting_parse s = Inr (Some r) \<Longrightarrow> greeting_parse (s @ t) = Inr (Some r)"
  "greeting_parse s = Inl e \<Longrightarrow> greeting_parse (s @ t) = Inl e"
  "greeting_parse s = Inr (Some (n, x)) \<Longrightarrow> greeting_parse (take n s) = Inr (Some (n, x))"
  by (auto simp: greeting_parse_def Let_def take_Cons' split: list.splits if_splits)

lemma greeting_parse_write:
  "greeting_write g = Inr bs \<Longrightarrow> greeting_parse bs = Inr (Some (length bs, g))"
  by (auto simp: greeting_write_def greeting_parse_def unat_of_nat_u8 split: if_splits)

interpretation greeting: codec greeting_parse greeting_write "\<lambda>g. length (auths g) < 256"
  by unfold_locales (auto intro: greeting_parse_laws greeting_parse_write simp: greeting_write_def)

lemma conn_request_parse_Cons3:
  "conn_request_parse (v # c # r # rest) =
     (if v \<noteq> 0x5 then Inl (Err ''protocol'') else if r \<noteq> 0 then Inl (Err ''rsv'')
      else (case address_parse rest of
              Inl e \<Rightarrow> Inl e
            | Inr None \<Rightarrow> Inr None
            | Inr (Some (n, a)) \<Rightarrow> Inr (Some (3 + n, \<lparr>conn_cmd = Command c, conn_address = a\<rparr>))))"
  by (simp add: conn_request_parse_def and_then_def split: sum.splits option.splits)

lemma conn_request_parse_short: "length s < 3 \<Longrightarrow> conn_request_parse s = Inr None"
  by (auto simp: conn_request_parse_def split: list.splits)

lemma list3_cases: "length s < 3 \<or> (\<exists>a b c r. s = a # b # c # r)"
  by (cases s; cases "tl s"; cases "tl (tl s)") auto

lemma conn_request_parse_laws:
  "conn_request_parse s = Inr (Some (n, x)) \<Longrightarrow> n \<le> length s"
  "conn_request_parse s = Inr (Some r) \<Longrightarrow> conn_request_parse (s @ t) = Inr (Some r)"
  "conn_request_parse s = Inl e \<Longrightarrow> conn_request_parse (s @ t) = Inl e"
  "conn_request_parse s = Inr (Some (n, x)) \<Longrightarrow> conn_request_parse (take n s) = Inr (Some (n, x))"
  using list3_cases[of s] addr.consumes[of "drop 3 s"] addr.stable[of "drop 3 s" _ t]
    addr.stable_err[of "drop 3 s" _ t] addr.exact[of "drop 3 s"]
  by (auto simp: conn_request_parse_short conn_request_parse_Cons3 take_Cons' numeral_eq_Suc
      split: if_splits sum.splits option.splits)

definition wire_request :: "client_conn_request \<Rightarrow> bool" where
  "wire_request r \<longleftrightarrow> wire_addr_strict (conn_address r)"

lemma conn_request_parse_write:
  assumes "wire_request r" and "conn_request_write r = Inr bs"
  shows "conn_request_parse bs = Inr (Some (length bs, r))"
proof -
  obtain a where a: "address_write (conn_address r) = Inr a" "bs = [0x5, command_byte (conn_cmd r), 0] @ a"
    using assms(2) by (auto simp: conn_request_write_def res_simps)
  have "address_parse a = Inr (Some (length a, conn_address r))"
    using addr.parse_encode[OF _ a(1)] assms(1) by (simp add: wire_request_def)
  moreover have "Command (command_byte (conn_cmd r)) = conn_cmd r" by (cases "conn_cmd r") simp
  ultimately show ?thesis using a(2) by (simp add: conn_request_parse_Cons3)
qed

interpretation conn_req: codec conn_request_parse conn_request_write wire_request
proof
  fix x assume "wire_request x"
  then show "\<exists>bs. conn_request_write x = Inr bs"
    using addr.encode_total[of "conn_address x"] by (auto simp: wire_request_def conn_request_write_def)
qed (use conn_request_parse_laws conn_request_parse_write in auto)

lemma drop_append_le: "n \<le> length xs \<Longrightarrow> drop n (xs @ ys) = drop n xs @ ys"
  by simp

lemma find_byte_take:
  "find_byte c s = Some v \<Longrightarrow> v < n \<Longrightarrow> find_byte c (take n s) = Some v"
proof (induction s arbitrary: v n)
  case (Cons a s)
  then show ?case by (cases n) (auto split: if_splits)
qed simp

lemma find_byte_prefix: "find_byte c s = Some v \<Longrightarrow> find_byte c (s @ t) = Some v"
  by (simp add: find_byte_append)

lemma find_byte_less: "find_byte c s = Some v \<Longrightarrow> v < length s"
  using find_byte_Some by fastforce

text \<open>The part of a SOCKS4 request behind the fixed eight-byte header.\<close>

definition socks4_tail :: "u8 \<Rightarrow> u16 \<Rightarrow> bytes \<Rightarrow> bytes \<Rightarrow> (nat \<times> socks4_request) option" where
  "socks4_tail cmd port ip rest =
     (case find_byte 0 rest of
        None \<Rightarrow> None
      | Some v \<Rightarrow>
          if take 3 ip = [0, 0, 0] \<and> ip ! 3 \<noteq> 0 then
            (case find_byte 0 (drop (v + 1) rest) of
               None \<Rightarrow> None
             | Some w \<Rightarrow> Some (v + 1 + (w + 1),
                 \<lparr>s4_cmd = cmd, s4_addr = Name (from_utf8_lossy (take w (drop (v + 1) rest))) port\<rparr>))
          else Some (v + 1, \<lparr>s4_cmd = cmd, s4_addr = IP (SockV4 (from_be ip) port)\<rparr>))"

lemma socks4_tail_consumes: "socks4_tail cmd port ip rest = Some (n, x) \<Longrightarrow> n \<le> length rest"
  by (auto simp: socks4_tail_def dest!: find_byte_less split: option.splits if_splits)

lemma socks4_tail_stable:
  assumes "socks4_tail cmd port ip rest = Some r"
  shows "socks4_tail cmd port ip (rest @ t) = Some r"
proof -
  obtain v where v: "find_byte 0 rest = Some v"
    using assms by (auto simp: socks4_tail_def split: option.splits)
  then have d: "drop (v + 1) (rest @ t) = drop (v + 1) rest @ t"
    using find_byte_less[OF v] by (intro drop_append_le) simp
  show ?thesis
    using assms v find_byte_prefix[OF v, of t]
    by (auto simp: socks4_tail_def d find_byte_prefix take_append dest: find_byte_less split: option.splits if_splits)
qed

lemma socks4_tail_exact:
  assumes "socks4_tail cmd port ip rest = Some (n, x)"
  shows "socks4_tail cmd port ip (take n rest) = Some (n, x)"
proof -
  obtain v where v: "find_byte 0 rest = Some v"
    using assms by (auto simp: socks4_tail_def split: option.splits)
  have "v < n" using assms v by (auto simp: socks4_tail_def split: option.splits if_splits)
  then have vt: "find_byte 0 (take n rest) = Some v" using find_byte_take[OF v] by simp
  show ?thesis
    using assms v vt
    by (auto simp: socks4_tail_def drop_take find_byte_take take_append min_def split: option.splits if_splits)
qed

lemma parse_socks4_request_tail:
  assumes "9 \<le> length buf" and "buf ! 0 = 0x4"
  shows "parse_socks4_request buf =
     (case socks4_tail (buf ! 1) (from_be (take 2 (drop 2 buf))) (take 4 (drop 4 buf)) (drop 8 buf) of
        None \<Rightarrow> Inr None | Some (n, x) \<Rightarrow> Inr (Some (8 + n, x)))"
  using assms
  by (auto simp: parse_socks4_request_def socks4_tail_def Let_def split: option.splits)

lemma socks4_header_append:
  assumes "8 \<le> length buf"
  shows "(buf @ t) ! Suc 0 = buf ! Suc 0" "take 2 (drop 2 (buf @ t)) = take 2 (drop 2 buf)"
    "take 4 (drop 4 (buf @ t)) = take 4 (drop 4 buf)" "drop 8 (buf @ t) = drop 8 buf @ t"
    "(buf @ t) ! 0 = buf ! 0"
  using assms by (auto simp: nth_append)

lemma parse_socks4_request_laws:
  "parse_socks4_request s = Inr (Some (n, x)) \<Longrightarrow> n \<le> length s"
  "parse_socks4_request s = Inr (Some r) \<Longrightarrow> parse_socks4_request (s @ t) = Inr (Some r)"
  "parse_socks4_request s = Inl e \<Longrightarrow> parse_socks4_request (s @ t) = Inl e"
  "parse_socks4_request s = Inr (Some (n, x)) \<Longrightarrow> parse_socks4_request (take n s) = Inr (Some (n, x))"
proof -
  have ok: "9 \<le> length s \<and> s ! 0 = 0x4" if "parse_socks4_request s = Inr (Some q)" for s q
    using that by (auto simp: parse_socks4_request_def split: if_splits)
  show "n \<le> length s" if "parse_socks4_request s = Inr (Some (n, x))"
    using that ok[OF that]
    by (auto simp: parse_socks4_request_tail dest!: socks4_tail_consumes split: option.splits)
  show "parse_socks4_request (s @ t) = Inr (Some r)" if "parse_socks4_request s = Inr (Some r)"
  proof -
    note k = ok[OF that]
    have "9 \<le> length (s @ t)" "(s @ t) ! 0 = 0x4" "8 \<le> length s" using k by (auto simp: nth_append)
    then show ?thesis
      using that k
      by (simp add: parse_socks4_request_tail socks4_header_append del: append_assoc)
        (auto simp: socks4_tail_stable split: option.splits)
  qed
  show "parse_socks4_request (s @ t) = Inl e" if "parse_socks4_request s = Inl e"
    using that by (auto simp: parse_socks4_request_def nth_append Let_def split: if_splits option.splits)
  show "parse_socks4_request (take n s) = Inr (Some (n, x))" if p: "parse_socks4_request s = Inr (Some (n, x))"
  proof -
    note k = ok[OF p]
    obtain m where m: "n = 8 + m" and
      tl: "socks4_tail (s ! 1) (from_be (take 2 (drop 2 s))) (take 4 (drop 4 s)) (drop 8 s) = Some (m, x)"
      using p k by (auto simp: parse_socks4_request_tail split: option.splits)
    have "0 < m" using tl by (auto simp: socks4_tail_def split: option.splits if_splits)
    moreover have "m \<le> length s - 8" using socks4_tail_consumes[OF tl] by simp
    ultimately have len: "9 \<le> length (take n s)" using m k by auto
    have h: "take n s ! 1 = s ! 1" "take 2 (drop 2 (take n s)) = take 2 (drop 2 s)"
      "take 4 (drop 4 (take n s)) = take 4 (drop 4 s)" "drop 8 (take n s) = take m (drop 8 s)" "take n s ! 0 = s ! 0"
      using m \<open>0 < m\<close> by (simp_all add: drop_take min_def)
    have "take n s ! 0 = 0x4" using k h(5) by simp
    from parse_socks4_request_tail[OF len this] show ?thesis
      unfolding h socks4_tail_exact[OF tl] using m by simp
  qed
qed

interpretation socks4: stream_parser parse_socks4_request
  using parse_socks4_request_laws by unfold_locales auto

lemma udp_packet_reads:
  assumes "wire_addr_strict (repr_addr r)"
  shows "\<exists>p. udp_to_packet r = Inr p \<and> length (pkt_buf p) = udp_write_len r \<and>
           udp_frag_no p = Inr (repr_frag_no r) \<and> udp_addr p = Inr (repr_addr r) \<and>
           udp_payload p = Inr (repr_payload r)"
proof -
  obtain bs where bs: "address_write (repr_addr r) = Inr bs" using addr.encode_total[OF assms] by blast
  have len: "length bs = address_write_len (repr_addr r)" using address_write_length[OF bs] .
  have "be16 (0::u16) = [0, 0]" by (simp add: numeral_2_eq_2)
  then have out: "udp_to_packet r = udp_new_checked ([0, 0, repr_frag_no r] @ bs @ repr_payload r)"
    using bs by (simp add: udp_to_packet_def address_write_to_eq)
  have parse: "address_parse (bs @ repr_payload r) = Inr (Some (length bs, repr_addr r))"
    using addr.parse_encode_rest[OF assms bs] .
  have "(from_be [0, 0] :: u16) = 0" by (simp add: from_be_def)
  then have pkt: "udp_to_packet r =
      Inr \<lparr>pkt_buf = [0, 0, repr_frag_no r] @ bs @ repr_payload r, data_offset = 3 + length bs\<rparr>"
    unfolding out using parse by (simp add: udp_new_checked_def numeral_2_eq_2)
  have "drop (3 + length bs) ([0, 0, repr_frag_no r] @ bs @ repr_payload r) = repr_payload r"
    by (simp add: numeral_3_eq_3)
  then show ?thesis
    unfolding pkt using addr.parse_encode[OF assms bs] len
    by (simp add: udp_write_len_def udp_header_write_len_def udp_frag_no_def udp_addr_def udp_payload_def)
qed

section \<open>Properties\<close>

lemma udp_new_checked_Inr:
  assumes "udp_new_checked buf = Inr p"
  obtains n a where "p = \<lparr>pkt_buf = buf, data_offset = 3 + n\<rparr>" "3 \<le> length buf"
    "address_parse (drop 3 buf) = Inr (Some (n, a))" "(from_be (take 2 buf) :: u16) = 0"
  using assms that by (auto simp: udp_new_checked_def res_simps split: if_splits)

lemma udp_to_packet_checked: "udp_to_packet r = Inr p \<Longrightarrow> udp_new_checked (pkt_buf p) = Inr p"
proof -
  assume "udp_to_packet r = Inr p"
  then obtain buf where "udp_new_checked buf = Inr p" by (auto simp: udp_to_packet_def res_simps)
  moreover from this have "pkt_buf p = buf" by (auto elim: udp_new_checked_Inr)
  ultimately show ?thesis by simp
qed

text \<open>
  Every datagram that \<open>UdpPacket::new_checked\<close> accepts can be taken apart without a panic:
  the indexing and the unwraps of \<open>frag_no\<close>, \<open>addr\<close> and \<open>payload\<close> stay in range, and the
  header and the payload together are the whole datagram.
\<close>

theorem udp_accessors_safe:
  assumes "udp_new_checked buf = Inr p"
  shows "\<exists>frag a payload. udp_frag_no p = Inr frag \<and> udp_addr p = Inr a \<and> udp_payload p = Inr payload \<and>
           pkt_buf p = buf \<and> take (data_offset p) buf @ payload = buf \<and> 3 < data_offset p"
proof -
  obtain n a where p: "p = \<lparr>pkt_buf = buf, data_offset = 3 + n\<rparr>" "3 \<le> length buf"
    "address_parse (drop 3 buf) = Inr (Some (n, a))"
    using udp_new_checked_Inr[OF assms] by metis
  have "n \<le> length (drop 3 buf)" using addr.consumes[OF p(3)] .
  moreover have "address_parse (take n (drop 3 buf)) = Inr (Some (n, a))" using addr.exact[OF p(3)] .
  moreover have "0 < n" using p(3) by (cases "drop 3 buf") (auto simp: Let_def split: if_splits list.splits)
  ultimately show ?thesis
    using p(1,2) by (auto simp: udp_frag_no_def udp_addr_def udp_payload_def)
qed

theorem udp_accessors_safe_witness:
  "\<exists>frag a payload. udp_frag_no \<lparr>pkt_buf = [0, 0, 0, 1, 1, 2, 3, 4, 0, 80, 9], data_offset = 10\<rparr> = Inr frag \<and>
     udp_addr \<lparr>pkt_buf = [0, 0, 0, 1, 1, 2, 3, 4, 0, 80, 9], data_offset = 10\<rparr> = Inr a \<and>
     udp_payload \<lparr>pkt_buf = [0, 0, 0, 1, 1, 2, 3, 4, 0, 80, 9], data_offset = 10\<rparr> = Inr payload"
proof -
  have "udp_new_checked [0, 0, 0, 1, 1, 2, 3, 4, 0, 80, 9] =
      Inr \<lparr>pkt_buf = [0, 0, 0, 1, 1, 2, 3, 4, 0, 80, 9], data_offset = 10\<rparr>"
    by code_simp
  from udp_accessors_safe[OF this] show ?thesis by blast
qed

text \<open>
  The SOCKS5 datagram codec round-trips: \<open>to_packet\<close> succeeds for every address the format
  carries, the packet has the announced length, and fragment number, address and payload
  read from it are the ones written.
\<close>

theorem udp_packet_roundtrip:
  assumes "wire_addr_strict (repr_addr r)"
  shows "\<exists>p. udp_to_packet r = Inr p \<and> length (pkt_buf p) = udp_write_len r \<and>
           udp_frag_no p = Inr (repr_frag_no r) \<and> udp_addr p = Inr (repr_addr r) \<and>
           udp_payload p = Inr (repr_payload r)"
  by (rule udp_packet_reads[OF assms])

theorem udp_packet_roundtrip_witness:
  "\<exists>p. udp_to_packet \<lparr>repr_addr = IP (SockV4 1 80), repr_payload = [7], repr_frag_no = 1\<rparr> = Inr p \<and>
     udp_addr p = Inr (IP (SockV4 1 80)) \<and> udp_payload p = Inr [7]"
  using udp_packet_roundtrip[of "\<lparr>repr_addr = IP (SockV4 1 80), repr_payload = [7], repr_frag_no = 1\<rparr>"]
  by auto

text \<open>
  The client of the UDP relay gets its replies: after a datagram from \<open>src\<close> arrived (even a
  malformed one), every packet handed to the sink goes to \<open>src\<close> unchanged; before the first
  datagram the sink fails.
\<close>

theorem relay_replies_to_last_sender:
  "relay_send (fst (relay_recv s (Inr (data, src)))) pkt = Inr (pkt_buf pkt, src) \<and>
   relay_send relay_new pkt = Inl (Err ''No last address'') \<and>
   fst (relay_recv s (Inl e)) = s"
  by (simp add: relay_send_def relay_recv_def relay_new_def)

end
