(* ===== verification/Http.thy ===== *)
theory Http
  imports Socks5_Addr "HOL-Library.Monad_Syntax"
begin

text \<open>
  HTTP/1 as the program uses it: URLs (src/url.rs), request paths with queries
  (src/http_path.rs), requests, responses, their builder and the stream with a buffered start of
  the body (src/http.rs). The tokenizers of the \<open>httparse\<close> crate and the percent decoder are
  parameters.
\<close>

section \<open>URLs\<close>

record url =
  u_scheme :: rstr
  u_host :: rstr
  u_port :: "u16 option"
  u_path :: rstr

record http_url =
  hu_is_https :: bool
  hu_address :: address
  hu_path :: rstr

definition url_try_from :: "rstr \<Rightarrow> url res" where
  "url_try_from s =
     (let (scheme, s1) = (case find_str (lit ''://'') s of Some v \<Rightarrow> (take v s, drop (v + 3) s) | None \<Rightarrow> ([], s));
          (host_and_port, path) = (case find_byte 47 s1 of Some v \<Rightarrow> (take v s1, drop v s1) | None \<Rightarrow> (s1, []))
      in and_then
           (case rfind_byte 58 host_and_port of
              Some v \<Rightarrow>
                if v > 0 \<and> v < length host_and_port - 1
                then and_then (ok_or ''invalid digit found in string'' (parse_u16 (drop (v + 1) host_and_port)))
                       (\<lambda>p. Inr (take v host_and_port, Some p))
                else Inl (Err ''Invalid host or port'')
            | None \<Rightarrow> Inr (host_and_port, None))
           (\<lambda>(host, port). Inr \<lparr>u_scheme = scheme, u_host = host, u_port = port, u_path = path\<rparr>))"

definition http_url_try_from :: "rstr \<Rightarrow> http_url res" where
  "http_url_try_from s =
     and_then (url_try_from s) (\<lambda>u.
     and_then
       (if eq_ignore_ascii_case (u_scheme u) (lit ''http'') then Inr (False, 80)
        else if eq_ignore_ascii_case (u_scheme u) (lit ''https'') then Inr (True, 443)
        else Inl (Err ''Unknown http scheme''))
       (\<lambda>(is_https, default_port).
         Inr \<lparr>hu_is_https = is_https,
              hu_address = address_from (u_host u) (case u_port u of Some p \<Rightarrow> p | None \<Rightarrow> default_port),
              hu_path = (if u_path u = [] then lit ''/'' else u_path u)\<rparr>))"

section \<open>Paths\<close>

record http_path =
  hp_path :: rstr
  hp_queries :: "(rstr \<times> rstr) list"

definition get_query :: "http_path \<Rightarrow> rstr \<Rightarrow> rstr option" where
  "get_query p name = map_option snd (find (\<lambda>(n, _). n = name) (hp_queries p))"

text \<open>\<open>decode\<close> is \<open>urlencoding::decode\<close>.\<close>

fun parse_queries :: "(rstr \<Rightarrow> rstr res) \<Rightarrow> rstr list \<Rightarrow> (rstr \<times> rstr) list res" where
  "parse_queries decode [] = Inr []"
| "parse_queries decode (q # qs) =
     and_then
       (case split_once 61 q of
          Some (name, value) \<Rightarrow>
            and_then (in_context ''Parsing query parameter'' (decode name)) (\<lambda>n.
            and_then (in_context ''Parsing query parameter'' (decode value)) (\<lambda>v. Inr (n, v)))
        | None \<Rightarrow>
            and_then (in_context ''Parsing query parameter'' (decode q)) (\<lambda>n. Inr (n, [])))
       (\<lambda>x. and_then (parse_queries decode qs) (\<lambda>xs. Inr (x # xs)))"

definition http_path_from_str :: "(rstr \<Rightarrow> rstr res) \<Rightarrow> rstr \<Rightarrow> http_path res" where
  "http_path_from_str decode value =
     (case split_once 63 value of
        None \<Rightarrow> Inr \<lparr>hp_path = value, hp_queries = []\<rparr>
      | Some (path, queries_str) \<Rightarrow>
          and_then (parse_queries decode (split_on 38 queries_str)) (\<lambda>qs.
            Inr \<lparr>hp_path = path, hp_queries = qs\<rparr>))"

section \<open>Headers and requests\<close>

type_synonym headers = "(rstr \<times> bytes) list"

fun get_header :: "headers \<Rightarrow> rstr \<Rightarrow> bytes option" where
  "get_header [] n = None"
| "get_header ((k, v) # hs) n = (if eq_ignore_ascii_case k n then Some v else get_header hs n)"

definition get_header_text :: "headers \<Rightarrow> rstr \<Rightarrow> rstr option" where
  "get_header_text hs n = Option.bind (get_header hs n) from_utf8"

definition get_content_length :: "headers \<Rightarrow> nat option" where
  "get_content_length hs = Option.bind (get_header_text hs (lit ''content-length'')) parse_usize"

definition get_content_type :: "headers \<Rightarrow> rstr option" where
  "get_content_type hs = get_header_text hs (lit ''content-type'')"

record http_request =
  hr_headers :: headers
  hr_method :: rstr
  hr_path :: rstr

record http_response =
  hs_headers :: headers
  hs_status_code :: u16

abbreviation crlf :: bytes where "crlf \<equiv> [13, 10]"

definition builder_new :: "rstr \<Rightarrow> rstr \<Rightarrow> bytes" where
  "builder_new method path = method @ [32] @ path @ lit '' HTTP/1.1'' @ crlf"

definition put_header_text :: "rstr \<Rightarrow> rstr \<Rightarrow> bytes \<Rightarrow> bytes" where
  "put_header_text name value buf = buf @ name @ lit '': '' @ value @ crlf"

definition put_header :: "rstr \<Rightarrow> bytes \<Rightarrow> bytes \<Rightarrow> bytes" where
  "put_header name value buf = ((buf @ name @ lit '': '') @ value) @ crlf"

definition builder_finalise :: "bytes \<Rightarrow> bytes" where
  "builder_finalise buf = buf @ crlf"

definition to_builder :: "http_request \<Rightarrow> bytes" where
  "to_builder r = foldl (\<lambda>b (k, v). put_header k v b) (builder_new (hr_method r) (hr_path r)) (hr_headers r)"

definition request_to_writer :: "http_request \<Rightarrow> bytes" where
  "request_to_writer r = builder_finalise (to_builder r)"

text \<open>
  What \<open>httparse\<close> reports: an error, partial input, or the length of the head with the optional
  first two words (method and path, or the status code) and the headers.
\<close>

type_synonym 'a tokenizer = "bytes \<Rightarrow> ((nat \<times> 'a \<times> headers) option) res"

definition http_request_parse :: "(rstr option \<times> rstr option) tokenizer \<Rightarrow> http_request parser" where
  "http_request_parse hp buf =
     and_then (in_context ''Pasring HTTP request'' (hp buf)) (\<lambda>r.
       case r of
         None \<Rightarrow> Inr None
       | Some (offset, (method, path), hs) \<Rightarrow>
           and_then (ok_or ''No method'' method) (\<lambda>m.
           and_then (ok_or ''No path'' path) (\<lambda>p.
             Inr (Some (offset, \<lparr>hr_headers = hs, hr_method = m, hr_path = p\<rparr>)))))"

section \<open>The stream after the head\<close>

record 'i http_stream =
  st_init :: 'i
  st_body_buf :: "rw_buffer option"
  st_body :: segments

text \<open>
  One \<open>poll_read\<close> into a slice of \<open>cap\<close> bytes: first what is buffered, then the connection.
\<close>

definition http_read :: "nat \<Rightarrow> 'i http_stream \<Rightarrow> (bytes \<times> 'i http_stream) res" where
  "http_read cap s =
     (case st_body_buf s of
        Some existing \<Rightarrow>
          (let copy_len = min cap (remaining_read existing); out = take copy_len (read_buf existing)
           in and_then (advance_read copy_len existing) (\<lambda>existing'.
                Inr (out, s\<lparr>st_body_buf := (if remaining_read existing' = 0 then None else Some existing')\<rparr>)))
      | None \<Rightarrow>
          (let (out, ss) = read_some cap (st_body s) in Inr (out, s\<lparr>st_body := ss\<rparr>)))"

text \<open>\<open>read_exact\<close>: repeated reads until \<open>n\<close> bytes are there; a read of nothing is the end.\<close>

function http_read_exact :: "nat \<Rightarrow> 'i http_stream \<Rightarrow> (bytes \<times> 'i http_stream) res" where
  "http_read_exact n s =
     (if n = 0 then Inr ([], s)
      else case http_read n s of
             Inl e \<Rightarrow> Inl e
           | Inr (out, s') \<Rightarrow>
               if out = [] then Inl (Err ''UnexpectedEof'')
               else and_then (http_read_exact (n - length out) s') (\<lambda>(outs, s''). Inr (out @ outs, s'')))"
  by pat_completeness auto
termination
  by (relation "measure fst") auto

declare http_read_exact.simps [simp del]

text \<open>
  The loop of \<open>body\<close> for chunked bodies; \<open>pcs\<close> is \<open>httparse::parse_chunk_size\<close>, which reports the
  length of the size line and the size. \<open>None\<close> is a loop that never ends.
\<close>

partial_function (option) chunk_loop ::
  "(bytes \<Rightarrow> (nat \<times> nat) option res) \<Rightarrow> 'i http_stream \<Rightarrow> rw_buffer \<Rightarrow> bytes \<Rightarrow> (bytes \<times> 'i http_stream) res option" where
  "chunk_loop pcs s buf final_buf =
     (case http_read (snd (write_buf buf)) s of
        Inl e \<Rightarrow> Some (Inl e)
      | Inr (out, s1) \<Rightarrow>
          if out = [] then Some (Inr (final_buf, s1))
          else (case advance_write (length out) (put_slice out (fst (write_buf buf))) of
                  Inl e \<Rightarrow> Some (Inl e)
                | Inr buf1 \<Rightarrow>
                    (case pcs (read_buf buf1) of
                       Inl e \<Rightarrow> Some (Inl (Err ''Invalid chunk size on buf''))
                     | Inr None \<Rightarrow> chunk_loop pcs s1 buf1 final_buf
                     | Inr (Some (offset, len)) \<Rightarrow>
                         if len = 0 then Some (Inr (final_buf, s1))
                         else (case advance_read offset buf1 of
                                 Inl e \<Rightarrow> Some (Inl e)
                               | Inr buf2 \<Rightarrow>
                                   if len < remaining_read buf2
                                   then Some (Inl (Panic ''attempt to subtract with overflow''))
                                   else (case http_read_exact (len - remaining_read buf2) s1 of
                                           Inl e \<Rightarrow> Some (Inl e)
                                         | Inr (data, s2) \<Rightarrow>
                                             (case advance_read (remaining_read buf2) buf2 of
                                                Inl e \<Rightarrow> Some (Inl e)
                                              | Inr buf3 \<Rightarrow>
                                                  chunk_loop pcs s2 buf3 (final_buf @ read_buf buf2 @ data)))))))"

definition http_body ::
  "(bytes \<Rightarrow> (nat \<times> nat) option res) \<Rightarrow> headers \<Rightarrow> 'i http_stream \<Rightarrow> (bytes \<times> 'i http_stream) res option" where
  "http_body pcs hs s =
     (case (get_content_length hs, get_header_text hs (lit ''transfer-encoding'')) of
        (Some len, e) \<Rightarrow>
          if len > 0 then Some (http_read_exact len s)
          else (case e of
                  Some e \<Rightarrow> if eq_ignore_ascii_case e (lit ''chunked'')
                            then chunk_loop pcs s (rwb_new (replicate 8 0)) [] else Some (Inr ([], s))
                | None \<Rightarrow> Some (Inr ([], s)))
      | (None, Some e) \<Rightarrow> if eq_ignore_ascii_case e (lit ''chunked'')
                            then chunk_loop pcs s (rwb_new (replicate 8 0)) [] else Some (Inr ([], s))
      | (None, None) \<Rightarrow> Some (Inr ([], s)))"

text \<open>
  \<open>parse_response\<close> and \<open>parse_request\<close>: they read before they parse, then hand the rest of the
  buffer to the stream.
\<close>

definition response_parser :: "u16 option tokenizer \<Rightarrow> http_response parser" where
  "response_parser hp buf =
     and_then (hp buf) (\<lambda>r.
       case r of
         None \<Rightarrow> Inr None
       | Some (offset, code, hs) \<Rightarrow>
           and_then (ok_or ''No status code'' code) (\<lambda>c.
             Inr (Some (offset, \<lparr>hs_headers = hs, hs_status_code = c\<rparr>))))"

definition request_parser :: "(rstr option \<times> rstr option) tokenizer \<Rightarrow> http_request parser" where
  "request_parser hp buf =
     and_then (hp buf) (\<lambda>r.
       Inr (map_option (\<lambda>(offset, (m, p), hs).
              (offset, \<lparr>hr_headers = hs, hr_method = (case m of Some x \<Rightarrow> x | None \<Rightarrow> []),
                        hr_path = (case p of Some x \<Rightarrow> x | None \<Rightarrow> [])\<rparr>)) r))"

definition read_head :: "'i parser \<Rightarrow> rw_buffer \<Rightarrow> segments \<Rightarrow> 'i http_stream res" where
  "read_head parse b ss =
     and_then (refill b ss) (\<lambda>(n, b1, ss1).
       if n = 0 then Inl (Err ''Unexpected EOF'')
       else and_then (read_loop parse b1 ss1) (\<lambda>(offset, x, b2, ss2).
            and_then (advance_read offset b2) (\<lambda>b3.
              Inr \<lparr>st_init = x, st_body_buf = (if remaining_read b3 > 0 then Some b3 else None), st_body = ss2\<rparr>)))"

definition parse_response :: "u16 option tokenizer \<Rightarrow> segments \<Rightarrow> rw_buffer \<Rightarrow> http_response http_stream res" where
  "parse_response hp ss buf = read_head (response_parser hp) buf ss"

definition parse_request :: "(rstr option \<times> rstr option) tokenizer \<Rightarrow> segments \<Rightarrow> rw_buffer \<Rightarrow> http_request http_stream res" where
  "parse_request hp ss buf = read_head (request_parser hp) buf ss"

definition write_http_response :: "u16 \<Rightarrow> rstr option \<Rightarrow> rstr option \<Rightarrow> bytes \<Rightarrow> bytes" where
  "write_http_response code status_msg content_type body =
     lit ''HTTP/1.1 '' @ show_nat (unat code) @ (case status_msg of Some m \<Rightarrow> [32] @ m | None \<Rightarrow> []) @ crlf @
     lit ''Content-Type: '' @ (case content_type of Some t \<Rightarrow> t | None \<Rightarrow> lit ''application/octet-stream'') @ crlf @
     lit ''Content-Length: '' @ show_nat (length body) @ crlf @
     lit ''Access-Control-Allow-Headers: *'' @ crlf @
     lit ''Access-Control-Allow-Origin: *'' @ crlf @
     lit ''Access-Control-Allow-Methods: *'' @ crlf @ crlf @ body"

section \<open>The stream delivers the bytes after the head\<close>

definition st_data :: "'i http_stream \<Rightarrow> bytes" where
  "st_data s = (case st_body_buf s of Some b \<Rightarrow> read_buf b | None \<Rightarrow> []) @ concat (st_body s)"

definition st_ok :: "'i http_stream \<Rightarrow> bool" where
  "st_ok s \<longleftrightarrow> seg_ok (st_body s) \<and> (case st_body_buf s of Some b \<Rightarrow> rwb_inv b \<and> read_buf b \<noteq> [] | None \<Rightarrow> True)"

lemma http_read_data:
  assumes "st_ok s" and "0 < cap"
  shows "\<exists>out s'. http_read cap s = Inr (out, s') \<and> st_ok s' \<and> st_data s = out @ st_data s' \<and> length out \<le> cap \<and>
           (out = [] \<longleftrightarrow> st_data s = []) \<and> st_init s' = st_init s"
proof (cases "st_body_buf s")
  case None
  obtain out ss where r: "read_some cap (st_body s) = (out, ss)" by force
  have "seg_ok (st_body s)" using assms(1) None by (simp add: st_ok_def)
  then have "seg_ok ss" "out = [] \<longleftrightarrow> concat (st_body s) = []" "concat (st_body s) = out @ concat ss" "length out \<le> cap"
    using read_some_ok read_some_progress[OF _ assms(2)] read_some_concat read_some_len r by blast+
  then show ?thesis
    using None r by (auto simp: http_read_def st_ok_def st_data_def simp del: concat_eq_Nil_conv)
next
  case (Some b)
  have b: "rwb_inv b" "read_buf b \<noteq> []" "seg_ok (st_body s)" using assms(1) Some by (auto simp: st_ok_def)
  let ?n = "min cap (remaining_read b)"
  have n: "?n \<le> length (read_buf b)" "0 < ?n" using length_read_buf[OF b(1)] b(2) assms(2) by (auto simp: length_greater_0_conv[symmetric])
  obtain b' where b': "advance_read ?n b = Inr b'" "rwb_inv b'" "read_buf b' = drop ?n (read_buf b)"
    using advance_read_spec[OF b(1) n(1)] by blast
  have rem: "remaining_read b' = 0 \<longleftrightarrow> read_buf b' = []" using length_read_buf[OF b'(2)] by (metis length_0_conv)
  have split: "read_buf b = take ?n (read_buf b) @ read_buf b'" by (simp only: b'(3) append_take_drop_id)
  have out: "take ?n (read_buf b) \<noteq> []" "length (take ?n (read_buf b)) \<le> cap" using n by auto
  show ?thesis
    using Some b b' rem split out
    by (intro exI[of _ "take ?n (read_buf b)"]
        exI[of _ "s\<lparr>st_body_buf := (if remaining_read b' = 0 then None else Some b')\<rparr>"])
      (auto simp: http_read_def st_ok_def st_data_def Let_def simp del: take_eq_Nil)
qed

lemma http_read_exact_data:
  assumes "st_ok s" and "n \<le> length (st_data s)"
  shows "\<exists>s'. http_read_exact n s = Inr (take n (st_data s), s') \<and> st_ok s' \<and> st_data s' = drop n (st_data s)"
  using assms
proof (induction n arbitrary: s rule: less_induct)
  case (less n)
  show ?case
  proof (cases "n = 0")
    case True
    then show ?thesis using less.prems by (simp add: http_read_exact.simps)
  next
    case False
    then obtain out s1 where r: "http_read n s = Inr (out, s1)" "st_ok s1" "st_data s = out @ st_data s1" "length out \<le> n"
        "out \<noteq> []"
      using http_read_data[OF less.prems(1), of n] less.prems(2) by auto
    have "n - length out < n" using False r(5) by (simp add: diff_less_mono2)
    then obtain s2 where s2: "http_read_exact (n - length out) s1 = Inr (take (n - length out) (st_data s1), s2)"
        "st_ok s2" "st_data s2 = drop (n - length out) (st_data s1)"
      using less.IH[of "n - length out" s1] r less.prems(2) by (auto simp: le_diff_conv add.commute)
    have "http_read_exact n s = Inr (out @ take (n - length out) (st_data s1), s2)"
      using False r s2 by (subst http_read_exact.simps) simp
    then show ?thesis using r s2 by auto
  qed
qed

lemma read_head_data:
  assumes sp: "stream_parser parse" and "rwb_live b" "seg_ok ss" "read_buf b = []"
    and "parse (concat ss) = Inr (Some (offset, x))" and "concat ss \<noteq> []"
  shows "\<exists>s. read_head parse b ss = Inr s \<and> st_init s = x \<and> st_ok s \<and> st_data s = drop offset (concat ss)"
proof -
  obtain n b1 ss1 where r: "refill b ss = Inr (n, b1, ss1)" "rwb_live b1" "seg_ok ss1"
      "read_buf b1 @ concat ss1 = read_buf b @ concat ss" "n = 0 \<longleftrightarrow> concat ss = []"
    using refill_ok[OF assms(2,3)] by blast
  have whole: "parse (read_buf b1 @ concat ss1) = Inr (Some (offset, x))" using r(4) assms(4,5) by simp
  obtain b2 ss2 where l: "read_loop parse b1 ss1 = Inr (offset, x, b2, ss2)" "rwb_live b2" "seg_ok ss2"
      "offset \<le> length (read_buf b2)" "read_buf b2 @ concat ss2 = concat ss"
    using stream_parser.read_loop_result[OF sp r(2,3)] whole r(4) assms(4) by auto
  have inv: "rwb_inv b2" using l(2) by (simp add: rwb_live_def)
  obtain b3 where b3: "advance_read offset b2 = Inr b3" "rwb_inv b3" "read_buf b3 = drop offset (read_buf b2)"
    using advance_read_spec[OF inv l(4)] by blast
  have "drop offset (concat ss) = read_buf b3 @ concat ss2" using l(4,5) b3(3) by (metis append_eq_append_conv_if append_take_drop_id drop_append diff_is_0_eq drop_0)
  moreover have "remaining_read b3 = length (read_buf b3)" using length_read_buf[OF b3(2)] by simp
  ultimately show ?thesis
    using r(1,5) assms(6) l(1,3) b3 by (auto simp: read_head_def st_ok_def st_data_def simp del: concat_eq_Nil_conv)
qed

section \<open>URLs\<close>

lemma starts_with_append [simp]: "starts_with (p @ s) p"
  by (simp add: starts_with_def)

lemma find_str_first:
  assumes "hd p \<notin> set pre" and "p \<noteq> []"
  shows "find_str p (pre @ p @ rest) = Some (length pre)"
  using assms(1)
proof (induction pre)
  case Nil
  have "starts_with (p @ rest) p" by simp
  then show ?case using assms(2) by (cases "p @ rest") auto
next
  case (Cons x pre)
  then have "\<not> starts_with (x # pre @ p @ rest) p" using assms(2) by (cases p) (auto simp: starts_with_def)
  then show ?case using Cons by simp
qed

lemma url_try_from_parts:
  assumes "58 \<notin> set scheme" and "58 \<notin> set host" "47 \<notin> set host" "host \<noteq> []" and "path = [] \<or> hd path = 47"
  shows "url_try_from (scheme @ lit ''://'' @ host @ [58] @ show_nat (unat port) @ path) =
      Inr \<lparr>u_scheme = scheme, u_host = host, u_port = Some port, u_path = path\<rparr>"
proof -
  let ?hp = "host @ [58] @ show_nat (unat port)"
  have lit3: "lit ''://'' = [58, 47, 47]" by (simp add: lit_def)
  have f1: "find_str (lit ''://'') (scheme @ lit ''://'' @ ?hp @ path) = Some (length scheme)"
    using assms(1) by (intro find_str_first) (simp_all add: lit3)
  have n: "47 \<notin> set (show_nat k)" "58 \<notin> set (show_nat k)" for k
    using show_nat_digits is_digit_range by blast+
  have f2: "find_byte 47 (?hp @ path) = (if path = [] then None else Some (length ?hp))"
  proof (cases path)
    case Nil
    then show ?thesis using assms(3) n by (simp add: find_byte_None_conv)
  next
    case (Cons c cs)
    then have "path = 47 # cs" using assms(5) by simp
    then show ?thesis using find_byte_at[of 47 ?hp cs] assms(3) n by simp
  qed
  have f3: "rfind_byte 58 ?hp = Some (length host)" using rfind_byte_at[of 58 "show_nat (unat port)" host] n by simp
  have f4: "0 < length host" "length host < length ?hp - 1" using assms(4) by (auto simp: Suc_le_eq)
  show ?thesis
    unfolding url_try_from_def using f1 f2 f3 f4
    by (cases "path = []") (simp_all add: lit3)
qed

text \<open>
  Absolute HTTP URLs with a port parse to their parts: for either scheme, every host without colon
  or slash, port and path, the URL text gives the TLS flag, the address and the path, with
  \<open>/\<close> for an empty one.
\<close>

lemma http_url_parts:
  assumes "58 \<notin> set host" and "47 \<notin> set host" and "host \<noteq> []" and "path = [] \<or> hd path = 47"
  shows "http_url_try_from ((if tls then lit ''https'' else lit ''http'') @ lit ''://'' @ host @ [58] @ show_nat (unat port) @ path) =
     Inr \<lparr>hu_is_https = tls, hu_address = address_from host port, hu_path = (if path = [] then lit ''/'' else path)\<rparr>"
proof -
  have no: "58 \<notin> set (if tls then lit ''https'' else lit ''http'')" by (cases tls) (simp_all add: lit_def)
  have eq: "eq_ignore_ascii_case (lit ''http'') (lit ''http'')" "eq_ignore_ascii_case (lit ''https'') (lit ''https'')"
    "\<not> eq_ignore_ascii_case (lit ''https'') (lit ''http'')" by code_simp+
  show ?thesis
    unfolding http_url_try_from_def url_try_from_parts[OF no assms] using eq by (cases tls) simp_all
qed

text \<open>A tokenizer that knows one message.\<close>

definition knows :: "bytes \<Rightarrow> 'a \<times> headers \<Rightarrow> 'a tokenizer" where
  "knows msg x buf = Inr (if take (length msg) buf = msg then Some (length msg, x) else None)"

lemma knows_parser:
  "stream_parser (request_parser (knows msg x))" "stream_parser (response_parser (knows msg (Some c, hs)))"
proof -
  have "length msg \<le> length s" if "take (length msg) s = msg" for s using that by (metis length_take min.cobounded1)
  then show "stream_parser (request_parser (knows msg x))" "stream_parser (response_parser (knows msg (Some c, hs)))"
    by (unfold_locales; auto simp: knows_def request_parser_def response_parser_def split: if_splits)+
qed

section \<open>Properties\<close>

text \<open>
  C26: The body of a response with a content length is read correctly whatever the segmentation: for
  a tokenizer whose decisions are final, if the whole stream starts with a response head that
  announces \<open>len\<close> bytes and at least these follow, then \<open>parse_response\<close> and \<open>body\<close> return exactly the
  \<open>len\<close> bytes after the head, and the stream continues behind them.
\<close>

theorem response_body_exact:
  assumes "stream_parser (response_parser hp)" and "rwb_live b" and "read_buf b = []" and "seg_ok ss"
    and "response_parser hp (concat ss) = Inr (Some (offset, r))"
    and "get_content_length (hs_headers r) = Some len" and "0 < len" and "offset + len \<le> length (concat ss)"
  shows "\<exists>s s'. parse_response hp ss b = Inr s \<and> st_init s = r \<and>
     http_body pcs (hs_headers r) s = Some (Inr (take len (drop offset (concat ss)), s')) \<and>
     st_data s' = drop (offset + len) (concat ss)"
proof -
  have "concat ss \<noteq> []" using assms(7,8) by (metis add_is_0 le_zero_eq length_0_conv not_gr_zero)
  then obtain s where s: "parse_response hp ss b = Inr s" "st_init s = r" "st_ok s" "st_data s = drop offset (concat ss)"
    using read_head_data[OF assms(1,2,4,3,5)] by (auto simp: parse_response_def)
  have "len \<le> length (st_data s)" using s(4) assms(8) by simp
  then obtain s' where "http_read_exact len s = Inr (take len (st_data s), s')" "st_data s' = drop len (st_data s)"
    using http_read_exact_data[OF s(3), of len] by auto
  then show ?thesis
    using s assms(6,7) by (auto simp: http_body_def add.commute)
qed

definition demo_head :: "u16 option tokenizer" where
  "demo_head buf = Inr (if length buf < 4 then None else Some (4, Some 200, [(lit ''Content-Length'', lit ''3'')]))"

lemma demo_head_ok: "stream_parser (response_parser demo_head)"
  by unfold_locales (auto simp: response_parser_def demo_head_def split: if_splits)

theorem response_body_exact_witness:
  "\<exists>s s'. parse_response demo_head [[1, 2], [3, 4, 5, 6], [7, 8]] (rwb_new (replicate 16 0)) = Inr s \<and>
     http_body (\<lambda>_. Inr None) [(lit ''Content-Length'', lit ''3'')] s = Some (Inr ([5, 6, 7], s'))"
proof -
  have cl: "get_content_length [(lit ''Content-Length'', lit ''3'')] = Some 3" by code_simp
  have p: "response_parser demo_head (concat [[1, 2], [3, 4, 5, 6], [7, 8]]) =
      Inr (Some (4, \<lparr>hs_headers = [(lit ''Content-Length'', lit ''3'')], hs_status_code = 200\<rparr>))"
    by (simp add: response_parser_def demo_head_def)
  have "rwb_live (rwb_new (replicate 16 0))" by (simp add: rwb_live_def rwb_new_def rwb_inv_def)
  from response_body_exact[OF demo_head_ok this _ _ p, of 3 "\<lambda>_. Inr None"] cl
  show ?thesis by (auto simp: seg_ok_def)
qed

text \<open>
  A chunked body whose first chunk arrives in the same read as more than its data makes the
  reader panic: if the eight bytes read for the size line hold more bytes behind it than the
  chunk is long (as for any short chunk followed by its line end), the length computation
  underflows.
\<close>

theorem short_chunk_panics:
  assumes "get_content_length hs = None" and "get_header_text hs (lit ''transfer-encoding'') = Some (lit ''chunked'')"
    and "http_read 8 s = Inr (out, s1)" and "out \<noteq> []" and "length out \<le> 8"
    and "pcs out = Inr (Some (offset, len))" and "0 < len" and "offset + len < length out"
  shows "http_body pcs hs s = Some (Inl (Panic ''attempt to subtract with overflow''))"
proof -
  let ?b = "rwb_new (replicate 8 0)"
  have wb: "write_buf ?b = (?b, 8)" by (simp add: write_buf_def rwb_new_def remaining_write_def)
  have inv: "rwb_inv ?b" "length out \<le> remaining_write ?b" using assms(5) by (simp_all add: rwb_new_def remaining_write_def rwb_inv_def)
  obtain b1 where b1: "advance_write (length out) (put_slice out ?b) = Inr b1" "rwb_inv b1" "read_buf b1 = read_buf ?b @ out"
    using store_spec[OF inv] by blast
  then have rb1: "read_buf b1 = out" by simp
  obtain b2 where b2: "advance_read offset b1 = Inr b2" "rwb_inv b2" "read_buf b2 = drop offset out"
    using advance_read_spec[OF b1(2), of offset] rb1 assms(8) by auto
  have "remaining_read b2 = length out - offset" using length_read_buf[OF b2(2)] b2(3) by simp
  then have "len < remaining_read b2" using assms(8) by simp
  then have "chunk_loop pcs s ?b [] = Some (Inl (Panic ''attempt to subtract with overflow''))"
    using wb assms(3,4,6,7) b1(1) rb1 b2(1) by (subst chunk_loop.simps) simp
  moreover have "eq_ignore_ascii_case (lit ''chunked'') (lit ''chunked'')" by simp
  ultimately show ?thesis using assms(1,2) by (simp add: http_body_def)
qed

theorem short_chunk_panics_witness:
  "http_body (\<lambda>b. Inr (Some (3, 1))) [(lit ''Transfer-Encoding'', lit ''chunked'')]
     \<lparr>st_init = (), st_body_buf = None, st_body = [lit ''1'' @ [13, 10] @ lit ''x'' @ [13, 10] @ lit ''0'' @ [13, 10, 13, 10]]\<rparr> =
   Some (Inl (Panic ''attempt to subtract with overflow''))"
proof (rule short_chunk_panics[where out = "lit ''1'' @ [13, 10] @ lit ''x'' @ [13, 10] @ lit ''0'' @ [13]" and offset = 3 and len = 1])
  show "get_content_length [(lit ''Transfer-Encoding'', lit ''chunked'')] = None" by code_simp
  show "get_header_text [(lit ''Transfer-Encoding'', lit ''chunked'')] (lit ''transfer-encoding'') = Some (lit ''chunked'')"
    by code_simp
qed (simp_all add: http_read_def lit_def)

end
