(* ===== verification/Handshake.thy ===== *)
theory Handshake
  imports Socks5_Msg Http
begin

text \<open>
  The handshake with a local client (src/handshake.rs): the protocol (SOCKS5, SOCKS4 or HTTP)
  is detected from the bytes that arrive, the protocol's request is read, and the reply is sent
  once an upstream is connected. The incoming side of the connection is the list of segments the
  network delivers; the outgoing side is the list of bytes written. The HTTP tokenizer is a
  parameter.
\<close>

section \<open>Model\<close>

datatype parse_state = Init | Socks5Partial | Socks4Partial | HttpPartial

record socks_state =
  ss_auths :: bytes

datatype proxy_state = Socks5Greeted socks_state | Socks4 socks4_request | Http http_request

definition parse_socks5_greeting :: "socks_state parser" where
  "parse_socks5_greeting buf =
     and_then (greeting_parse buf) (\<lambda>r.
       case r of
         None \<Rightarrow> Inr None
       | Some (offset, g) \<Rightarrow> Inr (Some (offset, \<lparr>ss_auths = auths g\<rparr>)))"

datatype handshake_type = HsSocks5 | HsSocks4 | HsHttp | HsHttpTcpChannel

datatype handshake_request =
    HrTCP address
  | HrUDP "address option"
  | HrHTTP address bool http_request

text \<open>
  One round of the detection loop on the buffered bytes: an error, a result with the number of
  bytes it takes, or the next parse state.
\<close>

datatype hs_outcome = Detected nat proxy_state | ReadMore parse_state

definition keep_reading :: "parse_state \<Rightarrow> (nat \<times> proxy_state) option res \<Rightarrow> hs_outcome res" where
  "keep_reading st r =
     and_then r (\<lambda>d. case d of None \<Rightarrow> Inr (ReadMore st) | Some (offset, p) \<Rightarrow> Inr (Detected offset p))"

definition as_proxy :: "('a \<Rightarrow> proxy_state) \<Rightarrow> (nat \<times> 'a) option res \<Rightarrow> (nat \<times> proxy_state) option res" where
  "as_proxy f r = and_then r (\<lambda>d. Inr (map_option (\<lambda>(offset, x). (offset, f x)) d))"

fun hs_step :: "(rstr option \<times> rstr option) tokenizer \<Rightarrow> parse_state \<Rightarrow> bytes \<Rightarrow> hs_outcome res" where
  "hs_step hp Init buf =
     (case (parse_socks5_greeting buf, parse_socks4_request buf, http_request_parse hp buf) of
        (Inr (Some (offset, s)), _, _) \<Rightarrow> Inr (Detected offset (Socks5Greeted s))
      | (_, Inr (Some (offset, r)), _) \<Rightarrow> Inr (Detected offset (Socks4 r))
      | (_, _, Inr (Some (offset, h))) \<Rightarrow> Inr (Detected offset (Http h))
      | (Inl _, Inl _, Inl _) \<Rightarrow> Inl (Err ''No socks5/http detected'')
      | (Inl _, Inl _, Inr None) \<Rightarrow> Inr (ReadMore HttpPartial)
      | (Inr None, Inl _, Inl _) \<Rightarrow> Inr (ReadMore Socks5Partial)
      | (Inl _, Inr None, Inl _) \<Rightarrow> Inr (ReadMore Socks4Partial)
      | _ \<Rightarrow> Inr (ReadMore Init))"
| "hs_step hp HttpPartial buf = keep_reading HttpPartial (as_proxy Http (http_request_parse hp buf))"
| "hs_step hp Socks5Partial buf = keep_reading Socks5Partial (as_proxy Socks5Greeted (parse_socks5_greeting buf))"
| "hs_step hp Socks4Partial buf = keep_reading Socks4Partial (as_proxy Socks4 (parse_socks4_request buf))"

function hs_loop :: "(rstr option \<times> rstr option) tokenizer \<Rightarrow> parse_state \<Rightarrow> rw_buffer \<Rightarrow> segments \<Rightarrow>
    (proxy_state \<times> rw_buffer \<times> segments) res" where
  "hs_loop hp st b ss =
     (case hs_step hp st (read_buf b) of
        Inl e \<Rightarrow> Inl e
      | Inr (Detected offset p) \<Rightarrow> and_then (advance_read offset b) (\<lambda>b'. Inr (p, b', ss))
      | Inr (ReadMore st') \<Rightarrow>
          (case refill b ss of
             Inl e \<Rightarrow> Inl e
           | Inr (n, b', ss') \<Rightarrow>
               if n = 0 then Inl (Err ''Unexpected EOF'') else hs_loop hp st' b' ss'))"
  by pat_completeness auto

termination hs_loop
  by (relation "measure (\<lambda>(p, st, b, ss). length (concat ss))") (auto dest: refill_decreases)

declare hs_loop.simps [simp del]

definition handshake_socks4 :: "socks4_request \<Rightarrow> handshake_request res" where
  "handshake_socks4 r =
     (if s4_cmd r \<noteq> SOCKS4_REQUEST_TCP then Inl (Err ''Unsupported socks4 request'')
      else Inr (HrTCP (s4_addr r)))"

definition handshake_http :: "http_request \<Rightarrow> handshake_request res" where
  "handshake_http r =
     (if eq_ignore_ascii_case (hr_method r) (lit ''connect'')
      then and_then (address_try_from (hr_path r)) (\<lambda>dst. Inr (HrTCP dst))
      else and_then (in_context ''Parsing HTTP request path'' (http_url_try_from (hr_path r))) (\<lambda>u.
             Inr (HrHTTP (hu_address u) (hu_is_https u) (r\<lparr>hr_path := hu_path u\<rparr>))))"

text \<open>
  \<open>handshake_socks5\<close>: the loop that waits for the connection request is \<open>read_loop\<close>. The bytes
  written to the client come first in the result, on the error paths too.
\<close>

definition handshake_socks5 :: "rw_buffer \<Rightarrow> segments \<Rightarrow> socks_state \<Rightarrow>
    bytes \<times> (handshake_request \<times> rw_buffer \<times> segments) res" where
  "handshake_socks5 b ss state =
     (if AUTH_NO_PASSWORD \<notin> set (ss_auths state)
      then (greeting_respond AUTH_NOT_ACCEPTED, Inl (Err ''Invalid socks auth method''))
      else
        (let greeted = greeting_respond AUTH_NO_PASSWORD
         in case read_loop conn_request_parse b ss of
              Inl e \<Rightarrow> (greeted, Inl e)
            | Inr (offset, r, b1, ss1) \<Rightarrow>
                if conn_cmd r = CONNECT_TCP then
                  (greeted, and_then (advance_read offset b1) (\<lambda>b2. Inr (HrTCP (conn_address r), b2, ss1)))
                else if conn_cmd r = BIND_UDP then
                  (greeted, and_then (advance_read offset b1) (\<lambda>b2.
                     Inr (HrUDP (if is_unspecified (conn_address r) then None else Some (conn_address r)), b2, ss1)))
                else
                  (case conn_respond UNSUPPORTED_COMMAND default_address of
                     Inl e \<Rightarrow> (greeted, Inl e)
                   | Inr w \<Rightarrow> (greeted @ w, Inl (Err ''Invalid socks5 command'')))))"

definition handshaker_start :: "(rstr option \<times> rstr option) tokenizer \<Rightarrow> rw_buffer \<Rightarrow> segments \<Rightarrow>
    bytes \<times> ((handshake_type \<times> handshake_request) \<times> rw_buffer \<times> segments) res" where
  "handshaker_start hp b ss =
     (case hs_loop hp Init b ss of
        Inl e \<Rightarrow> ([], Inl e)
      | Inr (Socks5Greeted s, b1, ss1) \<Rightarrow>
          (case handshake_socks5 b1 ss1 s of (w, r) \<Rightarrow> (w, and_then r (\<lambda>(req, b2, ss2). Inr ((HsSocks5, req), b2, ss2))))
      | Inr (Http h, b1, ss1) \<Rightarrow>
          ([], and_then (handshake_http h) (\<lambda>req.
                 case req of
                   HrTCP _ \<Rightarrow> Inr ((HsHttpTcpChannel, req), b1, ss1)
                 | HrHTTP _ _ _ \<Rightarrow> Inr ((HsHttp, req), b1, ss1)
                 | HrUDP _ \<Rightarrow> Inl (Panic ''unreachable'')))
      | Inr (Socks4 r, b1, ss1) \<Rightarrow> ([], and_then (handshake_socks4 r) (\<lambda>req. Inr ((HsSocks4, req), b1, ss1))))"

fun respond_ok :: "handshake_type \<Rightarrow> socket_addr option \<Rightarrow> bytes res" where
  "respond_ok HsSocks5 bound = conn_respond GRANTED (case bound of Some a \<Rightarrow> IP a | None \<Rightarrow> default_address)"
| "respond_ok HsSocks4 (Some (SockV4 ip port)) = Inr (respond_socks4 ip port SOCKS4_REPLY_GRANTED)"
| "respond_ok HsSocks4 _ = Inr (respond_socks4 0 0 SOCKS4_REPLY_GRANTED)"
| "respond_ok HsHttp _ = Inr []"
| "respond_ok HsHttpTcpChannel _ = Inr (lit ''HTTP/1.1 200 OK'' @ crlf @ crlf)"

fun respond_err :: "handshake_type \<Rightarrow> bytes res" where
  "respond_err HsSocks5 = conn_respond FAILED default_address"
| "respond_err HsSocks4 = Inr (respond_socks4 0 0 SOCKS4_REPLY_FAILED)"
| "respond_err HsHttp = Inr (lit ''HTTP/1.1 500 Internal server error'' @ crlf @ crlf)"
| "respond_err HsHttpTcpChannel = Inr (lit ''HTTP/1.1 500 Internal server error'' @ crlf @ crlf)"

section \<open>Detection\<close>

text \<open>The specification of the detection: the first byte of the stream names the protocol.\<close>

definition detect :: "(rstr option \<times> rstr option) tokenizer \<Rightarrow> proxy_state parser" where
  "detect hp s =
     (case s of
        [] \<Rightarrow> Inr None
      | c # _ \<Rightarrow> if c = 5 then as_proxy Socks5Greeted (parse_socks5_greeting s)
                 else if c = 4 then as_proxy Socks4 (parse_socks4_request s)
                 else as_proxy Http (http_request_parse hp s))"

text \<open>
  What the detection needs of the tokenizer: its decisions are final, and a SOCKS version byte where
  the method should start is an error at once.
\<close>

definition http_tokenizer :: "(rstr option \<times> rstr option) tokenizer \<Rightarrow> bool" where
  "http_tokenizer hp \<longleftrightarrow> stream_parser hp \<and> (\<forall>c s. c = 4 \<or> c = 5 \<longrightarrow> (\<exists>e. hp (c # s) = Inl e))"

lemma http_request_parse_conv:
  "http_request_parse hp s = Inr None \<longleftrightarrow> hp s = Inr None"
  "http_request_parse hp s = Inr (Some (n, r)) \<longleftrightarrow>
     (\<exists>m p hs. hp s = Inr (Some (n, (Some m, Some p), hs)) \<and> r = \<lparr>hr_headers = hs, hr_method = m, hr_path = p\<rparr>)"
  by (auto simp: http_request_parse_def and_then_def in_context_def ok_or_def split: sum.splits option.splits fault.splits)

lemma http_request_parse_err:
  assumes "stream_parser hp" and "http_request_parse hp s = Inl e"
  shows "http_request_parse hp (s @ t) = Inl e"
proof (cases "hp s")
  case (Inl e')
  then show ?thesis
    using assms(2) stream_parser.stable_err[OF assms(1) Inl, of t] by (simp add: http_request_parse_def)
next
  case (Inr r)
  then show ?thesis
    using assms(2) stream_parser.stable[OF assms(1), of s _ t]
    by (cases r) (auto simp: http_request_parse_def)
qed

lemma http_request_parser:
  assumes "stream_parser hp"
  shows "stream_parser (http_request_parse hp)"
proof
  fix s t r assume "http_request_parse hp s = Inr (Some r)"
  then show "http_request_parse hp (s @ t) = Inr (Some r)"
    using stream_parser.stable[OF assms, of s _ t] by (cases r) (auto simp: http_request_parse_conv)
qed (use http_request_parse_err[OF assms] stream_parser.consumes[OF assms] stream_parser.exact[OF assms] in
    \<open>auto simp: http_request_parse_conv\<close>)

lemma http_rejects_socks:
  assumes "http_tokenizer hp" and "c = 4 \<or> c = 5"
  shows "\<exists>e. http_request_parse hp (c # s) = Inl e"
proof -
  obtain e where "hp (c # s) = Inl e" using assms unfolding http_tokenizer_def by blast
  then show ?thesis by (auto simp: http_request_parse_def in_context_def split: fault.splits)
qed

lemma tokenizer_parser: "http_tokenizer hp \<Longrightarrow> stream_parser (http_request_parse hp)"
  by (rule http_request_parser) (simp add: http_tokenizer_def)

lemma parse_socks5_greeting_cases:
  "parse_socks5_greeting [] = Inr None"
  "parse_socks5_greeting (5 # s) \<noteq> Inl e"
  "c \<noteq> 5 \<Longrightarrow> parse_socks5_greeting (c # s) \<noteq> Inr (Some r)"
  by (auto simp: parse_socks5_greeting_def greeting_parse_def Let_def split: list.splits)

lemma parse_socks4_cases:
  "parse_socks4_request [] = Inr None"
  "parse_socks4_request (4 # s) \<noteq> Inl e"
  "c \<noteq> 4 \<Longrightarrow> parse_socks4_request (c # s) \<noteq> Inr (Some r)"
  by (auto simp: parse_socks4_request_def Let_def split: option.splits)

lemma parse_socks5_greeting_conv:
  "parse_socks5_greeting s = Inl e \<longleftrightarrow> greeting_parse s = Inl e"
  "parse_socks5_greeting s = Inr (Some (n, x)) \<longleftrightarrow> (\<exists>g. greeting_parse s = Inr (Some (n, g)) \<and> x = \<lparr>ss_auths = auths g\<rparr>)"
  by (auto simp: parse_socks5_greeting_def and_then_def split: sum.splits option.splits)

interpretation socks5_greeting: stream_parser parse_socks5_greeting
proof
  fix s t r assume "parse_socks5_greeting s = Inr (Some r)"
  then show "parse_socks5_greeting (s @ t) = Inr (Some r)"
    by (cases r) (auto simp: parse_socks5_greeting_conv dest: greeting.stable)
qed (auto simp: parse_socks5_greeting_conv dest: greeting.consumes greeting.stable_err greeting.exact)

lemma as_proxy_conv:
  "as_proxy f r = Inl e \<longleftrightarrow> r = Inl e"
  "as_proxy f r = Inr None \<longleftrightarrow> r = Inr None"
  "as_proxy f r = Inr (Some (n, p)) \<longleftrightarrow> (\<exists>x. r = Inr (Some (n, x)) \<and> p = f x)"
  by (auto simp: as_proxy_def and_then_def split: sum.splits)

text \<open>
  When the initial parse state has been left, the first byte is known; only the SOCKS4 state can
  also be entered by a stream of no known protocol, which it rejects later.
\<close>

fun state_ok :: "(rstr option \<times> rstr option) tokenizer \<Rightarrow> parse_state \<Rightarrow> bytes \<Rightarrow> bool" where
  "state_ok hp Init s = True"
| "state_ok hp Socks5Partial s = (\<exists>r. s = 5 # r)"
| "state_ok hp Socks4Partial s = (\<exists>c r. s = c # r \<and> c \<noteq> 5 \<and> (c = 4 \<or> (\<exists>e. http_request_parse hp s = Inl e)))"
| "state_ok hp HttpPartial s = (\<exists>c r. s = c # r \<and> c \<noteq> 4 \<and> c \<noteq> 5)"

lemma socks_short:
  "c \<noteq> 5 \<Longrightarrow> parse_socks5_greeting (c # r) = Inr None \<Longrightarrow> parse_socks4_request (c # r) = Inr None"
  by (auto simp: parse_socks5_greeting_def greeting_parse_def parse_socks4_request_def split: list.splits if_splits)

lemma state_ok_append:
  assumes "http_tokenizer hp" and "state_ok hp st s"
  shows "state_ok hp st (s @ t)"
  using stream_parser.stable_err[OF tokenizer_parser[OF assms(1)], of s _ t] assms(2) by (cases st) auto

lemma detect_Some:
  assumes "http_tokenizer hp" and "detect hp s = Inr (Some (n, p))"
  shows "n \<le> length s \<and> detect hp (s @ t) = Inr (Some (n, p))"
  using assms(2) stream_parser.consumes[OF tokenizer_parser[OF assms(1)], of s]
    stream_parser.stable[OF tokenizer_parser[OF assms(1)], of s _ t]
  by (auto simp: detect_def as_proxy_conv split: list.splits if_splits
      dest: socks5_greeting.consumes socks4.consumes socks5_greeting.stable[of _ _ t] socks4.stable[of _ _ t])

lemma detect_Inl:
  assumes "http_tokenizer hp" and "detect hp s = Inl e"
  shows "detect hp (s @ t) = Inl e"
  using assms(2) stream_parser.stable_err[OF tokenizer_parser[OF assms(1)], of s _ t]
  by (auto simp: detect_def as_proxy_conv split: list.splits if_splits
      dest: socks5_greeting.stable_err[of _ _ t] socks4.stable_err[of _ _ t])

text \<open>One round agrees with the specification on the bytes seen so far.\<close>

lemma hs_step_Init:
  assumes "http_tokenizer hp"
  shows "case hs_step hp Init s of
     Inl e \<Rightarrow> \<exists>e'. detect hp s = Inl e'
   | Inr (Detected n p) \<Rightarrow> detect hp s = Inr (Some (n, p))
   | Inr (ReadMore st') \<Rightarrow> (\<forall>np. detect hp s \<noteq> Inr (Some np)) \<and> state_ok hp st' s"
proof (cases s)
  case Nil
  have "http_request_parse hp [] \<noteq> Inr (Some r)" for r
    using stream_parser.stable[OF tokenizer_parser[OF assms], of "[]" r "[4]"] http_rejects_socks[OF assms, of 4 "[]"]
    by auto
  with Nil show ?thesis
    by (auto simp: detect_def parse_socks5_greeting_cases parse_socks4_cases split: sum.splits option.splits)
next
  case (Cons c r)
  consider "c = 5" | "c = 4" | "c \<noteq> 4" "c \<noteq> 5" by blast
  then show ?thesis
  proof cases
    case 1
    then show ?thesis
      using Cons parse_socks4_cases(3)[of c r] parse_socks5_greeting_cases(2)[of r] http_rejects_socks[OF assms, of c r]
      by (auto simp: detect_def as_proxy_def split: sum.splits option.splits)
  next
    case 2
    then show ?thesis
      using Cons parse_socks4_cases(2)[of r] parse_socks5_greeting_cases(3)[of c r] http_rejects_socks[OF assms, of c r]
      by (auto simp: detect_def as_proxy_def split: sum.splits option.splits)
  next
    case 3
    then show ?thesis
      using Cons parse_socks4_cases(3)[of c r] parse_socks5_greeting_cases(3)[of c r] socks_short[of c r]
      by (auto simp: detect_def as_proxy_def split: sum.splits option.splits)
  qed
qed

lemma hs_step_detect:
  assumes "http_tokenizer hp" and "state_ok hp st s"
  shows "case hs_step hp st s of
     Inl e \<Rightarrow> \<exists>e'. detect hp s = Inl e'
   | Inr (Detected n p) \<Rightarrow> detect hp s = Inr (Some (n, p))
   | Inr (ReadMore st') \<Rightarrow> (\<forall>np. detect hp s \<noteq> Inr (Some np)) \<and> state_ok hp st' s"
proof (cases st)
  case Init
  then show ?thesis using hs_step_Init[OF assms(1)] by simp
next
  case Socks4Partial
  then obtain c r where s: "s = c # r" "c \<noteq> 5" "c = 4 \<or> (\<exists>e. http_request_parse hp s = Inl e)" using assms by auto
  show ?thesis
  proof (cases "c = 4")
    case True
    then show ?thesis using Socks4Partial s
      by (auto simp: detect_def keep_reading_def as_proxy_def and_then_def split: sum.splits option.splits)
  next
    case False
    then obtain e where "detect hp s = Inl e" using s by (auto simp: detect_def as_proxy_conv)
    then show ?thesis using Socks4Partial s assms parse_socks4_cases(3)[OF False, of r]
      by (auto simp: keep_reading_def as_proxy_def and_then_def split: sum.splits option.splits)
  qed
qed (use assms in \<open>auto simp: detect_def keep_reading_def as_proxy_def and_then_def split: sum.splits option.splits\<close>)

text \<open>The loop computes what the specification says of the whole stream.\<close>

lemma hs_loop_detect:
  assumes hp: "http_tokenizer hp" and "rwb_live b" and "seg_ok ss" and "state_ok hp st (read_buf b)"
  shows "case detect hp (read_buf b @ concat ss) of
           Inr (Some (n, p)) \<Rightarrow> \<exists>b' ss'. hs_loop hp st b ss = Inr (p, b', ss') \<and> rwb_live b' \<and> seg_ok ss' \<and>
             read_buf b' @ concat ss' = drop n (read_buf b @ concat ss)
         | _ \<Rightarrow> \<exists>e. hs_loop hp st b ss = Inl e"
  using assms(2-)
proof (induction "length (concat ss)" arbitrary: b ss st rule: less_induct)
  case less
  let ?s = "read_buf b @ concat ss"
  note step = hs_step_detect[OF hp less.prems(3)]
  consider (err) e where "hs_step hp st (read_buf b) = Inl e"
    | (found) n p where "hs_step hp st (read_buf b) = Inr (Detected n p)"
    | (again) st' where "hs_step hp st (read_buf b) = Inr (ReadMore st')"
    by (metis sum.exhaust hs_outcome.exhaust)
  then show ?case
  proof cases
    case err
    then show ?thesis using step detect_Inl[OF hp, of "read_buf b"] by (auto simp: hs_loop.simps[of hp st b ss])
  next
    case found
    then have d: "n \<le> length (read_buf b)" "detect hp ?s = Inr (Some (n, p))"
      using step detect_Some[OF hp, of "read_buf b"] by auto
    obtain b' where "advance_read n b = Inr b'" "rwb_live b'" "read_buf b' = drop n (read_buf b)"
      using rwq.consume_ok[OF less.prems(1) d(1)] by blast
    then show ?thesis using found d less.prems by (simp add: hs_loop.simps[of hp st b ss])
  next
    case again
    obtain n b' ss' where r: "refill b ss = Inr (n, b', ss')" "rwb_live b'" "seg_ok ss'"
        "read_buf b' @ concat ss' = ?s" "n = 0 \<longleftrightarrow> concat ss = []"
      using refill_ok[OF less.prems(1,2)] by blast
    show ?thesis
    proof (cases "n = 0")
      case True
      then have "\<forall>np. detect hp ?s \<noteq> Inr (Some np)"
        using r(5) step again by (simp del: concat_eq_Nil_conv)
      with True r again show ?thesis
        by (auto simp: hs_loop.simps[of hp st b ss] split: sum.splits option.splits)
    next
      case False
      have eq: "hs_loop hp st b ss = hs_loop hp st' b' ss'"
        using False r(1) again by (simp add: hs_loop.simps[of hp st b ss])
      obtain d where "read_buf b' = read_buf b @ d"
        using r(4) refill_decreases[OF r(1)] by (auto simp: append_eq_append_conv2)
      then have "state_ok hp st' (read_buf b')" using step again state_ok_append[OF hp, of st'] by simp
      moreover have "length (concat ss') < length (concat ss)"
        using refill_decreases[OF r(1)] False by simp
      ultimately show ?thesis using less.hyps[OF _ r(2,3)] unfolding eq r(4)[symmetric] by blast
    qed
  qed
qed

section \<open>The SOCKS5 dialogue\<close>

lemma detect_greeting:
  assumes "length (auths g) < 256" and "greeting_write g = Inr gb"
  shows "detect hp (gb @ rest) = Inr (Some (length gb, Socks5Greeted \<lparr>ss_auths = auths g\<rparr>))"
proof -
  have "hd gb = 5" "gb \<noteq> []" using assms by (auto simp: greeting_write_def)
  then obtain t where "gb = 5 # t" by (cases gb) auto
  moreover have "greeting_parse (gb @ rest) = Inr (Some (length gb, g))"
    using greeting.parse_encode_rest[OF assms] .
  ultimately show ?thesis
    by (simp add: detect_def as_proxy_def parse_socks5_greeting_def)
qed

lemma after_greeting:
  assumes "http_tokenizer hp" and "rwb_live b" and "seg_ok ss"
    and "length (auths g) < 256" and "greeting_write g = Inr gb" and "read_buf b @ concat ss = gb @ rest"
  obtains b1 ss1 where "hs_loop hp Init b ss = Inr (Socks5Greeted \<lparr>ss_auths = auths g\<rparr>, b1, ss1)"
    "rwb_live b1" "seg_ok ss1" "read_buf b1 @ concat ss1 = rest"
  using hs_loop_detect[OF assms(1-3), of Init] detect_greeting[OF assms(4,5), of hp rest] assms(6) by auto

lemma await_request:
  assumes "rwb_live b" and "seg_ok ss" and "wire_request r" and "conn_request_write r = Inr rb"
    and "read_buf b @ concat ss = rb @ rest"
  obtains b1 ss1 b2 where "read_loop conn_request_parse b ss = Inr (length rb, r, b1, ss1)"
    "advance_read (length rb) b1 = Inr b2" "rwb_live b2" "seg_ok ss1" "read_buf b2 @ concat ss1 = rest"
proof -
  have "conn_request_parse (rb @ rest) = Inr (Some (length rb, r))" using conn_req.parse_encode_rest[OF assms(3,4)] .
  then obtain b1 ss1 where l: "read_loop conn_request_parse b ss = Inr (length rb, r, b1, ss1)" "rwb_live b1" "seg_ok ss1"
      "length rb \<le> length (read_buf b1)" "read_buf b1 @ concat ss1 = rb @ rest"
    using conn_req.read_loop_result[OF assms(1,2)] assms(5) by auto
  obtain b2 where b2: "advance_read (length rb) b1 = Inr b2" "rwb_live b2" "read_buf b2 = drop (length rb) (read_buf b1)"
    using rwq.consume_ok[OF l(2,4)] by blast
  have "read_buf b2 @ concat ss1 = drop (length rb) (read_buf b1 @ concat ss1)" using b2(3) l(4) by simp
  also have "\<dots> = rest" using l(5) by simp
  finally show thesis using that l(1,3) b2(1,2) by blast
qed

text \<open>What the client's request means to the proxy.\<close>

definition requested :: "client_conn_request \<Rightarrow> handshake_request option" where
  "requested r =
     (if conn_cmd r = CONNECT_TCP then Some (HrTCP (conn_address r))
      else if conn_cmd r = BIND_UDP
      then Some (HrUDP (if is_unspecified (conn_address r) then None else Some (conn_address r)))
      else None)"

lemma socks5_start:
  assumes "http_tokenizer hp" and "rwb_live b" and "seg_ok ss"
    and "length (auths g) < 256" and "AUTH_NO_PASSWORD \<in> set (auths g)" and "greeting_write g = Inr gb"
    and "wire_request r" and "conn_request_write r = Inr rb" and "requested r = Some req"
    and "read_buf b @ concat ss = gb @ rb @ rest"
  shows "\<exists>b' ss'. handshaker_start hp b ss = ([5, 0], Inr ((HsSocks5, req), b', ss')) \<and>
           read_buf b' @ concat ss' = rest \<and> seg_ok ss'"
proof -
  obtain b1 ss1 where g: "hs_loop hp Init b ss = Inr (Socks5Greeted \<lparr>ss_auths = auths g\<rparr>, b1, ss1)"
      "rwb_live b1" "seg_ok ss1" "read_buf b1 @ concat ss1 = rb @ rest"
    using after_greeting[OF assms(1-4,6,10)] by blast
  obtain b2 ss2 b3 where r: "read_loop conn_request_parse b1 ss1 = Inr (length rb, r, b2, ss2)"
      "advance_read (length rb) b2 = Inr b3" "rwb_live b3" "seg_ok ss2" "read_buf b3 @ concat ss2 = rest"
    using await_request[OF g(2,3) assms(7,8) g(4)] by blast
  have "handshaker_start hp b ss = ([5, 0], Inr ((HsSocks5, req), b3, ss2))"
    using g(1) r(1,2) assms(5,9)
    by (auto simp: handshaker_start_def handshake_socks5_def requested_def greeting_respond_def AUTH_NO_PASSWORD_def
        split: if_splits)
  then show ?thesis using r(4,5) by blast
qed

section \<open>Properties\<close>

text \<open>
  C5: Protocol detection does not depend on how the network cuts the stream: for an HTTP tokenizer whose
  decisions are final and which refuses a SOCKS version byte, the detection loop ends with the
  protocol named by the first byte of the whole stream, its message as parsed from the whole stream,
  and exactly the bytes behind that message still to be read; when that parser has no message in the
  stream the loop ends with an error.
\<close>

theorem protocol_detection:
  assumes "http_tokenizer hp" and "rwb_live b" and "seg_ok ss"
  shows "case detect hp (read_buf b @ concat ss) of
           Inr (Some (n, p)) \<Rightarrow> \<exists>b' ss'. hs_loop hp Init b ss = Inr (p, b', ss') \<and> rwb_live b' \<and> seg_ok ss' \<and>
             read_buf b' @ concat ss' = drop n (read_buf b @ concat ss)
         | _ \<Rightarrow> \<exists>e. hs_loop hp Init b ss = Inl e"
  using hs_loop_detect[OF assms, of Init] by simp

definition demo_http :: "(rstr option \<times> rstr option) tokenizer" where
  "demo_http buf =
     (case buf of
        [] \<Rightarrow> Inr None
      | c # _ \<Rightarrow> if c = 71 then Inr (if length buf < 4 then None else Some (4, (Some (lit ''GET''), Some (lit ''http://a/'')), []))
                 else Inl (Err ''Token''))"

lemma demo_http_ok: "http_tokenizer demo_http"
proof -
  have "stream_parser demo_http"
    by unfold_locales (auto simp: demo_http_def take_Cons' split: list.splits if_splits)
  then show ?thesis by (auto simp: http_tokenizer_def demo_http_def)
qed

theorem protocol_detection_witness:
  "\<exists>b' ss'. hs_loop demo_http Init (rwb_new (replicate 16 0)) [[5], [1, 0, 5], [1, 0]] =
       Inr (Socks5Greeted \<lparr>ss_auths = [0]\<rparr>, b', ss') \<and> read_buf b' @ concat ss' = [5, 1, 0]"
proof -
  have live: "rwb_live (rwb_new (replicate 16 0))" by (simp add: rwb_live_def rwb_new_def rwb_inv_def)
  have "detect demo_http [5, 1, 0, 5, 1, 0] = Inr (Some (3, Socks5Greeted \<lparr>ss_auths = [0]\<rparr>))" by code_simp
  with protocol_detection[OF demo_http_ok live, of "[[5], [1, 0, 5], [1, 0]]"]
  show ?thesis by (auto simp: seg_ok_def)
qed


text \<open>
  The SOCKS5 handshake: when the client's stream consists of a greeting that offers no
  authentication, a CONNECT or UDP ASSOCIATE request and more bytes, cut in any way, the proxy
  answers the greeting with "no authentication", returns exactly that request, and leaves exactly the
  bytes behind it; the client's own reader accepts the answer to the greeting, and reads the final
  reply as granted.
\<close>

theorem socks5_handshake:
  assumes "http_tokenizer hp" and "rwb_live b" and "seg_ok ss"
    and "length (auths g) < 256" and "AUTH_NO_PASSWORD \<in> set (auths g)" and "greeting_write g = Inr gb"
    and "wire_request r" and "conn_request_write r = Inr rb" and "requested r = Some req"
    and "read_buf b @ concat ss = gb @ rb @ rest"
  shows "\<exists>w b' ss' reply. handshaker_start hp b ss = (w, Inr ((HsSocks5, req), b', ss')) \<and>
           read_buf b' @ concat ss' = rest \<and> greeting_read_response w = Inr (AUTH_NO_PASSWORD, []) \<and>
           respond_ok HsSocks5 None = Inr reply \<and> conn_parse_response reply = Inr ((GRANTED, default_address), [])"
proof -
  obtain b' ss' where "handshaker_start hp b ss = ([5, 0], Inr ((HsSocks5, req), b', ss'))" "read_buf b' @ concat ss' = rest"
    using socks5_start[OF assms] by blast
  moreover have "greeting_read_response [5, 0] = Inr (AUTH_NO_PASSWORD, [])" by code_simp
  moreover have "\<exists>reply. respond_ok HsSocks5 None = Inr reply \<and> conn_parse_response reply = Inr ((GRANTED, default_address), [])"
    by (rule exI[of _ "[5, 0, 0, 1, 0, 0, 0, 0, 0, 0]"], intro conjI) code_simp+
  ultimately show ?thesis by blast
qed

theorem socks5_handshake_witness:
  "\<exists>w b' ss' reply. handshaker_start demo_http (rwb_new (replicate 16 0)) [[5, 1], [0, 5, 1, 0], [1, 10, 0, 0, 1, 0, 80, 42]] =
       (w, Inr ((HsSocks5, HrTCP (IP (SockV4 0x0A000001 80))), b', ss')) \<and>
     read_buf b' @ concat ss' = [42] \<and> greeting_read_response w = Inr (AUTH_NO_PASSWORD, []) \<and>
     respond_ok HsSocks5 None = Inr reply \<and> conn_parse_response reply = Inr ((GRANTED, default_address), [])"
proof (rule socks5_handshake[where g = "\<lparr>auths = [0]\<rparr>" and gb = "[5, 1, 0]" and
      r = "\<lparr>conn_cmd = CONNECT_TCP, conn_address = IP (SockV4 0x0A000001 80)\<rparr>" and rb = "[5, 1, 0, 1, 10, 0, 0, 1, 0, 80]"])
  show "http_tokenizer demo_http" by (rule demo_http_ok)
  show "rwb_live (rwb_new (replicate 16 0))" by (simp add: rwb_live_def rwb_new_def rwb_inv_def)
  show "conn_request_write \<lparr>conn_cmd = CONNECT_TCP, conn_address = IP (SockV4 0x0A000001 80)\<rparr> = Inr [5, 1, 0, 1, 10, 0, 0, 1, 0, 80]"
    by code_simp
  show "greeting_write \<lparr>auths = [0]\<rparr> = Inr [5, 1, 0]" by code_simp
qed (simp_all add: seg_ok_def AUTH_NO_PASSWORD_def requested_def wire_request_def)

text \<open>
  The SOCKS5 refusals: a client that does not offer "no authentication" gets \<open>05 FF\<close> and the
  handshake fails without waiting for a request; a request with another command gets, behind the
  answer to its greeting, the reply "unsupported command", and the handshake fails.
\<close>

theorem socks5_refusals:
  assumes "http_tokenizer hp" and "rwb_live b" and "seg_ok ss"
    and "length (auths g) < 256" and "greeting_write g = Inr gb"
    and "wire_request r" and "conn_request_write r = Inr rb" and "read_buf b @ concat ss = gb @ rb @ rest"
  shows "(AUTH_NO_PASSWORD \<notin> set (auths g) \<longrightarrow>
            handshaker_start hp b ss = ([5, 0xFF], Inl (Err ''Invalid socks auth method''))) \<and>
         (AUTH_NO_PASSWORD \<in> set (auths g) \<and> requested r = None \<longrightarrow>
            handshaker_start hp b ss = ([5, 0, 5, 7, 0, 1, 0, 0, 0, 0, 0, 0], Inl (Err ''Invalid socks5 command'')))"
proof -
  obtain b1 ss1 where g: "hs_loop hp Init b ss = Inr (Socks5Greeted \<lparr>ss_auths = auths g\<rparr>, b1, ss1)"
      "rwb_live b1" "seg_ok ss1" "read_buf b1 @ concat ss1 = rb @ rest"
    using after_greeting[OF assms(1-5,8)] by blast
  obtain b2 ss2 where r: "read_loop conn_request_parse b1 ss1 = Inr (length rb, r, b2, ss2)"
    using await_request[OF g(2,3) assms(6,7) g(4)] by blast
  have c: "conn_respond UNSUPPORTED_COMMAND default_address = Inr [5, 7, 0, 1, 0, 0, 0, 0, 0, 0]" by code_simp
  show ?thesis
    using g(1) r c by (auto simp: handshaker_start_def handshake_socks5_def greeting_respond_def requested_def
        AUTH_NOT_ACCEPTED_def AUTH_NO_PASSWORD_def split: if_splits)
qed

theorem socks5_refusals_witness:
  "handshaker_start demo_http (rwb_new (replicate 16 0)) [[5, 1], [2, 5, 1, 0], [1, 10, 0, 0, 1, 0, 80]] =
     ([5, 0xFF], Inl (Err ''Invalid socks auth method''))"
proof -
  let ?r = "\<lparr>conn_cmd = CONNECT_TCP, conn_address = IP (SockV4 0x0A000001 80)\<rparr>"
  have live: "rwb_live (rwb_new (replicate 16 0))" by (simp add: rwb_live_def rwb_new_def rwb_inv_def)
  have gw: "greeting_write \<lparr>auths = [2]\<rparr> = Inr [5, 1, 2]" by code_simp
  have rw: "conn_request_write ?r = Inr [5, 1, 0, 1, 10, 0, 0, 1, 0, 80]" by code_simp
  have wr: "wire_request ?r" by (simp add: wire_request_def)
  from socks5_refusals[OF demo_http_ok live _ _ gw wr rw, of "[[5, 1], [2, 5, 1, 0], [1, 10, 0, 0, 1, 0, 80]]" "[]"]
  show ?thesis by (simp add: seg_ok_def AUTH_NO_PASSWORD_def)
qed

end
