(* ===== verification/Geoip.thy ===== *)
theory Geoip
  imports Rust_Net Rust_Search
begin

text \<open>
  Country codes (src/geoip/country_code.rs) and the lookup of the country of an address by
  bisection in a table of ranges (src/geoip/mod.rs). The table is an argument; the program
  compiles it in.
\<close>

section \<open>Country codes\<close>

datatype country_code = CountryCode u8 u8

fun cc_slice :: "country_code \<Rightarrow> bytes" where
  "cc_slice (CountryCode a b) = [a, b]"

definition cc_eq :: "country_code \<Rightarrow> country_code \<Rightarrow> bool" where
  "cc_eq a b = eq_ignore_ascii_case (cc_slice a) (cc_slice b)"

text \<open>\<open>PartialEq<str>\<close>\<close>

definition cc_eq_str :: "country_code \<Rightarrow> rstr \<Rightarrow> bool" where
  "cc_eq_str c s = eq_ignore_ascii_case s (cc_slice c)"

definition cc_from_str :: "rstr \<Rightarrow> country_code res" where
  "cc_from_str s =
     (if length s \<noteq> 2 then Inl (Err ''Must be 2 bytes'')
      else if s ! 0 = 0 \<or> s ! 1 = 0 then Inl (Err ''out of range integral type conversion attempted'')
      else Inr (CountryCode (s ! 0) (s ! 1)))"

text \<open>\<open>Display\<close> writes each byte as the character of that number.\<close>

definition show_latin1 :: "u8 \<Rightarrow> rstr" where
  "show_latin1 b = (if b < 128 then [b] else [0xC0 OR drop_bit 6 b, 0x80 OR (b AND 0x3F)])"

fun show_cc :: "country_code \<Rightarrow> rstr" where
  "show_cc (CountryCode a b) = show_latin1 a @ show_latin1 b"

section \<open>The table\<close>

record geo_record =
  geo_start :: u32
  geo_end :: u32
  geo_cc :: country_code

text \<open>\<open>load_ip_dat\<close>: as many ten-byte records as fit; what is left over is ignored.\<close>

fun load_ip_dat :: "bytes \<Rightarrow> geo_record list" where
  "load_ip_dat raw =
     (if length raw < 10 then []
      else \<lparr>geo_start = from_be (take 4 raw), geo_end = from_be (take 4 (drop 4 raw)),
            geo_cc = CountryCode (raw ! 8) (raw ! 9)\<rparr> # load_ip_dat (drop 10 raw))"

declare load_ip_dat.simps [simp del]

definition find_geoip :: "geo_record list \<Rightarrow> ip_addr \<Rightarrow> country_code option" where
  "find_geoip records ip =
     (case ip of
        IpV4 needle \<Rightarrow>
          (case binary_search_by_key geo_start needle records of
             Inr i \<Rightarrow> Some (geo_cc (records ! i))
           | Inl i \<Rightarrow>
               if i > 0 \<and> geo_start (records ! (i - 1)) \<le> needle \<and> needle \<le> geo_end (records ! (i - 1))
               then Some (geo_cc (records ! (i - 1)))
               else None)
      | IpV6 _ \<Rightarrow> None)"

section \<open>Lemmas\<close>

text \<open>Ranges in order, none empty, none overlapping the next.\<close>

definition geo_ok :: "geo_record list \<Rightarrow> bool" where
  "geo_ok rs \<longleftrightarrow> list_all (\<lambda>r. geo_start r \<le> geo_end r) rs \<and> sorted_wrt (\<lambda>a b. geo_end a < geo_start b) rs"

definition geo_contains :: "u32 \<Rightarrow> geo_record \<Rightarrow> bool" where
  "geo_contains ip r \<longleftrightarrow> geo_start r \<le> ip \<and> ip \<le> geo_end r"

text \<open>The reference: the first range that contains the address.\<close>

definition geo_spec :: "geo_record list \<Rightarrow> u32 \<Rightarrow> country_code option" where
  "geo_spec rs ip = map_option geo_cc (find (geo_contains ip) rs)"

lemma geo_ok_sorted: "geo_ok rs \<Longrightarrow> sorted_wrt (<) (map geo_start rs)"
  by (induction rs) (fastforce simp: geo_ok_def)+

lemma geo_ok_append:
  "geo_ok (xs @ y # zs) \<Longrightarrow> (\<forall>x \<in> set xs. geo_end x < geo_start y) \<and> geo_start y \<le> geo_end y \<and>
     (\<forall>z \<in> set zs. geo_end y < geo_start z)"
  by (auto simp: geo_ok_def sorted_wrt_append)

lemma find_append_none: "(\<And>x. x \<in> set xs \<Longrightarrow> \<not> P x) \<Longrightarrow> find P (xs @ ys) = find P ys"
  by (induction xs) auto

lemma find_none: "(\<And>x. x \<in> set xs \<Longrightarrow> \<not> P x) \<Longrightarrow> find P xs = None"
  by (induction xs) auto

lemma find_geoip_v4:
  assumes "geo_ok rs"
  shows "find_geoip rs (IpV4 ip) = geo_spec rs ip"
proof (cases "binary_search_by_key geo_start ip rs")
  case (Inr p)
  obtain xs y zs where m: "rs = xs @ y # zs" "length xs = p" "geo_start y = ip"
      "\<And>x. x \<in> set xs \<Longrightarrow> geo_start x < ip"
    using bsearch_Ok_split[OF Inr geo_ok_sorted[OF assms]] by metis
  have y: "\<forall>x \<in> set xs. geo_end x < ip" "geo_contains ip y"
    using geo_ok_append assms m by (auto simp: geo_contains_def)
  have "find (geo_contains ip) (xs @ y # zs) = Some y"
    using y by (subst find_append_none) (auto simp: geo_contains_def)
  then show ?thesis using Inr m by (auto simp: find_geoip_def geo_spec_def nth_append)
next
  case (Inl i)
  obtain xs zs where m: "rs = xs @ zs" "length xs = i"
      "\<And>x. x \<in> set xs \<Longrightarrow> geo_start x < ip" "\<And>x. x \<in> set zs \<Longrightarrow> ip < geo_start x"
    using bsearch_Err_split[OF Inl strict_sorted_imp_sorted[OF geo_ok_sorted[OF assms]]] by metis
  have zs: "find (geo_contains ip) zs = None"
    using m(4) by (intro find_none) (force simp: geo_contains_def)
  show ?thesis
  proof (cases xs rule: rev_cases)
    case Nil
    then show ?thesis using Inl m zs by (simp add: find_geoip_def geo_spec_def)
  next
    case (snoc ys y)
    have ys: "\<forall>x \<in> set ys. geo_end x < geo_start y" "geo_start y < ip"
      using geo_ok_append[of ys y zs] assms m snoc by auto
    have "find (geo_contains ip) rs = find (geo_contains ip) (y # zs)"
      using ys m(1) snoc find_append_none[of ys "geo_contains ip" "y # zs"] by (fastforce simp: geo_contains_def)
    then show ?thesis
      using Inl m zs snoc ys(2) by (auto simp: find_geoip_def geo_spec_def geo_contains_def nth_append)
  qed
qed

section \<open>Properties\<close>



end
