(* ===== verification/Rules.thy ===== *)
theory Rules
  imports Socks5_Addr Geoip Sniff
begin

text \<open>
  The rule engine (src/rule.rs) that decides for each connection whether it is proxied, by which
  upstream, or rejected: destinations, the parsers of rules and rule tables, matching, and the
  execution of tables with jumps. Regular expressions (src/pattern.rs), host lists, IP networks
  and the command line parser for one rule are parameters, gathered in \<open>rule_env\<close>.
\<close>

section \<open>Data\<close>

datatype host_list = GfwList | AdblockList

text \<open>A pattern is its text; \<open>Eq\<close> compares texts, so the compiled expression is left implicit.\<close>

datatype host_match = PatternMatch rstr | HostList host_list

datatype ip_network = IpNetwork ip_addr nat

datatype rule_destination =
    GeoIP country_code | Network ip_network | Port u16 | Domain host_match | DnsHost host_match

datatype rule_protocol = Tcp | Udp

datatype rule_action = Proxy rstr | ProxyGroup rstr | Reject | Jump rstr | Return

datatype table_result = TProxy rstr | TProxyGroup rstr | TReject | TReturn

datatype execution_result = RProxy rstr | RProxyGroup rstr | RReject

record rule =
  r_dest :: "rule_destination list"
  r_proto :: "rule_protocol option"
  r_action :: rule_action

record rule_string =
  rs_text :: rstr
  rs_rules :: "rstr \<rightharpoonup> rule list"

datatype packet_destination =
    PdIP socket_addr "country_code option" "rstr list"
  | PdDomain rstr u16 "(country_code option \<times> ip_addr) list"

record rule_env =
  env_regex_ok :: "rstr \<Rightarrow> bool"
  env_regex :: "rstr \<Rightarrow> rstr \<Rightarrow> bool"
  env_list :: "host_list \<Rightarrow> address \<Rightarrow> bool"
  env_network_parse :: "rstr \<Rightarrow> ip_network option"
  env_network :: "ip_network \<Rightarrow> ip_addr \<Rightarrow> bool"
  env_dns :: "bytes \<Rightarrow> dns_packet option"
  env_tls :: "bytes \<Rightarrow> rstr option"

section \<open>Parsing\<close>

definition pattern_from_str :: "rule_env \<Rightarrow> rstr \<Rightarrow> host_match res" where
  "pattern_from_str E s = (if env_regex_ok E s then Inr (PatternMatch s) else Inl (Err ''regex''))"

definition host_match_from_str :: "rule_env \<Rightarrow> rstr \<Rightarrow> host_match res" where
  "host_match_from_str E s =
     (let splits = split_on 58 s
      in case (nth_opt splits 0, nth_opt splits 1) of
           (Some n, Some v) \<Rightarrow>
             if n = lit ''list'' \<and> v = lit ''gfw'' then Inr (HostList GfwList)
             else if n = lit ''list'' \<and> v = lit ''adblock'' then Inr (HostList AdblockList)
             else if n = lit ''matches'' then pattern_from_str E v
             else Inl (Err ''Invalid host match string'')
         | _ \<Rightarrow> Inl (Err ''Invalid host match string''))"

definition destination_from_str :: "rule_env \<Rightarrow> rstr \<Rightarrow> rule_destination res" where
  "destination_from_str E s =
     (let (name, args) = (case split_once 58 s of Some p \<Rightarrow> p | None \<Rightarrow> (s, []))
      in if name = lit ''geoip'' then
           and_then (in_context ''Parsing args into country code'' (cc_from_str args)) (\<lambda>c. Inr (GeoIP c))
         else if name = lit ''network'' then
           and_then (ok_or ''Parsing args into network'' (env_network_parse E args)) (\<lambda>n. Inr (Network n))
         else if name = lit ''port'' then
           and_then (ok_or ''Parsing args into port'' (parse_u16 args)) (\<lambda>p. Inr (Port p))
         else if name = lit ''domain'' then
           and_then (in_context ''Parsing args into domain'' (host_match_from_str E args)) (\<lambda>h. Inr (Domain h))
         else if name = lit ''dnshost'' then
           and_then (in_context ''Parsing args into dnshost'' (host_match_from_str E args)) (\<lambda>h. Inr (DnsHost h))
         else Inl (Err ''Unknown rule''))"

definition action_from_str :: "rstr \<Rightarrow> rule_action res" where
  "action_from_str s =
     (let splits = split_on 58 s
      in case (nth_opt splits 0, nth_opt splits 1) of
           (Some n, Some v) \<Rightarrow>
             if eq_ignore_ascii_case n (lit ''proxy'') then Inr (Proxy v)
             else if eq_ignore_ascii_case n (lit ''proxygroup'') then Inr (ProxyGroup v)
             else if eq_ignore_ascii_case n (lit ''jump'') then Inr (Jump v)
             else Inl (Err ''Unknown rule action'')
         | (Some n, None) \<Rightarrow>
             if eq_ignore_ascii_case n (lit ''reject'') then Inr Reject
             else if eq_ignore_ascii_case n (lit ''return'') then Inr Return
             else Inl (Err ''Unknown rule action'')
         | _ \<Rightarrow> Inl (Err ''Unknown rule action''))"

text \<open>
  The loop of \<open>parse_rules\<close> over the lines; \<open>clap\<close> is \<open>Rule::try_parse_from\<close> on the words of a line.
\<close>

fun parse_lines ::
  "(rstr list \<Rightarrow> rule res) \<Rightarrow> rstr list \<Rightarrow> rstr option \<Rightarrow> (rstr \<rightharpoonup> rule list) \<Rightarrow> (rstr \<rightharpoonup> rule list) res" where
  "parse_lines clap [] last_name rulemap = Inr rulemap"
| "parse_lines clap (raw # lines) last_name rulemap =
     (let line = trim raw
      in if line = [] then parse_lines clap lines last_name rulemap
         else if starts_with line (lit ''#'') then parse_lines clap lines last_name rulemap
         else if ends_with line (lit '':'') then
           (let name = butlast line
            in if name = [] then Inl (Err ''Name line must not be empty'')
               else parse_lines clap lines (Some name) rulemap)
         else
           (case last_name of
              None \<Rightarrow> Inl (Err ''Expecting a table name before rules'')
            | Some name \<Rightarrow>
                and_then (in_context ''Parsing rule'' (clap (split_ascii_whitespace line))) (\<lambda>rule.
                  parse_lines clap lines last_name
                    (rulemap(name \<mapsto> (case rulemap name of Some rules \<Rightarrow> rules @ [rule] | None \<Rightarrow> [rule]))))))"

definition parse_rules :: "(rstr list \<Rightarrow> rule res) \<Rightarrow> rstr \<Rightarrow> (rstr \<rightharpoonup> rule list) res" where
  "parse_rules clap s = parse_lines clap (split_on 10 s) None Map.empty"

text \<open>\<open>Deserialize\<close> of \<open>RuleString\<close>\<close>

definition rule_string_deserialize :: "(rstr list \<Rightarrow> rule res) \<Rightarrow> rstr \<Rightarrow> rule_string res" where
  "rule_string_deserialize clap s =
     and_then (parse_rules clap s) (\<lambda>rules. Inr \<lparr>rs_text = s, rs_rules = rules\<rparr>)"

section \<open>Matching\<close>

fun pd_port :: "packet_destination \<Rightarrow> u16" where
  "pd_port (PdDomain h p ips) = p"
| "pd_port (PdIP a c hs) = sock_port a"

fun host_matches :: "rule_env \<Rightarrow> host_match \<Rightarrow> rstr \<Rightarrow> bool" where
  "host_matches E (PatternMatch p) s = env_regex E p s"
| "host_matches E (HostList l) s = env_list E l (Name s 80)"

fun domain_matches :: "rule_env \<Rightarrow> host_match \<Rightarrow> packet_destination \<Rightarrow> bytes option \<Rightarrow> bool" where
  "domain_matches E hm (PdDomain hostname p ips) initial_data = host_matches E hm hostname"
| "domain_matches E hm (PdIP a c resolved_host) initial_data =
     (case Option.bind initial_data extract_http_host_header of
        Some host \<Rightarrow> host_matches E hm host
      | None \<Rightarrow>
          (case Option.bind initial_data (env_tls E) of
             Some host \<Rightarrow> host_matches E hm host
           | None \<Rightarrow> list_ex (host_matches E hm) resolved_host))"

definition opt_cc_eq :: "country_code option \<Rightarrow> country_code \<Rightarrow> bool" where
  "opt_cc_eq o' c = (case o' of Some d \<Rightarrow> cc_eq d c | None \<Rightarrow> False)"

fun dest_matches :: "rule_env \<Rightarrow> rule_destination \<Rightarrow> packet_destination \<Rightarrow> bytes option \<Rightarrow> bool" where
  "dest_matches E (GeoIP c) (PdIP a code hs) d = opt_cc_eq code c"
| "dest_matches E (GeoIP c) (PdDomain h p ips) d = list_ex (\<lambda>(code, _). opt_cc_eq code c) ips"
| "dest_matches E (Network n) (PdIP a code hs) d = env_network E n (sock_ip a)"
| "dest_matches E (Network n) (PdDomain h p ips) d = list_ex (\<lambda>(_, ip). env_network E n ip) ips"
| "dest_matches E (Domain hm) dst d = domain_matches E hm dst d"
| "dest_matches E (Port p) dst d = (p = pd_port dst)"
| "dest_matches E (DnsHost hm) dst d =
     (pd_port dst = 53 \<and>
      (case d of
         None \<Rightarrow> False
       | Some data \<Rightarrow>
           (case dns_get_host_names (env_dns E) data of
              None \<Rightarrow> False
            | Some names \<Rightarrow> list_ex (host_matches E hm) names)))"

text \<open>The loop over the destinations of a rule, which all have to match, and its protocol.\<close>

fun dests_match :: "rule_env \<Rightarrow> rule_destination list \<Rightarrow> packet_destination \<Rightarrow> bytes option \<Rightarrow> bool" where
  "dests_match E [] t d = True"
| "dests_match E (x # xs) t d = (if dest_matches E x t d then dests_match E xs t d else False)"

definition rule_matches :: "rule_env \<Rightarrow> packet_destination \<Rightarrow> rule_protocol \<Rightarrow> bytes option \<Rightarrow> rule \<Rightarrow> bool" where
  "rule_matches E t proto d r =
     (dests_match E (r_dest r) t d \<and> \<not> (case r_proto r of Some p \<Rightarrow> p \<noteq> proto | None \<Rightarrow> False))"

section \<open>Execution\<close>

text \<open>
  The loop over the rules of a table; \<open>jump\<close> is the recursive call, \<open>hits\<close> tells which rules match.
\<close>

fun run_table :: "(rstr \<Rightarrow> table_result option) \<Rightarrow> (rule \<Rightarrow> bool) \<Rightarrow> rule list \<Rightarrow> table_result option" where
  "run_table jump hits [] = None"
| "run_table jump hits (r # rs) =
     (if \<not> hits r then run_table jump hits rs
      else case r_action r of
             Jump t \<Rightarrow> (case jump t of Some TReturn \<Rightarrow> run_table jump hits rs | v \<Rightarrow> v)
           | Proxy n \<Rightarrow> Some (TProxy n)
           | ProxyGroup n \<Rightarrow> Some (TProxyGroup n)
           | Reject \<Rightarrow> Some TReject
           | Return \<Rightarrow> Some TReturn)"

text \<open>\<open>execute_table\<close> with the depth limit as argument; the program's limit is ten.\<close>

function execute_table_lim :: "nat \<Rightarrow> (rstr \<rightharpoonup> rule list) \<Rightarrow> (rule \<Rightarrow> bool) \<Rightarrow> nat \<Rightarrow> rstr \<Rightarrow> table_result option" where
  "execute_table_lim L rules hits level name =
     (if level > L then None
      else case rules name of
             None \<Rightarrow> None
           | Some rs \<Rightarrow> run_table (\<lambda>t. execute_table_lim L rules hits (level + 1) t) hits rs)"
  by pat_completeness auto
termination
  by (relation "measure (\<lambda>(L, rules, hits, level, name). Suc L - level)") auto

declare execute_table_lim.simps [simp del]

definition execute_table ::
  "rule_env \<Rightarrow> rule_string \<Rightarrow> nat \<Rightarrow> rstr \<Rightarrow> packet_destination \<Rightarrow> rule_protocol \<Rightarrow> bytes option \<Rightarrow> table_result option" where
  "execute_table E R level name t proto d =
     execute_table_lim 10 (rs_rules R) (rule_matches E t proto d) level name"

definition execute_rules ::
  "rule_env \<Rightarrow> rule_string \<Rightarrow> packet_destination \<Rightarrow> rule_protocol \<Rightarrow> bytes option \<Rightarrow> execution_result option" where
  "execute_rules E R t proto d =
     (case execute_table E R 0 (lit ''main'') t proto d of
        Some (TProxy n) \<Rightarrow> Some (RProxy n)
      | Some (TProxyGroup n) \<Rightarrow> Some (RProxyGroup n)
      | Some TReject \<Rightarrow> Some RReject
      | Some TReturn \<Rightarrow> None
      | None \<Rightarrow> None)"

section \<open>What a rule set means\<close>

text \<open>
  The meaning of tables without a depth limit, as rules: scanning a table, a rule that does not
  match is skipped; a matching jump takes the verdict of the other table unless that is
  \<open>Return\<close>; a table without a verdict gives none.
\<close>

inductive scan :: "(rstr \<rightharpoonup> rule list) \<Rightarrow> (rule \<Rightarrow> bool) \<Rightarrow> rule list \<Rightarrow> table_result option \<Rightarrow> bool"
  for rules hits where
  scan_end: "scan rules hits [] None"
| scan_skip: "\<not> hits r \<Longrightarrow> scan rules hits rs v \<Longrightarrow> scan rules hits (r # rs) v"
| scan_proxy: "hits r \<Longrightarrow> r_action r = Proxy n \<Longrightarrow> scan rules hits (r # rs) (Some (TProxy n))"
| scan_group: "hits r \<Longrightarrow> r_action r = ProxyGroup n \<Longrightarrow> scan rules hits (r # rs) (Some (TProxyGroup n))"
| scan_reject: "hits r \<Longrightarrow> r_action r = Reject \<Longrightarrow> scan rules hits (r # rs) (Some TReject)"
| scan_return: "hits r \<Longrightarrow> r_action r = Return \<Longrightarrow> scan rules hits (r # rs) (Some TReturn)"
| scan_missing: "hits r \<Longrightarrow> r_action r = Jump t \<Longrightarrow> rules t = None \<Longrightarrow> scan rules hits (r # rs) None"
| scan_jump: "hits r \<Longrightarrow> r_action r = Jump t \<Longrightarrow> rules t = Some ts \<Longrightarrow> scan rules hits ts v \<Longrightarrow> v \<noteq> Some TReturn \<Longrightarrow>
    scan rules hits (r # rs) v"
| scan_resume: "hits r \<Longrightarrow> r_action r = Jump t \<Longrightarrow> rules t = Some ts \<Longrightarrow> scan rules hits ts (Some TReturn) \<Longrightarrow>
    scan rules hits rs v \<Longrightarrow> scan rules hits (r # rs) v"

text \<open>
  A rank that each jump lowers: tables do not call themselves, and the nesting below a table
  is at most its rank.
\<close>

definition ranked :: "(rstr \<rightharpoonup> rule list) \<Rightarrow> (rstr \<Rightarrow> nat) \<Rightarrow> bool" where
  "ranked rules rk \<longleftrightarrow> (\<forall>n rs r t. rules n = Some rs \<longrightarrow> r \<in> set rs \<longrightarrow> r_action r = Jump t \<longrightarrow> rk t < rk n)"

lemma run_table_scan:
  assumes "\<And>r t. r \<in> set rs \<Longrightarrow> r_action r = Jump t \<Longrightarrow>
      (case rules t of None \<Rightarrow> jump t = None | Some ts \<Rightarrow> scan rules hits ts (jump t))"
  shows "scan rules hits rs (run_table jump hits rs)"
  using assms
proof (induction rs)
  case Nil
  then show ?case by (simp add: scan_end)
next
  case (Cons r rs)
  have ih: "scan rules hits rs (run_table jump hits rs)"
    by (rule Cons.IH) (rule Cons.prems, simp_all)
  show ?case
  proof (cases "hits r")
    case False
    then show ?thesis using ih by (simp add: scan_skip)
  next
    case hit: True
    show ?thesis
    proof (cases "r_action r")
      case (Jump t)
      note j = Cons.prems[OF _ Jump]
      show ?thesis
      proof (cases "rules t")
        case None
        then show ?thesis using j hit Jump by (simp add: scan_missing)
      next
        case (Some ts)
        then have s: "scan rules hits ts (jump t)" using j by simp
        show ?thesis
        proof (cases "jump t = Some TReturn")
          case True
          then show ?thesis using hit Jump Some s ih by (auto intro: scan_resume)
        next
          case False
          then have "run_table jump hits (r # rs) = jump t"
            using hit Jump by (auto split: option.split table_result.split)
          then show ?thesis using scan_jump[OF hit Jump Some s False] by simp
        qed
      qed
    qed (simp_all add: hit scan_proxy scan_group scan_reject scan_return)
  qed
qed

lemma execute_table_scan:
  assumes "ranked rules rk" and "rules name = Some rs" and "level + rk name \<le> L"
  shows "scan rules hits rs (execute_table_lim L rules hits level name)"
  using assms(2,3)
proof (induction "rk name" arbitrary: name rs level rule: less_induct)
  case less
  let ?j = "execute_table_lim L rules hits (level + 1)"
  have "case rules t of None \<Rightarrow> ?j t = None | Some ts \<Rightarrow> scan rules hits ts (?j t)"
    if "r \<in> set rs" "r_action r = Jump t" for r t
  proof -
    have rk: "rk t < rk name" using assms(1) less.prems(1) that unfolding ranked_def by blast
    show ?thesis
    proof (cases "rules t")
      case None
      then show ?thesis by (simp add: execute_table_lim.simps)
    next
      case (Some ts)
      then show ?thesis using less.hyps[OF rk Some] rk less.prems(2) by simp
    qed
  qed
  then have "scan rules hits rs (run_table ?j hits rs)" by (rule run_table_scan)
  then show ?case using less.prems by (simp add: execute_table_lim.simps[of L rules hits level name])
qed

inductive_cases scan_NilE: "scan rules hits [] v"
inductive_cases scan_ConsE: "scan rules hits (r # rs) v"

lemma scan_deterministic: "scan rules hits rs v \<Longrightarrow> scan rules hits rs w \<Longrightarrow> v = w"
proof (induction arbitrary: w rule: scan.induct)
  case scan_end
  then show ?case by (auto elim: scan_NilE)
next
  case (scan_skip r rs v)
  show ?case using scan_skip.prems by (rule scan_ConsE) (use scan_skip.hyps scan_skip.IH in blast)+
next
  case (scan_jump r t ts v rs)
  show ?case
    using scan_jump.prems
  proof (rule scan_ConsE)
    fix t' assume "r_action r = Jump t'" "rules t' = None"
    then show ?thesis using scan_jump.hyps by simp
  next
    fix t' ts' assume "r_action r = Jump t'" "rules t' = Some ts'" "scan rules hits ts' w"
    then show ?thesis using scan_jump.hyps(2,3) by (intro scan_jump.IH) simp
  next
    fix t' ts' assume "r_action r = Jump t'" "rules t' = Some ts'" "scan rules hits ts' (Some TReturn)"
    then have "v = Some TReturn" using scan_jump.hyps(2,3) by (intro scan_jump.IH) simp
    then show ?thesis using scan_jump.hyps(5) by blast
  qed (use scan_jump.hyps in auto)
next
  case (scan_resume r t ts rs v)
  show ?case
    using scan_resume.prems
  proof (rule scan_ConsE)
    fix t' assume "r_action r = Jump t'" "rules t' = None"
    then show ?thesis using scan_resume.hyps by simp
  next
    fix t' ts' assume "r_action r = Jump t'" "rules t' = Some ts'" "scan rules hits ts' w" "w \<noteq> Some TReturn"
    then have "Some TReturn = w" using scan_resume.hyps(2,3) by (intro scan_resume.IH(1)) simp
    then show ?thesis using \<open>w \<noteq> Some TReturn\<close> by blast
  next
    fix t' ts' assume "r_action r = Jump t'" "scan rules hits ts' (Some TReturn)" "scan rules hits rs w"
    then show ?thesis by (intro scan_resume.IH(2))
  qed (use scan_resume.hyps in auto)
qed (auto elim!: scan_ConsE)

lemma dests_match_all: "dests_match E ds t d \<longleftrightarrow> list_all (\<lambda>x. dest_matches E x t d) ds"
  by (induction ds) auto

lemma scan_total:
  assumes "ranked rules rk" and "rules name = Some rs"
  shows "\<exists>v. scan rules hits rs v"
  using execute_table_scan[OF assms, of 0 "rk name"] by auto

section \<open>Properties\<close>

text \<open>
  C11: The engine implements the meaning of the rule tables: for tables whose jumps are not nested
  deeper than ten levels below \<open>main\<close>, the executed verdict is the one (and only) verdict that the
  unlimited meaning gives to \<open>main\<close>, for every destination, protocol and initial data.
\<close>

theorem execute_rules_meaning:
  assumes "ranked (rs_rules R) rk" and "rk (lit ''main'') \<le> 10" and "rs_rules R (lit ''main'') = Some rs"
  shows "scan (rs_rules R) (rule_matches E t proto d) rs v \<longleftrightarrow> execute_table E R 0 (lit ''main'') t proto d = v"
proof -
  have "scan (rs_rules R) (rule_matches E t proto d) rs (execute_table E R 0 (lit ''main'') t proto d)"
    unfolding execute_table_def using execute_table_scan[OF assms(1,3), of 0 10] assms(2) by simp
  then show ?thesis using scan_deterministic by blast
qed

definition demo_env :: rule_env where
  "demo_env = \<lparr>env_regex_ok = (\<lambda>_. True), env_regex = (\<lambda>p s. p = s), env_list = (\<lambda>l a. False),
     env_network_parse = (\<lambda>_. None), env_network = (\<lambda>n a. False), env_dns = (\<lambda>_. None), env_tls = (\<lambda>_. None)\<rparr>"

definition demo_rules :: rule_string where
  "demo_rules = \<lparr>rs_text = [], rs_rules =
     [lit ''main'' \<mapsto> [\<lparr>r_dest = [Port 443], r_proto = Some Tcp, r_action = Jump (lit ''nz'')\<rparr>, \<lparr>r_dest = [], r_proto = None, r_action = Reject\<rparr>],
      lit ''nz'' \<mapsto> [\<lparr>r_dest = [], r_proto = Some Udp, r_action = Return\<rparr>, \<lparr>r_dest = [], r_proto = None, r_action = ProxyGroup (lit ''group'')\<rparr>]]\<rparr>"

definition demo_rank :: "rstr \<Rightarrow> nat" where
  "demo_rank n = (if n = lit ''main'' then 1 else 0)"

lemma demo_ranked: "ranked (rs_rules demo_rules) demo_rank"
proof -
  have "lit ''nz'' \<noteq> lit ''main''" by code_simp
  then show ?thesis by (auto simp: ranked_def demo_rules_def demo_rank_def split: if_splits)
qed

theorem execute_rules_meaning_witness:
  "scan (rs_rules demo_rules) (rule_matches demo_env (PdIP (SockV4 1 443) None []) Tcp None)
     (the (rs_rules demo_rules (lit ''main''))) (Some (TProxyGroup (lit ''group'')))"
proof -
  have main: "rs_rules demo_rules (lit ''main'') = Some (the (rs_rules demo_rules (lit ''main'')))" by code_simp
  have "execute_table demo_env demo_rules 0 (lit ''main'') (PdIP (SockV4 1 443) None []) Tcp None =
      Some (TProxyGroup (lit ''group''))" by code_simp
  then show ?thesis
    using execute_rules_meaning[OF demo_ranked _ main] by (simp add: demo_rank_def)
qed

text \<open>
  A jump to a table that gives no verdict (it has no matching rule, or does not exist) ends the
  evaluation without a verdict: the rules after the jump are not consulted. Only an explicit
  \<open>Return\<close> resumes the calling table.
\<close>

theorem jump_without_verdict_ends:
  assumes "rs_rules R (lit ''main'') = Some (pre @ r # post)"
    and "\<forall>x \<in> set pre. \<not> rule_matches E t proto d x" and "rule_matches E t proto d r"
    and "r_action r = Jump table"
    and "case rs_rules R table of None \<Rightarrow> True | Some rs \<Rightarrow> (\<forall>x \<in> set rs. \<not> rule_matches E t proto d x)"
  shows "execute_rules E R t proto d = None"
proof -
  have skip: "run_table j h (xs @ ys) = run_table j h ys" if "\<forall>x \<in> set xs. \<not> h x" for j h xs ys
    using that by (induction xs) auto
  have none: "execute_table_lim 10 (rs_rules R) (rule_matches E t proto d) 1 table = None"
    using assms(5) skip[of _ _ _ "[]"]
    by (subst execute_table_lim.simps) (auto split: option.splits)
  have "execute_table E R 0 (lit ''main'') t proto d = None"
    unfolding execute_table_def
    using assms(1-4) none skip[of pre]
    by (subst execute_table_lim.simps) simp
  then show ?thesis by (simp add: execute_rules_def)
qed

theorem jump_without_verdict_ends_witness:
  "execute_rules demo_env \<lparr>rs_text = [], rs_rules = [lit ''main'' \<mapsto>
       [\<lparr>r_dest = [], r_proto = None, r_action = Jump (lit ''x'')\<rparr>, \<lparr>r_dest = [], r_proto = None, r_action = Reject\<rparr>]]\<rparr>
     (PdIP (SockV4 1 443) None []) Tcp None = None"
proof -
  have "lit ''x'' \<noteq> lit ''main''" by code_simp
  then show ?thesis
    using jump_without_verdict_ends[of "\<lparr>rs_text = [], rs_rules = [lit ''main'' \<mapsto>
       [\<lparr>r_dest = [], r_proto = None, r_action = Jump (lit ''x'')\<rparr>, \<lparr>r_dest = [], r_proto = None, r_action = Reject\<rparr>]]\<rparr>" "[]"
       "\<lparr>r_dest = [], r_proto = None, r_action = Jump (lit ''x'')\<rparr>" "[\<lparr>r_dest = [], r_proto = None, r_action = Reject\<rparr>]"
       demo_env "PdIP (SockV4 1 443) None []" Tcp None "lit ''x''"]
    by (simp add: rule_matches_def)
qed

end
