(* ===== verification/Upstreams.thy ===== *)
theory Upstreams
  imports Rules "HOL-Library.Multiset"
begin

text \<open>
  The choice of an upstream: the configuration (src/config.rs), the statistics with their shared
  counters (src/client/stats.rs, src/counter.rs), the traffic types each protocol carries
  (src/protocol) and the loop that tries the chosen upstreams (src/client/common.rs).

  Counters are shared between the statistics, their copies and the running connections, so a
  statistics entry holds references into a store of counters. The maps of the configuration are
  association lists in the iteration order of the hash map, which the code leaves open.
\<close>

section \<open>Counters\<close>

text \<open>\<open>Counter\<close> is an atomic \<open>usize\<close> behind an \<open>Arc\<close>; \<open>inc\<close> wraps around.\<close>

type_synonym u64 = "64 word"

type_synonym counter_ref = nat

record counters =
  ct_value :: "counter_ref \<Rightarrow> u64"
  ct_next :: counter_ref

definition counter_get :: "counter_ref \<Rightarrow> counters \<Rightarrow> u64" where
  "counter_get r h = ct_value h r"

definition counter_set :: "counter_ref \<Rightarrow> u64 \<Rightarrow> counters \<Rightarrow> counters" where
  "counter_set r v h = h\<lparr>ct_value := (ct_value h)(r := v)\<rparr>"

definition counter_inc :: "counter_ref \<Rightarrow> u64 \<Rightarrow> counters \<Rightarrow> counters" where
  "counter_inc r v h = h\<lparr>ct_value := (ct_value h)(r := ct_value h r + v)\<rparr>"

definition counter_default :: "counters \<Rightarrow> counter_ref \<times> counters" where
  "counter_default h = (ct_next h, \<lparr>ct_value = (ct_value h)(ct_next h := 0), ct_next = ct_next h + 1\<rparr>)"

text \<open>The number written by \<open>serialize\<close>, and \<open>deserialize\<close>, which reads a \<open>u32\<close>.\<close>

definition counter_serialize :: "counter_ref \<Rightarrow> counters \<Rightarrow> nat" where
  "counter_serialize r h = unat (counter_get r h)"

definition counter_deserialize :: "nat \<Rightarrow> counters \<Rightarrow> (counter_ref \<times> counters) res" where
  "counter_deserialize n h =
     (if n < 2 ^ 32
      then (let (r, h') = counter_default h in Inr (r, counter_set r (of_nat n) h'))
      else Inl (Err ''invalid value''))"

section \<open>Protocols and configuration\<close>

datatype traffic_type = Stream | Datagram

record credentials =
  cr_username :: rstr
  cr_password :: rstr

datatype upstream_protocol =
    UdpMan address
  | TcpMan address bool bool "credentials option"
  | Socks5Proxy address bool
  | Direct
  | FireTcp address rstr
  | HttpProxy address bool "rstr option"

fun supports :: "upstream_protocol \<Rightarrow> traffic_type \<Rightarrow> bool" where
  "supports (UdpMan a) t = (t = Datagram)"
| "supports (TcpMan a ssl allows_udp c) t = (case (t, allows_udp) of (Datagram, False) \<Rightarrow> False | _ \<Rightarrow> True)"
| "supports Direct t = True"
| "supports (Socks5Proxy a supports_udp) t = (case t of Stream \<Rightarrow> True | Datagram \<Rightarrow> supports_udp)"
| "supports (FireTcp a pw) t = (t = Stream)"
| "supports (HttpProxy a ssl auth) t = (t = Stream)"

record upstream_config =
  uc_protocol :: upstream_protocol
  uc_groups :: "rstr set option"
  uc_enabled :: bool

record client_config =
  cc_upstreams :: "(rstr \<times> upstream_config) list"
  cc_socks5_address :: socket_addr
  cc_socks5_udp_host :: ip_addr
  cc_fwmark :: "u32 option"
  cc_udp_tproxy_address :: "socket_addr option"
  cc_traffic_rules :: rule_string
  cc_set_router_rules :: bool

definition default_config :: client_config where
  "default_config =
     \<lparr>cc_upstreams = [], cc_socks5_address = SockV4 0x7F000001 5000, cc_socks5_udp_host = IpV4 0,
      cc_fwmark = None, cc_udp_tproxy_address = None,
      cc_traffic_rules = \<lparr>rs_text = [], rs_rules = Map.empty\<rparr>, cc_set_router_rules = False\<rparr>"

section \<open>Statistics\<close>

record upstream_statistics =
  us_tx :: counter_ref
  us_rx :: counter_ref
  us_last_activity :: counter_ref
  us_last_latency :: counter_ref

type_synonym client_statistics = "rstr \<rightharpoonup> upstream_statistics"

definition stats_default :: "counters \<Rightarrow> upstream_statistics \<times> counters" where
  "stats_default h =
     (let (a, h) = counter_default h; (b, h) = counter_default h;
          (c, h) = counter_default h; (d, h) = counter_default h
      in (\<lparr>us_tx = a, us_rx = b, us_last_activity = c, us_last_latency = d\<rparr>, h))"

fun stats_new :: "(rstr \<times> upstream_config) list \<Rightarrow> counters \<Rightarrow> client_statistics \<times> counters" where
  "stats_new [] h = (Map.empty, h)"
| "stats_new ((n, c) # us) h =
     (let (s, h) = stats_default h; (m, h) = stats_new us h in (m(n \<mapsto> s), h))"

text \<open>\<open>now\<close> is the clock in seconds, \<open>latency\<close> a duration in milliseconds.\<close>

definition update_upstream :: "nat \<Rightarrow> client_statistics \<Rightarrow> rstr \<Rightarrow> nat \<Rightarrow> counters \<Rightarrow> counters" where
  "update_upstream now stats name latency h =
     (case stats name of
        Some s \<Rightarrow> counter_set (us_last_latency s) (of_nat latency) (counter_set (us_last_activity s) (of_nat now) h)
      | None \<Rightarrow> h)"

text \<open>\<open>get_protocol_stats\<close>: the receive and transmit counters handed to a protocol.\<close>

definition get_protocol_stats :: "client_statistics \<Rightarrow> rstr \<Rightarrow> (counter_ref \<times> counter_ref) option" where
  "get_protocol_stats stats name = map_option (\<lambda>s. (us_rx s, us_tx s)) (stats name)"

section \<open>Finding upstreams\<close>

definition calc_last_visit_score :: "nat \<Rightarrow> counters \<Rightarrow> client_statistics \<Rightarrow> rstr \<Rightarrow> nat" where
  "calc_last_visit_score now h stats name =
     (case stats name of
        Some stat \<Rightarrow>
          (let last = unat (counter_get (us_last_activity stat) h); d = (if last \<le> now then now - last else 0)
           in if d < 2 ^ 16 then d else 2 ^ 16 - 1)
      | None \<Rightarrow> 2 ^ 16 - 1)"

text \<open>What the choice reads from its surroundings: the rule matchers, the GeoIP table, the DNS cache.\<close>

record routing_env =
  re_rules :: rule_env
  re_geoip :: "geo_record list"
  re_dns :: dns_cache

fun packet_dest :: "routing_env \<Rightarrow> address \<Rightarrow> packet_destination" where
  "packet_dest R (IP a) =
     PdIP a (find_geoip (re_geoip R) (sock_ip a)) (case dns_get (re_dns R) (sock_ip a) of Some h \<Rightarrow> [h] | None \<Rightarrow> [])"
| "packet_dest R (Name h p) = PdDomain h p []"

fun traffic_rule_protocol :: "traffic_type \<Rightarrow> rule_protocol" where
  "traffic_rule_protocol Datagram = Udp"
| "traffic_rule_protocol Stream = Tcp"

definition in_group :: "rstr \<Rightarrow> upstream_config \<Rightarrow> bool" where
  "in_group name c = (case uc_groups c of Some groups \<Rightarrow> name \<in> groups | None \<Rightarrow> True)"

definition scored_upstreams ::
  "(rstr \<Rightarrow> nat) \<Rightarrow> client_config \<Rightarrow> traffic_type \<Rightarrow> execution_result option \<Rightarrow> (rstr \<times> upstream_config \<times> nat) list" where
  "scored_upstreams score cfg t action =
     (case action of
        None \<Rightarrow>
          map (\<lambda>(n, c). (n, c, score n))
            (filter (\<lambda>(n, c). \<not> (\<not> supports (uc_protocol c) t \<or> \<not> uc_enabled c)) (cc_upstreams cfg))
      | Some (RProxy name) \<Rightarrow>
          (case map_of (cc_upstreams cfg) name of
             Some c \<Rightarrow> if uc_enabled c then [(name, c, 0)] else []
           | None \<Rightarrow> [])
      | Some (RProxyGroup name) \<Rightarrow>
          map (\<lambda>(n, c). (n, c, score n))
            (filter (\<lambda>(n, c). \<not> (\<not> supports (uc_protocol c) t \<or> \<not> uc_enabled c) \<and> in_group name c) (cc_upstreams cfg))
      | Some RReject \<Rightarrow> [])"

definition find_best_upstream ::
  "routing_env \<Rightarrow> nat \<Rightarrow> counters \<Rightarrow> client_config \<Rightarrow> traffic_type \<Rightarrow> client_statistics \<Rightarrow> address \<Rightarrow> bytes option \<Rightarrow>
   (rstr \<times> upstream_config) list" where
  "find_best_upstream R now h cfg t stats target initial_data =
     (let action = execute_rules (re_rules R) (cc_traffic_rules cfg) (packet_dest R target) (traffic_rule_protocol t) initial_data;
          upstreams = scored_upstreams (calc_last_visit_score now h stats) cfg t action
      in map (\<lambda>(n, c, _). (n, c)) (sort_key (\<lambda>(_, _, score). score) upstreams))"

section \<open>Connecting\<close>

text \<open>
  The loop of \<open>find_and_connect_stream\<close> takes the upstreams from the end of the vector.
  \<open>attempt\<close> is the outcome of \<open>new_stream\<close> with its latency in milliseconds; an upstream is tried at
  most once. The counters and the list of the names tried are returned with the result.
\<close>

fun try_upstreams ::
  "nat \<Rightarrow> client_statistics \<Rightarrow> (rstr \<Rightarrow> upstream_config \<Rightarrow> ('s \<times> nat) res) \<Rightarrow> (rstr \<times> upstream_config) list \<Rightarrow>
   fault option \<Rightarrow> counters \<Rightarrow> rstr list \<times> 's res \<times> counters" where
  "try_upstreams now stats attempt [] last_error h =
     ([], Inl (case last_error of Some e \<Rightarrow> e | None \<Rightarrow> Err ''No upstream available''), h)"
| "try_upstreams now stats attempt ((name, c) # us) last_error h =
     (case in_context ''Requesting new streaming connection'' (attempt name c) of
        Inr (upstream, latency) \<Rightarrow> ([name], Inr upstream, update_upstream now stats name latency h)
      | Inl (Panic p) \<Rightarrow> ([name], Inl (Panic p), h)
      | Inl err \<Rightarrow>
          (case try_upstreams now stats attempt us (Some err) h of (tried, r) \<Rightarrow> (name # tried, r)))"

definition find_and_connect_stream ::
  "routing_env \<Rightarrow> nat \<Rightarrow> (rstr \<Rightarrow> upstream_config \<Rightarrow> ('s \<times> nat) res) \<Rightarrow> address \<Rightarrow> bytes option \<Rightarrow> client_config \<Rightarrow>
   client_statistics \<Rightarrow> counters \<Rightarrow> rstr list \<times> 's res \<times> counters" where
  "find_and_connect_stream R now attempt dst initial_data cfg stats h =
     try_upstreams now stats attempt (rev (find_best_upstream R now h cfg Stream stats dst initial_data)) None h"

section \<open>Lemmas\<close>

text \<open>The upstreams a verdict of the rules admits.\<close>

definition eligible :: "traffic_type \<Rightarrow> execution_result option \<Rightarrow> rstr \<Rightarrow> upstream_config \<Rightarrow> bool" where
  "eligible t action n c \<longleftrightarrow> uc_enabled c \<and>
     (case action of
        None \<Rightarrow> supports (uc_protocol c) t
      | Some (RProxy m) \<Rightarrow> n = m
      | Some (RProxyGroup g) \<Rightarrow> supports (uc_protocol c) t \<and> in_group g c
      | Some RReject \<Rightarrow> False)"

abbreviation verdict :: "routing_env \<Rightarrow> client_config \<Rightarrow> traffic_type \<Rightarrow> address \<Rightarrow> bytes option \<Rightarrow> execution_result option" where
  "verdict R cfg t target d \<equiv>
     execute_rules (re_rules R) (cc_traffic_rules cfg) (packet_dest R target) (traffic_rule_protocol t) d"

abbreviation strip_score :: "rstr \<times> upstream_config \<times> nat \<Rightarrow> rstr \<times> upstream_config" where
  "strip_score \<equiv> \<lambda>(n, c, _). (n, c)"

lemma scored_upstreams_set:
  assumes "distinct (map fst (cc_upstreams cfg))"
  shows "strip_score ` set (scored_upstreams score cfg t action) = {(n, c). (n, c) \<in> set (cc_upstreams cfg) \<and> eligible t action n c}"
proof (cases action)
  case (Some v)
  then show ?thesis
    using assms by (cases v) (force simp: scored_upstreams_def eligible_def dest: map_of_SomeD split: option.splits if_splits)+
qed (force simp: scored_upstreams_def eligible_def)

lemma scored_upstreams_distinct:
  assumes "distinct (map fst (cc_upstreams cfg))"
  shows "distinct (map fst (scored_upstreams score cfg t action))"
proof -
  have "map fst (map (\<lambda>(n, c). (n, c, score n)) us) = map fst us" for us :: "(rstr \<times> upstream_config) list"
    by (induction us) auto
  then show ?thesis
    using assms distinct_map_filter
    by (auto simp: scored_upstreams_def simp del: map_map split: option.splits execution_result.splits)
qed

lemma scored_upstreams_score:
  "(n, c, k) \<in> set (scored_upstreams score cfg t action) \<Longrightarrow> (\<exists>m. action = Some (RProxy m)) \<or> k = score n"
  by (auto simp: scored_upstreams_def split: option.splits execution_result.splits if_splits)

lemma scored_upstreams_proxy: "length (scored_upstreams score cfg t (Some (RProxy m))) \<le> 1"
  by (simp add: scored_upstreams_def split: option.splits)

text \<open>The answer of \<open>find_best_upstream\<close>: exactly the eligible upstreams, once each, by ascending score.\<close>

lemma find_best_upstream_laws:
  assumes "distinct (map fst (cc_upstreams cfg))" and us_def: "us = find_best_upstream R now h cfg t stats target d"
  shows "set us = {(n, c). (n, c) \<in> set (cc_upstreams cfg) \<and> eligible t (verdict R cfg t target d) n c}"
    and "distinct (map fst us)"
    and "sorted (map (\<lambda>(n, c). calc_last_visit_score now h stats n) us)"
proof -
  define a where "a = verdict R cfg t target d"
  define sc where "sc = scored_upstreams (calc_last_visit_score now h stats) cfg t a"
  define so where "so = sort_key (\<lambda>(_, _, score). score) sc"
  have us: "us = map strip_score so" by (simp add: us_def find_best_upstream_def a_def sc_def so_def Let_def)
  have "set us = strip_score ` set sc" by (simp add: us so_def)
  then show "set us = {(n, c). (n, c) \<in> set (cc_upstreams cfg) \<and> eligible t (verdict R cfg t target d) n c}"
    using scored_upstreams_set[OF assms(1)] by (simp add: sc_def a_def)
  have mf: "map fst us = map fst so" by (auto simp: us)
  have "distinct (map fst sc)" using scored_upstreams_distinct[OF assms(1)] by (simp add: sc_def)
  moreover have "mset (map fst so) = mset (map fst sc)" by (simp only: so_def mset_map mset_sort)
  ultimately show "distinct (map fst us)" unfolding mf by (metis mset_eq_imp_distinct_iff)
  have "sorted (map (\<lambda>(_, _, score). score) so)" by (simp add: so_def)
  moreover have "map (\<lambda>(n, c). calc_last_visit_score now h stats n) us = map (\<lambda>(_, _, score). score) so \<or> length us \<le> 1"
  proof (cases "\<exists>m. a = Some (RProxy m)")
    case True
    then have "length sc \<le> 1" using scored_upstreams_proxy by (auto simp: sc_def)
    then show ?thesis by (simp add: us so_def)
  next
    case False
    then have "\<forall>x \<in> set so. calc_last_visit_score now h stats (fst x) = snd (snd x)"
      using scored_upstreams_score by (fastforce simp: so_def sc_def)
    then show ?thesis by (auto simp: us split: prod.splits)
  qed
  moreover have "sorted (map (\<lambda>(n, c). calc_last_visit_score now h stats n) us)" if "length us \<le> 1"
    using that by (cases us) auto
  ultimately show "sorted (map (\<lambda>(n, c). calc_last_visit_score now h stats n) us)" by metis
qed

lemma first_ok_split:
  assumes "\<exists>(n, c) \<in> set us. is_ok (attempt n c)"
  obtains pre n c post where "us = pre @ (n, c) # post" "is_ok (attempt n c)" "\<forall>(m, d) \<in> set pre. \<not> is_ok (attempt m d)"
proof -
  have "\<exists>x \<in> set us. case x of (n, c) \<Rightarrow> is_ok (attempt n c)" using assms by auto
  then obtain pre x post where "us = pre @ x # post" "case x of (n, c) \<Rightarrow> is_ok (attempt n c)"
      "\<forall>y \<in> set pre. \<not> (case y of (n, c) \<Rightarrow> is_ok (attempt n c))"
    by (rule split_list_first_propE)
  then show thesis using that[of pre "fst x" "snd x" post] by (auto simp: case_prod_beta)
qed

lemma not_ok_no_panic: "\<not> is_ok r \<Longrightarrow> (\<And>p. r \<noteq> Inl (Panic p)) \<Longrightarrow> \<exists>m. r = Inl (Err m)"
  by (cases r; cases "projl r") auto

text \<open>
  Among the upstreams an answer of \<open>find_best_upstream\<close> lists, the first one from the end that accepts:
  those before it failed, and every admitted one that was idle for longer is among them.
\<close>

lemma first_admitted:
  assumes "distinct (map fst (cc_upstreams cfg))" and "\<And>n c p. attempt n c \<noteq> Inl (Panic p)"
    and "adm = {(n, c). (n, c) \<in> set (cc_upstreams cfg) \<and> eligible t (verdict R cfg t target d) n c}"
    and us_def: "us = find_best_upstream R now h cfg t stats target d"
    and "\<exists>(n, c) \<in> adm. is_ok (attempt n c)"
  obtains pre n c post u where "rev us = pre @ (n, c) # post" "attempt n c = Inr u" "(n, c) \<in> adm"
    "\<forall>(m, b) \<in> set pre. \<exists>e. attempt m b = Inl (Err e)"
    "\<forall>(m, b) \<in> adm. calc_last_visit_score now h stats m > calc_last_visit_score now h stats n \<longrightarrow> (m, b) \<in> set pre"
proof -
  define score where "score = calc_last_visit_score now h stats"
  have us: "set us = adm" "sorted (map (\<lambda>(n, c). score n) us)"
    using find_best_upstream_laws[OF assms(1) us_def] by (simp_all add: assms(3) score_def)
  have "\<exists>(n, c) \<in> set (rev us). is_ok (attempt n c)" using us(1) assms(5) by simp
  then obtain pre n c post where f: "rev us = pre @ (n, c) # post" "is_ok (attempt n c)"
      "\<forall>(m, b) \<in> set pre. \<not> is_ok (attempt m b)"
    by (rule first_ok_split)
  obtain u where u: "attempt n c = Inr u" using f(2) by (auto simp: is_ok_conv)
  have err: "\<forall>(m, b) \<in> set pre. \<exists>e. attempt m b = Inl (Err e)" using f(3) not_ok_no_panic assms(2) by fast
  have "us = rev post @ (n, c) # rev pre" using arg_cong[OF f(1), of rev] by simp
  then have low: "\<forall>(m, b) \<in> set post. score m \<le> score n" and adm': "adm = insert (n, c) (set pre \<union> set post)"
    using us by (auto simp: sorted_append)
  have "(m, b) \<in> set pre" if "(m, b) \<in> adm" "score m > score n" for m b using that low adm' by fastforce
  then have "\<forall>(m, b) \<in> adm. score m > score n \<longrightarrow> (m, b) \<in> set pre" by blast
  then show thesis using that[OF f(1) u _ err] adm' by (simp add: score_def)
qed

lemma none_admitted:
  assumes "distinct (map fst (cc_upstreams cfg))" and "\<And>n c p. attempt n c \<noteq> Inl (Panic p)"
    and "adm = {(n, c). (n, c) \<in> set (cc_upstreams cfg) \<and> eligible t (verdict R cfg t target d) n c}"
    and us_def: "us = find_best_upstream R now h cfg t stats target d"
    and "\<not> (\<exists>(n, c) \<in> adm. is_ok (attempt n c))"
  shows "\<forall>(n, c) \<in> set (rev us). \<exists>m. attempt n c = Inl (Err m)" and "set us = adm"
proof -
  show us: "set us = adm" using find_best_upstream_laws(1)[OF assms(1) us_def] by (simp add: assms(3))
  show "\<forall>(n, c) \<in> set (rev us). \<exists>m. attempt n c = Inl (Err m)" using not_ok_no_panic assms(2,5) us by fastforce
qed

text \<open>
  The contract of a loop that tries upstreams in order until one accepts, and what it finds among those an
  answer of \<open>find_best_upstream\<close> lists. \<open>out\<close> is what the loop makes of the accepted attempt.
\<close>

locale upstream_loop =
  fixes loop :: "(rstr \<Rightarrow> upstream_config \<Rightarrow> 'a res) \<Rightarrow> (rstr \<times> upstream_config) list \<Rightarrow> fault option \<Rightarrow> 'r"
    and tried :: "'r \<Rightarrow> rstr list"
    and chosen :: "'r \<Rightarrow> 'o option"
    and out :: "rstr \<Rightarrow> 'a \<Rightarrow> 'o"
  assumes none: "tried (loop f [] le) = []" "chosen (loop f [] le) = None"
    and hit: "f n c = Inr x \<Longrightarrow> tried (loop f ((n, c) # us) le) = [n] \<and> chosen (loop f ((n, c) # us) le) = Some (out n x)"
    and miss: "f n c = Inl (Err m) \<Longrightarrow>
      \<exists>le'. tried (loop f ((n, c) # us) le) = n # tried (loop f us le') \<and> chosen (loop f ((n, c) # us) le) = chosen (loop f us le')"
begin

lemma all_fail:
  "\<forall>(n, c) \<in> set us. \<exists>m. f n c = Inl (Err m) \<Longrightarrow> tried (loop f us le) = map fst us \<and> chosen (loop f us le) = None"
proof (induction us arbitrary: le)
  case (Cons x us)
  obtain n c where x: "x = (n, c)" by force
  then obtain m where "f n c = Inl (Err m)" using Cons.prems by auto
  from miss[of f n c m us le, OF this] show ?case using Cons x by auto
qed (simp add: none)

lemma first_success:
  "\<forall>(n, c) \<in> set us. \<exists>m. f n c = Inl (Err m) \<Longrightarrow> f n c = Inr x \<Longrightarrow>
   tried (loop f (us @ (n, c) # vs) le) = map fst us @ [n] \<and> chosen (loop f (us @ (n, c) # vs) le) = Some (out n x)"
proof (induction us arbitrary: le)
  case (Cons y us)
  obtain k d where y: "y = (k, d)" by force
  then obtain m where "f k d = Inl (Err m)" using Cons.prems(1) by auto
  from miss[of f k d m "us @ (n, c) # vs" le, OF this] show ?case using Cons y by auto
qed (simp add: hit)

lemma finds_admitted:
  assumes "distinct (map fst (cc_upstreams cfg))" and "\<And>n c p. f n c \<noteq> Inl (Panic p)"
    and "adm = {(n, c). (n, c) \<in> set (cc_upstreams cfg) \<and> eligible t (verdict R cfg t target d) n c}"
    and "r = loop f (rev (find_best_upstream R now h cfg t stats target d)) le"
  shows "if \<exists>(n, c) \<in> adm. is_ok (f n c)
     then \<exists>(n, c) \<in> adm. \<exists>x. f n c = Inr x \<and> chosen r = Some (out n x) \<and> n \<in> set (tried r) \<and>
            (\<forall>(m, b) \<in> adm. calc_last_visit_score now h stats m > calc_last_visit_score now h stats n \<longrightarrow>
               m \<in> set (tried r) \<and> \<not> is_ok (f m b))
     else chosen r = None \<and> set (tried r) = fst ` adm"
proof (cases "\<exists>(n, c) \<in> adm. is_ok (f n c)")
  case True
  obtain pre n c post x where s: "rev (find_best_upstream R now h cfg t stats target d) = pre @ (n, c) # post"
      "f n c = Inr x" "(n, c) \<in> adm" "\<forall>(m, b) \<in> set pre. \<exists>e. f m b = Inl (Err e)"
      "\<forall>(m, b) \<in> adm. calc_last_visit_score now h stats m > calc_last_visit_score now h stats n \<longrightarrow> (m, b) \<in> set pre"
    by (rule first_admitted[OF assms(1-3) refl True])
  have r: "tried r = map fst pre @ [n]" "chosen r = Some (out n x)" using first_success[OF s(4,2)] assms(4) s(1) by auto
  have "m \<in> set (tried r) \<and> \<not> is_ok (f m b)" if "(m, b) \<in> set pre" for m b
    using that s(4) r(1) by (force simp: is_ok_conv)
  then have "\<forall>(m, b) \<in> adm. calc_last_visit_score now h stats m > calc_last_visit_score now h stats n \<longrightarrow>
      m \<in> set (tried r) \<and> \<not> is_ok (f m b)" using s(5) by blast
  then show ?thesis using True r s(2,3) by (simp only: if_True) (intro bexI[of _ "(n, c)"], auto)
next
  case False
  note n = none_admitted[OF assms(1-3) refl[of "find_best_upstream R now h cfg t stats target d"] False]
  show ?thesis using False all_fail[OF n(1), of le] assms(4) n(2) by simp
qed

end

definition connected :: "rstr list \<times> 's res \<times> counters \<Rightarrow> ('s \<times> counters) option" where
  "connected = (\<lambda>(_, r, h). case r of Inr s \<Rightarrow> Some (s, h) | Inl _ \<Rightarrow> None)"

interpretation streams: upstream_loop "\<lambda>f us le. try_upstreams now stats f us le h" fst connected
    "\<lambda>n (s, l). (s, update_upstream now stats n l h)"
proof unfold_locales
  fix f :: "rstr \<Rightarrow> upstream_config \<Rightarrow> ('b \<times> nat) res" and n c m us le
  assume "f n c = Inl (Err m)"
  then show "\<exists>le'. fst (try_upstreams now stats f ((n, c) # us) le h) = n # fst (try_upstreams now stats f us le' h) \<and>
      connected (try_upstreams now stats f ((n, c) # us) le h) = connected (try_upstreams now stats f us le' h)"
    by (intro exI[of _ "Some (Err ''Requesting new streaming connection'')"]) (simp add: connected_def split: prod.splits)
qed (auto simp: connected_def split: prod.splits)

lemma try_upstreams_fails: "try_upstreams now stats f us le h = (tr, Inl e, h') \<Longrightarrow> h' = h"
proof (induction us arbitrary: le tr)
  case (Cons x us)
  obtain n c where x: "x = (n, c)" by force
  show ?case
  proof (cases "f n c")
    case (Inl e)
    then show ?thesis using Cons x by (cases e) (auto split: prod.splits)
  qed (use Cons.prems x in \<open>auto split: prod.splits\<close>)
qed simp

lemma find_and_connect_cases:
  assumes "distinct (map fst (cc_upstreams cfg))" and "\<And>n c p. attempt n c \<noteq> Inl (Panic p)"
    and "find_and_connect_stream R now attempt dst d cfg stats h = (tried, r, h')"
  shows "let adm = {(n, c). (n, c) \<in> set (cc_upstreams cfg) \<and> eligible Stream (verdict R cfg Stream dst d) n c};
             score = calc_last_visit_score now h stats in
     if \<exists>(n, c) \<in> adm. is_ok (attempt n c)
     then \<exists>(n, c) \<in> adm. \<exists>s l. attempt n c = Inr (s, l) \<and> r = Inr s \<and> h' = update_upstream now stats n l h \<and>
            n \<in> set tried \<and> (\<forall>(m, b) \<in> adm. score m > score n \<longrightarrow> m \<in> set tried \<and> \<not> is_ok (attempt m b))
     else (\<exists>e. r = Inl e) \<and> h' = h \<and> set tried = fst ` adm"
proof -
  define adm where "adm = {(n, c). (n, c) \<in> set (cc_upstreams cfg) \<and> eligible Stream (verdict R cfg Stream dst d) n c}"
  have run: "(tried, r, h') = try_upstreams now stats attempt (rev (find_best_upstream R now h cfg Stream stats dst d)) None h"
    using assms(3) by (simp add: find_and_connect_stream_def)
  note f = streams.finds_admitted[OF assms(1,2) adm_def run]
  show ?thesis
  proof (cases "\<exists>(n, c) \<in> adm. is_ok (attempt n c)")
    case True
    then show ?thesis using f unfolding Let_def adm_def[symmetric]
      by (simp only: if_True) (fastforce simp: connected_def split: sum.splits)
  next
    case False
    then obtain e where "r = Inl e" "set tried = fst ` adm" using f by (auto simp: connected_def split: sum.splits)
    then show ?thesis using False try_upstreams_fails[of now stats attempt _ None h tried e h'] run
      unfolding Let_def adm_def[symmetric] by simp
  qed
qed

lemma find_and_connect_sound:
  assumes "distinct (map fst (cc_upstreams cfg))" and "\<And>n c p. attempt n c \<noteq> Inl (Panic p)"
    and "find_and_connect_stream R now attempt dst d cfg stats h = (tried, Inr s, h')"
  shows "\<exists>(n, c) \<in> set (cc_upstreams cfg). eligible Stream (verdict R cfg Stream dst d) n c \<and> (\<exists>l. attempt n c = Inr (s, l))"
  using find_and_connect_cases[OF assms] by (auto simp: Let_def split: if_splits)

text \<open>A counter is read back from its serialised form exactly when it is below \<open>2^32\<close>.\<close>

lemma counter_serialize_read_back:
  "(\<exists>q h'. counter_deserialize (counter_serialize r h) h = Inr (q, h') \<and> counter_get q h' = counter_get r h) \<longleftrightarrow>
   unat (counter_get r h) < 2 ^ 32"
  by (auto simp: counter_deserialize_def counter_serialize_def counter_default_def counter_set_def counter_get_def Let_def)

section \<open>Properties\<close>

text \<open>
  The choice of upstreams: the answer of \<open>find_best_upstream\<close> holds each enabled upstream that the
  verdict of the rules admits exactly once and no other (for a named upstream whether or not it
  carries the traffic, otherwise only those that do), in ascending order of the seconds since their
  last use, capped at 65535.
\<close>

theorem find_best_upstream_correct:
  assumes "distinct (map fst (cc_upstreams cfg))"
  shows "set (find_best_upstream R now h cfg t stats target d) =
       {(n, c). (n, c) \<in> set (cc_upstreams cfg) \<and> eligible t (verdict R cfg t target d) n c} \<and>
     distinct (map fst (find_best_upstream R now h cfg t stats target d)) \<and>
     sorted (map (\<lambda>(n, c). calc_last_visit_score now h stats n) (find_best_upstream R now h cfg t stats target d))"
  by (intro conjI find_best_upstream_laws[OF assms refl])

definition demo_config :: client_config where
  "demo_config = default_config\<lparr>cc_upstreams :=
     [(lit ''a'', \<lparr>uc_protocol = Direct, uc_groups = None, uc_enabled = True\<rparr>),
      (lit ''b'', \<lparr>uc_protocol = UdpMan (Name (lit ''h'') 1), uc_groups = None, uc_enabled = True\<rparr>)]\<rparr>"

definition demo_routing :: routing_env where
  "demo_routing = \<lparr>re_rules = demo_env, re_geoip = [], re_dns = Map.empty\<rparr>"

definition demo_counters :: counters where
  "demo_counters = \<lparr>ct_value = (\<lambda>_. 0), ct_next = 0\<rparr>"

lemma demo_distinct: "distinct (map fst (cc_upstreams demo_config))"
  by (simp add: demo_config_def default_config_def lit_def)

lemma demo_verdict: "verdict demo_routing demo_config t a d = None"
  by (simp add: demo_config_def default_config_def execute_rules_def execute_table_def execute_table_lim.simps)

lemma demo_eligible:
  "{(n, c). (n, c) \<in> set (cc_upstreams demo_config) \<and> eligible Stream None n c} =
     {(lit ''a'', \<lparr>uc_protocol = Direct, uc_groups = None, uc_enabled = True\<rparr>)}"
  by (auto simp: demo_config_def default_config_def eligible_def)

theorem find_best_upstream_correct_witness:
  "set (find_best_upstream demo_routing 100 demo_counters demo_config Stream Map.empty (Name (lit ''x'') 80) None) =
     {(lit ''a'', \<lparr>uc_protocol = Direct, uc_groups = None, uc_enabled = True\<rparr>)}"
  using find_best_upstream_correct[OF demo_distinct, of demo_routing 100 demo_counters Stream Map.empty "Name (lit ''x'') 80" None]
  unfolding demo_verdict demo_eligible by (rule conjunct1)

text \<open>
  C15: A connection is made whenever some admitted upstream accepts it: if no attempt panics, the loop
  succeeds exactly when an admitted upstream accepts; it then returns the connection of one such
  upstream, records its use, and has tried every admitted upstream that was idle for longer;
  otherwise it has tried all of them and returns an error without touching the counters.
\<close>

theorem connect_reaches_upstream:
  assumes "distinct (map fst (cc_upstreams cfg))" and "\<And>n c p. attempt n c \<noteq> Inl (Panic p)"
    and "find_and_connect_stream R now attempt dst d cfg stats h = (tried, r, h')"
  shows "let adm = {(n, c). (n, c) \<in> set (cc_upstreams cfg) \<and> eligible Stream (verdict R cfg Stream dst d) n c};
             score = calc_last_visit_score now h stats in
     if \<exists>(n, c) \<in> adm. is_ok (attempt n c)
     then \<exists>(n, c) \<in> adm. \<exists>s l. attempt n c = Inr (s, l) \<and> r = Inr s \<and> h' = update_upstream now stats n l h \<and>
            n \<in> set tried \<and> (\<forall>(m, b) \<in> adm. score m > score n \<longrightarrow> m \<in> set tried \<and> \<not> is_ok (attempt m b))
     else (\<exists>e. r = Inl e) \<and> h' = h \<and> set tried = fst ` adm"
  by (rule find_and_connect_cases[OF assms])

theorem connect_reaches_upstream_witness:
  "\<exists>tried h'. find_and_connect_stream demo_routing 100 (\<lambda>n c. Inr (n, 5)) (Name (lit ''x'') 80) None demo_config Map.empty demo_counters =
     (tried, Inr (lit ''a''), h')"
proof -
  obtain tried r h' where f: "find_and_connect_stream demo_routing 100 (\<lambda>n c. Inr (n, 5)) (Name (lit ''x'') 80) None
      demo_config Map.empty demo_counters = (tried, r, h')" by (metis prod.exhaust)
  show ?thesis
    using connect_reaches_upstream[OF demo_distinct _ f] f unfolding demo_verdict demo_eligible by simp
qed

end
