(* ===== verification/Client_Conn.thy ===== *)
theory Client_Conn
  imports Handshake Upstreams Udp_Io
begin

text \<open>
  Serving one local connection (src/client/handler.rs, src/client/tcp.rs, src/client/http.rs): the
  handshake or the transparent destination, the choice of an upstream, the reply, and the relay of
  the remaining bytes (src/utils.rs). The network is given by the segments the client's side
  delivers, the outcomes of the attempts to connect, and the TLS library's answer.
\<close>

section \<open>Relaying\<close>

text \<open>
  \<open>copy_with_stats\<close> on the segments its reader delivers: the bytes written and the counter. \<open>copy\<close> of
  the \<open>futures\<close> library is the same without the counter.
\<close>

function copy_with_stats :: "counter_ref \<Rightarrow> segments \<Rightarrow> counters \<Rightarrow> bytes \<times> counters" where
  "copy_with_stats stat ss h =
     (case read_some 8192 ss of
        (d, ss') \<Rightarrow>
          if d = [] then ([], h)
          else (case copy_with_stats stat ss' (counter_inc stat (of_nat (length d)) h) of (out, h') \<Rightarrow> (d @ out, h')))"
  by pat_completeness auto

lemma read_some_shrinks: "read_some cap ss = (d, ss') \<Longrightarrow> d \<noteq> [] \<Longrightarrow> length (concat ss') < length (concat ss)"
  by (drule read_some_concat) simp

termination copy_with_stats
  by (relation "measure (\<lambda>(_, ss, _). length (concat ss))") (auto dest: read_some_shrinks[OF sym])

declare copy_with_stats.simps [simp del]

text \<open>\<open>Race::poll\<close>: both futures are polled, the first one ready wins.\<close>

fun race_poll :: "'a poll \<Rightarrow> 'a poll \<Rightarrow> 'a poll" where
  "race_poll (Ready v) _ = Ready v"
| "race_poll Pending (Ready v) = Ready v"
| "race_poll Pending Pending = Pending"

section \<open>TCP\<close>

text \<open>
  A connection to an upstream: the stream, whether TLS runs on it, and what the proxy itself wrote
  before the relay starts.
\<close>

record 's upstream_conn =
  up_stream :: 's
  up_tls :: bool
  up_first :: bytes

type_synonym 's connector = "address \<Rightarrow> bytes option \<Rightarrow> rstr \<Rightarrow> upstream_config \<Rightarrow> ('s \<times> nat) res"

text \<open>
  The outcome of serving a connection: the bytes written to the client, the upstream with the segments
  of the client that \<open>copy_duplex\<close> then relays to it (or the error), and the counters.
\<close>

type_synonym 's served = "bytes \<times> ('s upstream_conn \<times> segments) res \<times> counters"

definition answer_client :: "handshake_type \<Rightarrow> 's upstream_conn res \<Rightarrow> segments \<Rightarrow> counters \<Rightarrow> 's served" where
  "answer_client hs r ss h =
     (case r of
        Inr v \<Rightarrow>
          (case respond_ok hs None of
             Inr reply \<Rightarrow> (reply, Inr (v, ss), h)
           | Inl e \<Rightarrow> ([], Inl e, h))
      | Inl e \<Rightarrow>
          (case respond_err hs of
             Inr reply \<Rightarrow> (reply, Inl e, h)
           | Inl e' \<Rightarrow> ([], Inl e', h)))"

definition serve_tcp_proxy_conn ::
  "routing_env \<Rightarrow> nat \<Rightarrow> 's connector \<Rightarrow> address \<Rightarrow> client_config \<Rightarrow> client_statistics \<Rightarrow> segments \<Rightarrow> handshake_type \<Rightarrow>
   counters \<Rightarrow> 's served" where
  "serve_tcp_proxy_conn R now conn dst cfg stats ss hs h =
     (case find_and_connect_stream R now (conn dst None) dst None cfg stats h of
        (_, r, h') \<Rightarrow>
          answer_client hs
            (and_then (in_context ''Finding proxy'' r) (\<lambda>s. Inr \<lparr>up_stream = s, up_tls = False, up_first = []\<rparr>)) ss h')"

text \<open>
  \<open>serve_tcp_tproxy_conn\<close>: \<open>early\<close> says whether the first read returned before the timeout.
\<close>

definition serve_tcp_tproxy_conn ::
  "routing_env \<Rightarrow> nat \<Rightarrow> 's connector \<Rightarrow> address \<Rightarrow> client_config \<Rightarrow> client_statistics \<Rightarrow> segments \<Rightarrow> bool \<Rightarrow>
   counters \<Rightarrow> (bytes option \<times> ('s upstream_conn \<times> segments) res \<times> counters)" where
  "serve_tcp_tproxy_conn R now conn dst cfg stats ss early h =
     (let (initial_data, ss') =
            (if (get_port dst = 80 \<or> get_port dst = 443) \<and> early
             then (case read_some 4096 ss of (d, ss') \<Rightarrow> (Some d, ss'))
             else (None, ss))
      in case find_and_connect_stream R now (conn dst initial_data) dst initial_data cfg stats h of
           (_, r, h') \<Rightarrow>
             (initial_data,
              and_then (in_context ''Finding proxy'' r) (\<lambda>s. Inr (\<lparr>up_stream = s, up_tls = False, up_first = []\<rparr>, ss')), h'))"

section \<open>HTTP\<close>

definition find_and_connect_tls ::
  "routing_env \<Rightarrow> nat \<Rightarrow> 's connector \<Rightarrow> (rstr \<Rightarrow> 's \<Rightarrow> unit res) \<Rightarrow> address \<Rightarrow> client_config \<Rightarrow> client_statistics \<Rightarrow>
   counters \<Rightarrow> 's res \<times> counters" where
  "find_and_connect_tls R now conn tls dst cfg stats h =
     (case find_and_connect_stream R now (conn dst None) dst None cfg stats h of
        (_, r, h') \<Rightarrow>
          (and_then (in_context ''Connecting to upstream'' r) (\<lambda>s.
             and_then (in_context ''Connecting to TLS stream'' (tls (get_host dst) s)) (\<lambda>_. Inr s)), h'))"

definition serve_http_proxy_conn ::
  "routing_env \<Rightarrow> nat \<Rightarrow> 's connector \<Rightarrow> (rstr \<Rightarrow> 's \<Rightarrow> unit res) \<Rightarrow> address \<Rightarrow> bool \<Rightarrow> http_request \<Rightarrow> client_config \<Rightarrow>
   client_statistics \<Rightarrow> segments \<Rightarrow> handshake_type \<Rightarrow> counters \<Rightarrow> 's served" where
  "serve_http_proxy_conn R now conn tls dst https req cfg stats ss hs h =
     (if https then
        (case find_and_connect_tls R now conn tls dst cfg stats h of
           (r, h') \<Rightarrow>
             answer_client hs
               (and_then r (\<lambda>s. Inr \<lparr>up_stream = s, up_tls = True, up_first = request_to_writer req\<rparr>)) ss h')
      else
        (let head = builder_finalise (to_builder req)
         in case find_and_connect_stream R now (conn dst (Some head)) dst (Some head) cfg stats h of
              (_, r, h') \<Rightarrow>
                answer_client hs (and_then r (\<lambda>s. Inr \<lparr>up_stream = s, up_tls = False, up_first = []\<rparr>)) ss h'))"

section \<open>One connection\<close>

datatype 's conn_outcome =
    Proxied bytes "bytes option" "('s upstream_conn \<times> segments) res" counters
  | UdpAssociate bytes handshake_type segments

text \<open>
  \<open>serve_proxy_conn\<close>. \<open>orig_dst\<close> is the destination of a redirected connection. A UDP association goes on
  in \<open>serve_udp_proxy_conn\<close>.
\<close>

definition serve_proxy_conn ::
  "(rstr option \<times> rstr option) tokenizer \<Rightarrow> routing_env \<Rightarrow> nat \<Rightarrow> 's connector \<Rightarrow> (rstr \<Rightarrow> 's \<Rightarrow> unit res) \<Rightarrow>
   socket_addr option \<Rightarrow> bool \<Rightarrow> client_config \<Rightarrow> client_statistics \<Rightarrow> segments \<Rightarrow> counters \<Rightarrow> 's conn_outcome" where
  "serve_proxy_conn hp R now conn tls orig_dst early cfg stats ss h =
     (case orig_dst of
        Some a \<Rightarrow>
          (case serve_tcp_tproxy_conn R now conn (IP a) cfg stats ss early h of (d, r, h') \<Rightarrow> Proxied [] d r h')
      | None \<Rightarrow>
          (case handshaker_start hp (rwb_new (replicate 512 0)) ss of
             (w, Inl e) \<Rightarrow> Proxied w None (Inl e) h
           | (w, Inr ((hs, HrTCP dst), buf, ss')) \<Rightarrow>
               (case serve_tcp_proxy_conn R now conn dst cfg stats ss' hs h of
                  (reply, r, h') \<Rightarrow> Proxied (w @ reply) None r h')
           | (w, Inr ((hs, HrHTTP dst https req), buf, ss')) \<Rightarrow>
               (case serve_http_proxy_conn R now conn tls dst https req cfg stats ss' hs h of
                  (reply, r, h') \<Rightarrow> Proxied (w @ reply) (if https then None else Some (builder_finalise (to_builder req))) r h')
           | (w, Inr ((hs, HrUDP dst), buf, ss')) \<Rightarrow> UdpAssociate w hs ss'))"

section \<open>Lemmas\<close>

lemma counter_inc_add: "counter_inc r w (counter_inc r v h) = counter_inc r (v + w) h"
  by (simp add: counter_inc_def add.assoc)

lemma counter_inc_0: "counter_inc r 0 h = h"
  by (simp add: counter_inc_def)

lemma copy_with_stats_all:
  "seg_ok ss \<Longrightarrow> copy_with_stats stat ss h = (concat ss, counter_inc stat (of_nat (length (concat ss))) h)"
proof (induction "length (concat ss)" arbitrary: ss h rule: less_induct)
  case less
  obtain d ss' where r: "read_some 8192 ss = (d, ss')" by force
  show ?case
  proof (cases "d = []")
    case True
    then have "concat ss = []" using read_some_progress[OF less.prems _ r] by simp
    with True r show ?thesis by (subst copy_with_stats.simps) (simp add: counter_inc_0 del: concat_eq_Nil_conv)
  next
    case False
    have c: "concat ss = d @ concat ss'" using read_some_concat[OF r] by simp
    have "copy_with_stats stat ss' h' = (concat ss', counter_inc stat (of_nat (length (concat ss'))) h')" for h'
      using less.hyps[OF read_some_shrinks[OF r False] read_some_ok[OF less.prems r]] .
    then show ?thesis using False r c by (subst copy_with_stats.simps) (simp add: counter_inc_add)
  qed
qed

text \<open>A handshake never reads behind the segment in which it ends.\<close>

lemma read_some_frame: "ss \<noteq> [] \<Longrightarrow> read_some cap ss = (d, ss') \<Longrightarrow> read_some cap (ss @ rest) = (d, ss' @ rest)"
  by (cases ss) (auto split: if_splits)

lemma refill_frame:
  assumes "refill b ss = Inr (n, b', ss')" and "n \<noteq> 0"
  shows "refill b (ss @ rest) = Inr (n, b', ss' @ rest)"
proof -
  obtain b1 cap where w: "write_buf b = (b1, cap)" by force
  obtain d s1 where r: "read_some cap ss = (d, s1)" by force
  have "ss \<noteq> []" using assms w r by (auto simp: refill_def res_simps)
  from read_some_frame[OF this r] show ?thesis using assms(1) w r by (auto simp: refill_def res_simps)
qed

lemma read_loop_frame:
  "read_loop parse b ss = Inr (n, x, b', ss') \<Longrightarrow> read_loop parse b (ss @ rest) = Inr (n, x, b', ss' @ rest)"
proof (induction parse b ss rule: read_loop.induct)
  case (1 parse b ss)
  show ?case
  proof (cases "parse (read_buf b)")
    case (Inr r)
    show ?thesis
    proof (cases r)
      case None
      then obtain k b1 s1 where f: "refill b ss = Inr (k, b1, s1)" "k \<noteq> 0" "read_loop parse b1 s1 = Inr (n, x, b', ss')"
        using 1(2) Inr by (subst (asm) read_loop.simps) (auto split: sum.splits if_splits)
      have "read_loop parse b1 (s1 @ rest) = Inr (n, x, b', ss' @ rest)"
        using 1(1)[OF Inr None f(1) refl refl] f(2,3) by simp
      then show ?thesis using Inr None f(2) refill_frame[OF f(1,2), of rest] by (subst read_loop.simps) simp
    qed (use 1(2) Inr in \<open>auto simp: read_loop.simps[of parse b]\<close>)
  qed (use 1(2) in \<open>auto simp: read_loop.simps[of parse b]\<close>)
qed

lemma hs_loop_frame:
  "hs_loop hp st b ss = Inr (p, b', ss') \<Longrightarrow> hs_loop hp st b (ss @ rest) = Inr (p, b', ss' @ rest)"
proof (induction hp st b ss rule: hs_loop.induct)
  case (1 hp st b ss)
  consider (err) e where "hs_step hp st (read_buf b) = Inl e"
    | (found) n q where "hs_step hp st (read_buf b) = Inr (Detected n q)"
    | (again) st' where "hs_step hp st (read_buf b) = Inr (ReadMore st')"
    by (metis sum.exhaust hs_outcome.exhaust)
  then show ?case
  proof cases
    case again
    then obtain k b1 s1 where f: "refill b ss = Inr (k, b1, s1)" "k \<noteq> 0" "hs_loop hp st' b1 s1 = Inr (p, b', ss')"
      using 1(2) by (subst (asm) hs_loop.simps) (auto split: sum.splits if_splits)
    have "hs_loop hp st' b1 (s1 @ rest) = Inr (p, b', ss' @ rest)" using 1(1)[OF again refl f(1) refl refl] f(2,3) by simp
    then show ?thesis using again f(2) refill_frame[OF f(1,2), of rest] by (subst hs_loop.simps) simp
  qed (use 1(2) in \<open>auto simp: hs_loop.simps[of hp st b] res_simps\<close>)
qed

lemma handshaker_start_frame:
  assumes "handshaker_start hp b ss = (w, Inr (x, b', ss'))"
  shows "handshaker_start hp b (ss @ rest) = (w, Inr (x, b', ss' @ rest))"
proof -
  obtain p b1 s1 where l: "hs_loop hp Init b ss = Inr (p, b1, s1)"
    using assms by (cases "hs_loop hp Init b ss") (auto simp: handshaker_start_def)
  show ?thesis
  proof (cases p)
    case (Socks5Greeted s)
    obtain r where h: "handshake_socks5 b1 s1 s = (w, Inr r)"
      using assms l Socks5Greeted by (cases "handshake_socks5 b1 s1 s") (auto simp: handshaker_start_def res_simps)
    then have "AUTH_NO_PASSWORD \<in> set (ss_auths s)" by (auto simp: handshake_socks5_def split: if_splits)
    moreover from this h obtain n req b2 s2 where "read_loop conn_request_parse b1 s1 = Inr (n, req, b2, s2)"
      by (cases "read_loop conn_request_parse b1 s1") (auto simp: handshake_socks5_def Let_def split: if_splits)
    ultimately show ?thesis
      using assms Socks5Greeted l hs_loop_frame[OF l, of rest] read_loop_frame[of conn_request_parse b1 s1 n req b2 s2 rest]
      by (auto simp: handshaker_start_def handshake_socks5_def res_simps Let_def split: if_splits sum.splits)
  next
    case (Http r)
    then show ?thesis using assms l hs_loop_frame[OF l, of rest]
      by (cases "handshake_http r"; cases "projr (handshake_http r)") (auto simp: handshaker_start_def)
  qed (use assms l hs_loop_frame[OF l, of rest] in \<open>auto simp: handshaker_start_def res_simps\<close>)
qed

text \<open>Reading makes the rest of the connection shorter; at its end nothing comes any more.\<close>

lemma read_loop_drains: "read_loop parse b [] = Inr (n, x, b', ss') \<Longrightarrow> ss' = []"
  by (subst (asm) read_loop.simps) (auto simp: refill_def res_simps split: sum.splits option.splits if_splits prod.splits)

lemma hs_loop_drains: "hs_loop hp st b [] = Inr (p, b', ss') \<Longrightarrow> ss' = []"
  by (subst (asm) hs_loop.simps)
    (auto simp: refill_def res_simps split: sum.splits hs_outcome.splits if_splits prod.splits)

lemma refill_one:
  assumes "length seg \<le> 512" and "refill (rwb_new (replicate 512 0)) [seg] = Inr (n, b', ss')"
  shows "ss' = []"
  using assms by (auto simp: refill_def write_buf_def rwb_new_def remaining_write_def res_simps split: if_splits)

lemma hs_loop_one_segment:
  assumes "http_tokenizer hp" and "length seg \<le> 512"
    and "hs_loop hp Init (rwb_new (replicate 512 0)) [seg] = Inr (p, b', ss')"
  shows "ss' = []"
proof -
  let ?b = "rwb_new (replicate 512 0)"
  have "detect hp [] = Inr None" by (simp add: detect_def)
  then obtain st' where st': "hs_step hp Init (read_buf ?b) = Inr (ReadMore st')"
    using hs_step_Init[OF assms(1), of "[]"] by (auto split: sum.splits hs_outcome.splits)
  then obtain n b1 s1 where f: "refill ?b [seg] = Inr (n, b1, s1)" "hs_loop hp st' b1 s1 = Inr (p, b', ss')"
    using assms(3) by (subst (asm) hs_loop.simps) (auto split: sum.splits if_splits)
  have "s1 = []" using refill_one[OF assms(2) f(1)] .
  then show ?thesis using hs_loop_drains f(2) by blast
qed

lemma handshake_socks5_drains: "handshake_socks5 b [] s = (w, Inr (req, b', ss')) \<Longrightarrow> ss' = []"
  using read_loop_drains[of conn_request_parse b]
  by (auto simp: handshake_socks5_def Let_def res_simps split: if_splits sum.splits)

lemma handshake_one_segment:
  assumes "http_tokenizer hp" and "length seg \<le> 512"
    and "handshaker_start hp (rwb_new (replicate 512 0)) [seg] = (w, Inr (x, b', ss'))"
  shows "ss' = []"
proof -
  obtain p b1 s1 where l: "hs_loop hp Init (rwb_new (replicate 512 0)) [seg] = Inr (p, b1, s1)"
    using assms(3) by (cases "hs_loop hp Init (rwb_new (replicate 512 0)) [seg]") (auto simp: handshaker_start_def)
  have "s1 = []" using hs_loop_one_segment[OF assms(1,2) l] .
  show ?thesis
  proof (cases p)
    case (Http r)
    then show ?thesis using assms(3) l \<open>s1 = []\<close>
      by (cases "handshake_http r"; cases "projr (handshake_http r)") (auto simp: handshaker_start_def)
  qed (use assms(3) l \<open>s1 = []\<close> handshake_socks5_drains[of b1] in
      \<open>auto simp: handshaker_start_def res_simps split: prod.splits\<close>)
qed

text \<open>
  A SOCKS5 connection up to the relay: when the client sends its greeting and its CONNECT
  request (in any segments) and the payload afterwards, and an upstream can be connected, the client
  receives the answer to its greeting followed by the reply "granted", and exactly the segments
  behind the request are relayed to the upstream; when none can be connected it receives
  the reply "failed" instead and nothing is relayed.
\<close>

lemma socks5_served:
  assumes "http_tokenizer hp" and "seg_ok ss"
    and "length (auths g) < 256" and "AUTH_NO_PASSWORD \<in> set (auths g)" and "greeting_write g = Inr gb"
    and "wire_request r" and "conn_request_write r = Inr rb" and "conn_cmd r = CONNECT_TCP"
    and "concat ss = gb @ rb"
    and "find_and_connect_stream R now (conn (conn_address r) None) (conn_address r) None cfg stats h = (tried, res, h')"
  shows "serve_proxy_conn hp R now conn tls None early cfg stats (ss @ payload) h =
    (case res of
       Inr s \<Rightarrow> Proxied [5, 0, 5, 0, 0, 1, 0, 0, 0, 0, 0, 0] None (Inr (\<lparr>up_stream = s, up_tls = False, up_first = []\<rparr>, payload)) h'
     | Inl e \<Rightarrow> Proxied [5, 0, 5, 1, 0, 1, 0, 0, 0, 0, 0, 0] None (in_context ''Finding proxy'' (Inl e)) h')"
proof -
  let ?b = "rwb_new (replicate 512 0)"
  have live: "rwb_live ?b" by (simp add: rwb_live_def rwb_new_def rwb_inv_def)
  have req: "requested r = Some (HrTCP (conn_address r))" using assms(8) by (simp add: requested_def)
  obtain b' ss' where s: "handshaker_start hp ?b ss = ([5, 0], Inr ((HsSocks5, HrTCP (conn_address r)), b', ss'))"
      "read_buf b' @ concat ss' = []" "seg_ok ss'"
    using socks5_start[OF assms(1) live assms(2-7) req, of "[]"] assms(9) by auto
  have "ss' = []" using s(2,3) by (cases ss') (auto simp: seg_ok_def)
  with handshaker_start_frame[OF s(1), of payload]
  have st: "handshaker_start hp ?b (ss @ payload) = ([5, 0], Inr ((HsSocks5, HrTCP (conn_address r)), b', payload))" by simp
  have ok: "respond_ok HsSocks5 None = Inr [5, 0, 0, 1, 0, 0, 0, 0, 0, 0]" "respond_err HsSocks5 = Inr [5, 1, 0, 1, 0, 0, 0, 0, 0, 0]"
    by code_simp+
  show ?thesis
    using st ok assms(10)
    by (cases res) (auto simp: serve_proxy_conn_def serve_tcp_proxy_conn_def answer_client_def in_context_def split: fault.splits)
qed

section \<open>Properties\<close>

text \<open>
  Relaying copies everything and counts it: whatever the segmentation, all bytes up to the end of
  the stream are written in order, and the counter grows by their number (modulo \<open>2^64\<close>).
\<close>

theorem relay_copies_and_counts:
  assumes "seg_ok ss"
  shows "copy_with_stats stat ss h = (concat ss, counter_inc stat (of_nat (length (concat ss))) h)"
  using copy_with_stats_all[OF assms] .

theorem relay_copies_and_counts_witness:
  "copy_with_stats 0 [[1, 2], [3]] demo_counters = ([1, 2, 3], counter_inc 0 3 demo_counters)"
  using relay_copies_and_counts[of "[[1, 2], [3]]" 0 demo_counters] by (simp add: seg_ok_def)

text \<open>
  A redirected connection is relayed completely: what was read in advance to look at the
  destination's name, if anything, followed by what is relayed later, is the client's stream; and
  the upstream was connected with exactly the bytes read in advance as initial data.
\<close>

theorem tproxy_complete:
  assumes "serve_tcp_tproxy_conn R now conn dst cfg stats ss early h = (d, Inr (up, ss'), h')"
    and "distinct (map fst (cc_upstreams cfg))" and "\<And>x n c p. conn dst x n c \<noteq> Inl (Panic p)"
  shows "(case d of Some x \<Rightarrow> x | None \<Rightarrow> []) @ concat ss' = concat ss \<and>
    (\<exists>(n, c) \<in> set (cc_upstreams cfg). eligible Stream (verdict R cfg Stream dst d) n c \<and>
       (\<exists>l. conn dst d n c = Inr (up_stream up, l)))"
proof -
  obtain tried s where f: "find_and_connect_stream R now (conn dst d) dst d cfg stats h = (tried, Inr s, h')" "up_stream up = s"
    using assms(1) by (auto simp: serve_tcp_tproxy_conn_def res_simps Let_def split: if_splits prod.splits)
  have "concat ss = (case d of Some x \<Rightarrow> x | None \<Rightarrow> []) @ concat ss'"
    using assms(1) read_some_concat[of 4096 ss]
    by (auto simp: serve_tcp_tproxy_conn_def res_simps Let_def split: if_splits prod.splits)
  moreover have "\<exists>(n, c) \<in> set (cc_upstreams cfg). eligible Stream (verdict R cfg Stream dst d) n c \<and> (\<exists>l. conn dst d n c = Inr (s, l))"
    using find_and_connect_sound[OF assms(2) _ f(1)] assms(3) by blast
  ultimately show ?thesis using f(2) by simp
qed

theorem tproxy_complete_witness:
  "\<exists>up ss' h'. serve_tcp_tproxy_conn demo_routing 100 (\<lambda>a d n c. Inr (n, 5)) (Name (lit ''x'') 80) demo_config Map.empty
       [[1, 2], [3]] True demo_counters = (Some [1, 2], Inr (up, ss'), h') \<and> concat ss' = [3]"
proof -
  obtain tried r h' where f: "find_and_connect_stream demo_routing 100 (\<lambda>n c. Inr (n, 5 :: nat)) (Name (lit ''x'') 80) (Some [1, 2])
      demo_config Map.empty demo_counters = (tried, r, h')" by (metis prod.exhaust)
  obtain s where r: "r = Inr s"
    using find_and_connect_cases[OF demo_distinct _ f] unfolding demo_verdict demo_eligible by auto
  have s: "serve_tcp_tproxy_conn demo_routing 100 (\<lambda>a d n c. Inr (n, 5)) (Name (lit ''x'') 80) demo_config Map.empty
       [[1, 2], [3]] True demo_counters = (Some [1, 2], Inr (\<lparr>up_stream = s, up_tls = False, up_first = []\<rparr>, [[3]]), h')"
    using f r by (simp add: serve_tcp_tproxy_conn_def)
  show ?thesis using tproxy_complete[OF s demo_distinct] s by auto
qed

text \<open>
  Bytes that arrive together with the request are lost: when the client's request and the bytes that
  follow it (the body of a proxied HTTP request, or early data of a tunnel) come in one segment
  of at most 512 bytes, the handshake reads them all, and nothing of what follows the request is
  relayed to the upstream, whatever the protocol.
\<close>

theorem bytes_with_request_lost:
  assumes "http_tokenizer hp" and "length seg \<le> 512"
    and "serve_proxy_conn hp R now conn tls None early cfg stats [seg] h = Proxied w d (Inr (up, relayed)) h'"
  shows "relayed = []"
proof -
  let ?b = "rwb_new (replicate 512 0)"
  obtain w1 r where s: "handshaker_start hp ?b [seg] = (w1, r)" by force
  obtain hs req b1 ss1 where r: "r = Inr ((hs, req), b1, ss1)"
    using assms(3) s by (cases r) (auto simp: serve_proxy_conn_def)
  have e: "ss1 = []" using handshake_one_segment[OF assms(1,2)] s r by simp
  have a: "answer_client t x [] k = (rep, Inr (up, relayed), h') \<Longrightarrow> relayed = []" for t and x :: "'a upstream_conn res" and k rep
    by (auto simp: answer_client_def split: sum.splits)
  show ?thesis
    using assms(3) s r e a
    by (cases req) (auto simp: serve_proxy_conn_def serve_tcp_proxy_conn_def serve_http_proxy_conn_def Let_def split: prod.splits if_splits)
qed

theorem bytes_with_request_lost_witness:
  "\<exists>w d up h'. serve_proxy_conn demo_http demo_routing 100 (\<lambda>a d n c. Inr (n, 5)) (\<lambda>_ _. Inr ()) None True demo_config Map.empty
     [[5, 1, 0, 5, 1, 0, 1, 10, 0, 0, 1, 0, 80, 42]] demo_counters = Proxied w d (Inr (up, [])) h'"
proof -
  let ?a = "IP (SockV4 0x0A000001 80)"
  let ?r = "\<lparr>conn_cmd = CONNECT_TCP, conn_address = ?a\<rparr>"
  let ?seg = "[5, 1, 0, 5, 1, 0, 1, 10, 0, 0, 1, 0, 80, 42] :: bytes"
  have live: "rwb_live (rwb_new (replicate 512 0))" by (simp add: rwb_live_def rwb_new_def rwb_inv_def)
  have gw: "greeting_write \<lparr>auths = [0]\<rparr> = Inr [5, 1, 0]" by code_simp
  have rw: "conn_request_write ?r = Inr [5, 1, 0, 1, 10, 0, 0, 1, 0, 80]" by code_simp
  have wr: "wire_request ?r" "requested ?r = Some (HrTCP ?a)" by (simp_all add: wire_request_def requested_def)
  obtain b' ss' where st: "handshaker_start demo_http (rwb_new (replicate 512 0)) [?seg] = ([5, 0], Inr ((HsSocks5, HrTCP ?a), b', ss'))"
    using socks5_start[OF demo_http_ok live _ _ _ gw wr(1) rw wr(2), of "[?seg]" "[42]"] by (auto simp: seg_ok_def AUTH_NO_PASSWORD_def)
  obtain tried res h' where f: "find_and_connect_stream demo_routing 100 (\<lambda>n c. Inr (n, 5 :: nat)) ?a None
      demo_config Map.empty demo_counters = (tried, res, h')" by (metis prod.exhaust)
  obtain x where x: "res = Inr x"
    using find_and_connect_cases[OF demo_distinct _ f] unfolding demo_verdict demo_eligible by auto
  have "respond_ok HsSocks5 None = Inr [5, 0, 0, 1, 0, 0, 0, 0, 0, 0]" by code_simp
  then obtain w up where p: "serve_proxy_conn demo_http demo_routing 100 (\<lambda>a d n c. Inr (n, 5)) (\<lambda>_ _. Inr ()) None True demo_config
      Map.empty [?seg] demo_counters = Proxied w None (Inr (up, ss')) h'"
    using st f x by (simp add: serve_proxy_conn_def serve_tcp_proxy_conn_def answer_client_def)
  show ?thesis using bytes_with_request_lost[OF demo_http_ok _ p] p by auto
qed

end
