(* ===== verification/Protocols.thy ===== *)
theory Protocols
  imports Client_Conn
begin

text \<open>
  The upstream protocols that add little or no format of their own (src/protocol): direct
  connections, SOCKS5 and HTTP proxies as a client, and the HTTP proxy server; with the stream that
  counts the bytes of a connection (src/io/utils.rs). Connecting, marking a socket and TLS
  are outcomes given to the model; a write takes all its bytes.
\<close>

section \<open>Counted streams\<close>

text \<open>
  \<open>AsyncStreamCounter\<close>: the result of the inner stream is passed on; bytes read count as received and
  bytes taken by a write as sent. The vectored calls do the same.
\<close>

definition acs_poll_read :: "counter_ref \<Rightarrow> bytes res poll \<Rightarrow> counters \<Rightarrow> bytes res poll \<times> counters" where
  "acs_poll_read rx rc h =
     (rc, case rc of Ready (Inr data) \<Rightarrow> counter_inc rx (of_nat (length data)) h | _ \<Rightarrow> h)"

definition acs_poll_write :: "counter_ref \<Rightarrow> nat res poll \<Rightarrow> counters \<Rightarrow> nat res poll \<times> counters" where
  "acs_poll_write tx rc h =
     (rc, case rc of Ready (Inr len) \<Rightarrow> counter_inc tx (of_nat len) h | _ \<Rightarrow> h)"

section \<open>Opening streams\<close>

text \<open>
  The outcomes of connecting to an address, setting the mark of a socket and the TLS handshake for a
  host; and an open connection: what was written to it before and after it was wrapped in the counting
  stream, and what is left to read.
\<close>

record net =
  net_connect :: "address \<Rightarrow> unit res"
  net_mark :: "u32 \<Rightarrow> unit res"
  net_tls :: "rstr \<Rightarrow> unit res"

record 'i opened =
  op_plain :: bytes
  op_counted :: bytes
  op_in :: 'i

definition set_mark :: "net \<Rightarrow> u32 option \<Rightarrow> unit res" where
  "set_mark N fwmark = (case fwmark of Some m \<Rightarrow> net_mark N m | None \<Rightarrow> Inr ())"

definition connect_tcp_marked :: "net \<Rightarrow> address \<Rightarrow> u32 option \<Rightarrow> unit res" where
  "connect_tcp_marked N a fwmark = and_then (net_connect N a) (\<lambda>_. set_mark N fwmark)"

definition connect_http_stream :: "net \<Rightarrow> bool \<Rightarrow> address \<Rightarrow> unit res" where
  "connect_http_stream N tls a = (if tls then in_context ''TLS handshake'' (net_tls N (get_host a)) else Inr ())"

fun initial_bytes :: "bytes option \<Rightarrow> bytes" where
  "initial_bytes (Some b) = (if length b > 0 then b else [])"
| "initial_bytes None = []"

subsection \<open>Direct\<close>

definition direct_new_stream :: "net \<Rightarrow> address \<Rightarrow> bytes option \<Rightarrow> u32 option \<Rightarrow> 'i \<Rightarrow> 'i opened res" where
  "direct_new_stream N dst initial_data fwmark r =
     and_then (net_connect N dst) (\<lambda>_.
     and_then (set_mark N fwmark) (\<lambda>_.
       Inr \<lparr>op_plain = initial_bytes initial_data, op_counted = [], op_in = r\<rparr>))"

text \<open>
  \<open>Direct::new_datagram\<close>: the address family of the socket, and the datagram it sends at once.
\<close>

definition direct_bind_v4 :: "address \<Rightarrow> bool" where
  "direct_bind_v4 dst = (\<not> (case dst of IP (SockV4 _ _) \<Rightarrow> True | _ \<Rightarrow> False))"

definition direct_new_datagram ::
  "(rstr \<Rightarrow> u16 \<Rightarrow> socket_addr list res) \<Rightarrow> net \<Rightarrow> (bool \<Rightarrow> unit res) \<Rightarrow> (bytes \<times> socket_addr \<Rightarrow> unit res) \<Rightarrow>
   address \<Rightarrow> bytes \<Rightarrow> u32 option \<Rightarrow> (bytes \<times> socket_addr) list res" where
  "direct_new_datagram lookup N bind_ok send_ok dst initial_data fwmark =
     and_then (in_context ''Binding UDP socket'' (bind_ok (direct_bind_v4 dst))) (\<lambda>_.
     and_then (set_mark N fwmark) (\<lambda>_.
     and_then (in_context ''Sending initial data'' (resolve_first lookup dst)) (\<lambda>a.
     and_then (in_context ''Sending initial data'' (send_ok (initial_data, a))) (\<lambda>_.
       Inr [(initial_data, a)]))))"

text \<open>The sink of a direct upstream counts each datagram and resolves its destination; the stream counts.\<close>

definition direct_sink ::
  "(rstr \<Rightarrow> u16 \<Rightarrow> socket_addr list res) \<Rightarrow> counter_ref \<Rightarrow> bytes \<times> address \<Rightarrow> counters \<Rightarrow> (bytes \<times> socket_addr) res \<times> counters" where
  "direct_sink lookup tx = (\<lambda>(data, addr) h.
     (and_then (resolve_first lookup addr) (\<lambda>a. Inr (data, a)), counter_inc tx (of_nat (length data)) h))"

definition direct_stream :: "counter_ref \<Rightarrow> (bytes \<times> socket_addr) res \<Rightarrow> counters \<Rightarrow> (bytes \<times> address) res \<times> counters" where
  "direct_stream rx item h =
     (case item of
        Inr (data, addr) \<Rightarrow> (Inr (data, IP addr), counter_inc rx (of_nat (length data)) h)
      | Inl e \<Rightarrow> (Inl e, h))"

subsection \<open>SOCKS5\<close>

text \<open>
  \<open>request_socks5\<close> on the bytes the server sends: what is written, and the bound address with the rest of
  the input. What a request that cannot be encoded leaves on the wire is not recorded.
\<close>

definition request_socks5 :: "client_conn_request \<Rightarrow> bytes \<Rightarrow> bytes \<times> (address \<times> bytes) res" where
  "request_socks5 req r =
     (case in_context ''Sending greeting message'' (greeting_write \<lparr>auths = [AUTH_NO_PASSWORD]\<rparr>) of
        Inl e \<Rightarrow> ([], Inl e)
      | Inr g \<Rightarrow>
          (case in_context ''Receiving greeting response'' (greeting_read_response r) of
             Inl e \<Rightarrow> (g, Inl e)
           | Inr (auth, r1) \<Rightarrow>
               if auth \<noteq> AUTH_NO_PASSWORD then (g, Inl (Err ''Expecting NO_PASSWORD AUTH''))
               else (case in_context ''Sending conn req'' (conn_request_write req) of
                       Inl e \<Rightarrow> (g, Inl e)
                     | Inr q \<Rightarrow>
                         (g @ q, and_then (in_context ''Receiving conn response'' (conn_parse_response r1)) (\<lambda>((code, addr), r2).
                                   if code \<noteq> GRANTED then Inl (Err ''Invalid socks5 status code'') else Inr (addr, r2))))))"

definition socks5_new_stream ::
  "net \<Rightarrow> address \<Rightarrow> address \<Rightarrow> bytes option \<Rightarrow> u32 option \<Rightarrow> bytes \<Rightarrow> bytes opened res" where
  "socks5_new_stream N server dst initial_data fwmark r =
     and_then (in_context ''Connecting to SOCKS server'' (connect_tcp_marked N server fwmark)) (\<lambda>_.
       case request_socks5 \<lparr>conn_cmd = CONNECT_TCP, conn_address = dst\<rparr> r of
         (sent, res) \<Rightarrow>
           and_then (in_context ''Requesting SOCKS5 proxy'' res) (\<lambda>(_, r').
             Inr \<lparr>op_plain = sent, op_counted = initial_bytes initial_data, op_in = r'\<rparr>))"

text \<open>
  \<open>new_datagram\<close>: the address of the relay, the address family of the local socket and the first
  packet, which is counted.
\<close>

definition socks5_new_datagram ::
  "(rstr \<Rightarrow> u16 \<Rightarrow> socket_addr list res) \<Rightarrow> net \<Rightarrow> (bool \<Rightarrow> unit res) \<Rightarrow> (bytes \<times> socket_addr \<Rightarrow> unit res) \<Rightarrow> counter_ref \<Rightarrow>
   address \<Rightarrow> address \<Rightarrow> bytes \<Rightarrow> u32 option \<Rightarrow> bytes \<Rightarrow> counters \<Rightarrow> bytes \<times> (socket_addr \<times> bytes) res \<times> counters" where
  "socks5_new_datagram lookup N bind_ok send_ok tx server dst initial_data fwmark r h =
     (case and_then (in_context ''Connecting to Socks5'' (net_connect N server)) (\<lambda>_. set_mark N fwmark) of
        Inl e \<Rightarrow> ([], Inl e, h)
      | Inr _ \<Rightarrow>
          (case request_socks5 \<lparr>conn_cmd = BIND_UDP, conn_address = dst\<rparr> r of
             (sent, res) \<Rightarrow>
               (case and_then (in_context ''Requesting SOCKS5'' res) (\<lambda>(bounded, _).
                      and_then (bind_ok (case bounded of IP (SockV4 _ _) \<Rightarrow> True | _ \<Rightarrow> False)) (\<lambda>_.
                      and_then (set_mark N fwmark) (\<lambda>_.
                      and_then (resolve_first lookup bounded) (\<lambda>relay_addr.
                      and_then (udp_to_packet \<lparr>repr_addr = dst, repr_payload = initial_data, repr_frag_no = 0\<rparr>) (\<lambda>p.
                        Inr (relay_addr, pkt_buf p)))))) of
                  Inl e \<Rightarrow> (sent, Inl e, h)
                | Inr (relay_addr, data) \<Rightarrow>
                    (sent,
                     and_then (in_context ''Sending initial data'' (send_ok (data, relay_addr))) (\<lambda>_. Inr (relay_addr, data)),
                     counter_inc tx (of_nat (length data)) h))))"

definition socks5_sink :: "counter_ref \<Rightarrow> bytes \<times> address \<Rightarrow> counters \<Rightarrow> bytes res \<times> counters" where
  "socks5_sink tx = (\<lambda>(data, dst) h.
     case udp_to_packet \<lparr>repr_addr = dst, repr_payload = data, repr_frag_no = 0\<rparr> of
       Inl e \<Rightarrow> (Inl e, h)
     | Inr p \<Rightarrow> (Inr (pkt_buf p), counter_inc tx (of_nat (length (pkt_buf p))) h))"

definition socks5_stream :: "counter_ref \<Rightarrow> bytes res \<Rightarrow> counters \<Rightarrow> (bytes \<times> address) res \<times> counters" where
  "socks5_stream rx pkt h =
     (and_then pkt (\<lambda>buf. and_then (udp_new_checked buf) (\<lambda>p.
        and_then (udp_payload p) (\<lambda>d. and_then (udp_addr p) (\<lambda>a. Inr (d, a))))),
      case pkt of Inr buf \<Rightarrow> counter_inc rx (of_nat (length buf)) h | Inl _ \<Rightarrow> h)"

subsection \<open>HTTP proxy\<close>

definition connect_request :: "address \<Rightarrow> rstr option \<Rightarrow> bytes" where
  "connect_request dst auth_header =
     (let b = builder_new (lit ''CONNECT'') (show_address dst)
      in builder_finalise (case auth_header of Some v \<Rightarrow> put_header_text (lit ''Proxy-Authorization'') v b | None \<Rightarrow> b))"

definition http_new_stream ::
  "u16 option tokenizer \<Rightarrow> net \<Rightarrow> address \<Rightarrow> bool \<Rightarrow> rstr option \<Rightarrow> address \<Rightarrow> bytes option \<Rightarrow> u32 option \<Rightarrow> segments \<Rightarrow>
   bytes \<times> http_response http_stream opened res" where
  "http_new_stream hp N server ssl auth_header dst initial_data fwmark ss =
     (case and_then (in_context ''Connecting to HTTP Proxy'' (connect_tcp_marked N server fwmark))
             (\<lambda>_. connect_http_stream N ssl server) of
        Inl e \<Rightarrow> ([], Inl e)
      | Inr _ \<Rightarrow>
          (let sent = connect_request dst auth_header @ initial_bytes initial_data
           in (sent,
               and_then (in_context ''Parsing response'' (parse_response hp ss (rwb_new (replicate 128 0)))) (\<lambda>st.
                 if hs_status_code (st_init st) \<noteq> 200 then Inl (Err ''Invalid status code from HTTP Proxy'')
                 else Inr \<lparr>op_plain = [], op_counted = sent, op_in = st\<rparr>))))"

section \<open>HTTP proxy server\<close>

definition http_reply_error :: bytes where
  "http_reply_error = lit ''HTTP/1.1 500 Error'' @ crlf @ crlf"

definition http_reply_ok :: bytes where
  "http_reply_ok = lit ''HTTP/1.1 200 OK'' @ crlf @ crlf"

text \<open>
  The task of \<open>serve\<close> for one client, up to the relay: what is written to it, and the upstream (the
  outcome of \<open>new_stream\<close>) with the stream to relay.
\<close>

definition http_serve ::
  "(rstr option \<times> rstr option) tokenizer \<Rightarrow> (address \<Rightarrow> bytes option \<Rightarrow> 'u res) \<Rightarrow> segments \<Rightarrow>
   bytes \<times> ('u \<times> http_request http_stream) res" where
  "http_serve hp new_stream ss =
     (case in_context ''Error parsing request'' (parse_request hp ss (rwb_new (replicate 4096 0))) of
        Inl e \<Rightarrow> ([], Inl e)
      | Inr st \<Rightarrow>
          (let r = st_init st
           in case (if hr_method r = lit ''CONNECT''
                    then and_then (address_try_from (hr_path r)) (\<lambda>a. Inr (True, a, None))
                    else and_then (in_context ''Parsing as HTTP URL'' (http_url_try_from (hr_path r))) (\<lambda>u.
                           Inr (False, hu_address u,
                             Some (builder_finalise (foldl (\<lambda>b (n, v). put_header n v b) (builder_new (hr_method r) (hu_path u)) (hr_headers r)))))) of
                Inl e \<Rightarrow> ([], Inl e)
              | Inr (reply_http_response, dst, initial_data) \<Rightarrow>
                  (case new_stream dst initial_data of
                     Inl (Panic p) \<Rightarrow> ([], Inl (Panic p))
                   | Inl e \<Rightarrow> (http_reply_error, Inl e)
                   | Inr u \<Rightarrow> (if reply_http_response then http_reply_ok else [], Inr (u, st)))))"

section \<open>Lemmas\<close>

lemma greeting_bytes:
  "greeting_write \<lparr>auths = [AUTH_NO_PASSWORD]\<rparr> = Inr [5, 1, 0]"
  "greeting_read_response (5 # 0 # r) = Inr (AUTH_NO_PASSWORD, r)"
  by (simp_all add: greeting_write_def greeting_read_response_def read_exact_def AUTH_NO_PASSWORD_def)

lemma conn_reply_read:
  assumes "wire_addr a" and "conn_respond code a = Inr reply"
  shows "conn_parse_response (reply @ rest) = Inr ((code, a), rest)"
proof -
  obtain bs where bs: "address_write a = Inr bs" "reply = [5, status_byte code, 0] @ bs"
    using assms(2) by (auto simp: conn_respond_def res_simps)
  moreover have "ConnStatusCode (status_byte code) = code" by (cases code) simp
  ultimately show ?thesis
    using address_parse_async_write[OF assms(1) bs(1), of rest]
    by (simp add: conn_parse_response_def read_exact_def numeral_3_eq_3 numeral_2_eq_2)
qed

text \<open>The request of the SOCKS5 client, answered by a server that grants it.\<close>

lemma request_socks5_granted:
  assumes "conn_request_write req = Inr q" and "wire_addr a" and "conn_respond GRANTED a = Inr reply"
  shows "request_socks5 req ([5, 0] @ reply @ down) = ([5, 1, 0] @ q, Inr (a, down))"
  using assms(1) conn_reply_read[OF assms(2,3), of down] by (simp add: request_socks5_def greeting_bytes)

lemma default_wire [simp]: "wire_addr default_address"
  by (simp add: default_address_def)

lemma respond_ok_socks5:
  assumes "wire_addr (case bound of Some a \<Rightarrow> IP a | None \<Rightarrow> default_address)"
  shows "\<exists>reply. respond_ok HsSocks5 bound = Inr reply \<and> conn_respond GRANTED (case bound of Some a \<Rightarrow> IP a | None \<Rightarrow> default_address) = Inr reply"
  using address_write_total[OF assms] by (auto simp: conn_respond_def)

text \<open>The request of the HTTP proxy client as a request with headers.\<close>

fun auth_headers :: "rstr option \<Rightarrow> headers" where
  "auth_headers None = []"
| "auth_headers (Some v) = [(lit ''Proxy-Authorization'', v)]"

lemma connect_request_to_writer:
  "connect_request dst auth =
     request_to_writer \<lparr>hr_headers = auth_headers auth, hr_method = lit ''CONNECT'', hr_path = show_address dst\<rparr>"
  by (cases auth) (simp_all add: connect_request_def request_to_writer_def to_builder_def put_header_def put_header_text_def Let_def)

lemma http_proxy_request:
  assumes "stream_parser (request_parser hp)" and "seg_ok ss" and "concat ss = w @ rest" and "w \<noteq> []"
    and "request_parser hp w = Inr (Some (length w, r))"
  shows "\<exists>st. parse_request hp ss (rwb_new (replicate 4096 0)) = Inr st \<and> st_init st = r \<and> st_ok st \<and> st_data st = rest"
proof -
  have ne: "concat ss \<noteq> []" using assms(3,4) by (simp del: concat_eq_Nil_conv)
  have whole: "request_parser hp (concat ss) = Inr (Some (length w, r))"
    unfolding assms(3) by (rule stream_parser.stable[OF assms(1,5)])
  have live: "rwb_live (rwb_new (replicate 4096 0))" "read_buf (rwb_new (replicate 4096 0)) = []"
    by (simp_all add: rwb_live_def rwb_new_def rwb_inv_def read_buf_def)
  show ?thesis using read_head_data[OF assms(1) live(1) assms(2) live(2) whole ne] assms(3) by (auto simp: parse_request_def)
qed

text \<open>The calls a relay makes on a counted stream, and the bytes they moved.\<close>

datatype acs_call = AcsRead "bytes res poll" | AcsWrite "nat res poll"

fun acs_run :: "counter_ref \<Rightarrow> counter_ref \<Rightarrow> acs_call list \<Rightarrow> counters \<Rightarrow> counters" where
  "acs_run rx tx [] h = h"
| "acs_run rx tx (AcsRead rc # cs) h = acs_run rx tx cs (snd (acs_poll_read rx rc h))"
| "acs_run rx tx (AcsWrite rc # cs) h = acs_run rx tx cs (snd (acs_poll_write tx rc h))"

fun acs_received :: "acs_call \<Rightarrow> nat" where
  "acs_received (AcsRead (Ready (Inr data))) = length data"
| "acs_received _ = 0"

fun acs_sent :: "acs_call \<Rightarrow> nat" where
  "acs_sent (AcsWrite (Ready (Inr n))) = n"
| "acs_sent _ = 0"

lemma counter_get_inc: "counter_get q (counter_inc r v h) = (if q = r then counter_get q h + v else counter_get q h)"
  by (simp add: counter_get_def counter_inc_def)

lemma acs_read_counts: "counter_get q (snd (acs_poll_read rx rc h)) = counter_get q h + (if q = rx then of_nat (acs_received (AcsRead rc)) else 0)"
  by (simp add: acs_poll_read_def counter_get_inc split: poll.splits sum.splits)

lemma acs_write_counts: "counter_get q (snd (acs_poll_write tx rc h)) = counter_get q h + (if q = tx then of_nat (acs_sent (AcsWrite rc)) else 0)"
  by (simp add: acs_poll_write_def counter_get_inc split: poll.splits sum.splits)

section \<open>Properties\<close>

text \<open>
  C24: A SOCKS5 upstream that is another instance of this program understands the request: for every
  destination the format carries, what \<open>new_stream\<close> writes, cut in any way, makes the handshake of the
  other side return a TCP request for exactly that destination, and nothing of what follows is lost;
  with the replies of that handshake the client's connection opens and continues at the first byte
  behind them, and the initial data is what it writes next.
\<close>

theorem socks5_chain:
  assumes "http_tokenizer hp" and "wire_addr_strict dst" and "connect_tcp_marked N server mark = Inr ()"
  shows "\<exists>w reply c. respond_ok HsSocks5 None = Inr reply \<and>
     socks5_new_stream N server dst d mark (w @ reply @ down) = Inr c \<and> op_in c = down \<and> op_counted c = initial_bytes d \<and>
     (\<forall>ss. seg_ok ss \<and> concat ss = op_plain c @ rest \<longrightarrow>
        (\<exists>b' ss'. handshaker_start hp (rwb_new (replicate 512 0)) ss = (w, Inr ((HsSocks5, HrTCP dst), b', ss')) \<and>
           read_buf b' @ concat ss' = rest))"
proof -
  let ?q = "\<lparr>conn_cmd = CONNECT_TCP, conn_address = dst\<rparr>"
  have wr: "wire_request ?q" using assms(2) by (simp add: wire_request_def)
  obtain q where q: "conn_request_write ?q = Inr q" using conn_req.encode_total[OF wr] by blast
  obtain reply where r: "respond_ok HsSocks5 None = Inr reply" "conn_respond GRANTED default_address = Inr reply"
    using respond_ok_socks5[of None] by auto
  let ?c = "\<lparr>op_plain = [5, 1, 0] @ q, op_counted = initial_bytes d, op_in = down\<rparr>"
  have "socks5_new_stream N server dst d mark ([5, 0] @ reply @ down) = Inr ?c"
    using assms(3) request_socks5_granted[OF q default_wire r(2), of down] by (simp add: socks5_new_stream_def)
  moreover have "\<exists>b' ss'. handshaker_start hp (rwb_new (replicate 512 0)) ss = ([5, 0], Inr ((HsSocks5, HrTCP dst), b', ss')) \<and>
      read_buf b' @ concat ss' = rest" if "seg_ok ss" "concat ss = ([5, 1, 0] @ q) @ rest" for ss
    using socks5_start[OF assms(1) _ that(1) _ _ greeting_bytes(1) wr q, of "rwb_new (replicate 512 0)" "HrTCP dst" rest] that(2)
    by (auto simp: rwb_live_def rwb_new_def rwb_inv_def read_buf_def requested_def)
  ultimately show ?thesis using r(1) by (metis opened.select_convs)
qed

definition demo_net :: net where
  "demo_net = \<lparr>net_connect = \<lambda>_. Inr (), net_mark = \<lambda>_. Inr (), net_tls = \<lambda>_. Inr ()\<rparr>"

lemma demo_net_connects [simp]: "connect_tcp_marked demo_net a mark = Inr ()" "connect_http_stream demo_net t a = Inr ()"
  by (cases mark; simp add: demo_net_def connect_tcp_marked_def set_mark_def connect_http_stream_def)+

theorem socks5_chain_witness:
  "\<exists>w reply c. respond_ok HsSocks5 None = Inr reply \<and>
     socks5_new_stream demo_net (Name (lit ''p'') 1080) (IP (SockV4 1 80)) (Some [9]) (Some 7) (w @ reply @ [8]) = Inr c \<and>
     op_in c = [8] \<and> op_counted c = [9]"
  using socks5_chain[OF demo_http_ok, of "IP (SockV4 1 80)" demo_net "Name (lit ''p'') 1080" "Some 7" "Some [9]" "[8]" "[]"] by auto

text \<open>
  Datagrams through a SOCKS5 upstream: a datagram given to the sink arrives at the relay of another
  instance as a packet with the same payload and destination, and counts with its whole packet
  length; the packet that relay sends back for a reply goes to the datagram's sender, and the stream
  reads from it the payload and the replying address.
\<close>

theorem socks5_datagrams_chain:
  assumes "wire_addr_strict dst" and "wire_addr_strict a"
  shows "\<exists>buf p q. socks5_sink tx (d, dst) h = (Inr buf, counter_inc tx (of_nat (3 + address_write_len dst + length d)) h) \<and>
     relay_recv s (Inr (buf, src)) = (s\<lparr>relay_last_addr := Some src\<rparr>, Some (Inr p)) \<and>
     udp_payload p = Inr d \<and> udp_addr p = Inr dst \<and>
     udp_to_packet \<lparr>repr_addr = a, repr_payload = e, repr_frag_no = 0\<rparr> = Inr q \<and>
     relay_send (s\<lparr>relay_last_addr := Some src\<rparr>) q = Inr (pkt_buf q, src) \<and>
     fst (socks5_stream rx (Inr (pkt_buf q)) h) = Inr (e, a)"
proof -
  obtain p where p: "udp_to_packet \<lparr>repr_addr = dst, repr_payload = d, repr_frag_no = 0\<rparr> = Inr p"
      "length (pkt_buf p) = 3 + address_write_len dst + length d" "udp_addr p = Inr dst" "udp_payload p = Inr d"
    using udp_packet_reads[of "\<lparr>repr_addr = dst, repr_payload = d, repr_frag_no = 0\<rparr>"] assms(1)
    by (auto simp: udp_write_len_def udp_header_write_len_def)
  obtain q where q: "udp_to_packet \<lparr>repr_addr = a, repr_payload = e, repr_frag_no = 0\<rparr> = Inr q" "udp_addr q = Inr a" "udp_payload q = Inr e"
    using udp_packet_reads[of "\<lparr>repr_addr = a, repr_payload = e, repr_frag_no = 0\<rparr>"] assms(2) by auto
  show ?thesis
    using p q udp_to_packet_checked[OF p(1)] udp_to_packet_checked[OF q(1)]
    by (auto simp: socks5_sink_def socks5_stream_def relay_recv_def relay_send_def)
qed

theorem socks5_datagrams_chain_witness:
  "\<exists>buf p. fst (socks5_sink 0 ([7], IP (SockV4 1 53)) \<lparr>ct_value = \<lambda>_. 0, ct_next = 2\<rparr>) = Inr buf \<and>
     snd (relay_recv relay_new (Inr (buf, SockV4 2 2))) = Some (Inr p) \<and> udp_payload p = Inr [7]"
  using socks5_datagrams_chain[of "IP (SockV4 1 53)" "IP (SockV4 3 4)" 0 "[7]" "\<lparr>ct_value = \<lambda>_. 0, ct_next = 2\<rparr>" relay_new "SockV4 2 2" "[]" 1]
  by auto

text \<open>
  C25: An HTTP upstream that is the HTTP proxy server of this program: for a destination whose text
  reads back, and tokenizers that read back the two messages as they are written, the server connects to
  exactly that destination and relays to it the initial data and all that follows; its answer opens
  the client's stream at the first byte behind it.
\<close>

theorem http_proxy_chain:
  assumes "stream_parser (request_parser hp)" and "stream_parser (response_parser hp')"
    and "connect_tcp_marked N server mark = Inr ()" and "connect_http_stream N ssl server = Inr ()"
    and "(\<exists>i p. dst = IP (SockV4 i p)) \<or> (\<exists>h p. dst = Name h p \<and> h \<noteq> [] \<and> parse_socket_addr_str (show_address dst) = None)"
    and "r = \<lparr>hr_headers = auth_headers auth, hr_method = lit ''CONNECT'', hr_path = show_address dst\<rparr>"
    and "request_parser hp (request_to_writer r) = Inr (Some (length (request_to_writer r), r))"
    and "response_parser hp' http_reply_ok = Inr (Some (length http_reply_ok, \<lparr>hs_headers = hs', hs_status_code = 200\<rparr>))"
    and "seg_ok ss" and "concat ss = request_to_writer r @ initial_bytes d @ up" and "new_stream dst None = Inr u"
    and "seg_ok answer" and "concat answer = http_reply_ok @ down"
  shows "\<exists>st c. http_serve hp new_stream ss = (http_reply_ok, Inr (u, st)) \<and> st_data st = initial_bytes d @ up \<and>
     http_new_stream hp' N server ssl auth dst d mark answer = (request_to_writer r @ initial_bytes d, Inr c) \<and>
     st_data (op_in c) = down"
proof -
  have "request_to_writer r \<noteq> []" by (simp add: request_to_writer_def builder_finalise_def)
  then obtain st where st: "parse_request hp ss (rwb_new (replicate 4096 0)) = Inr st" "st_data st = initial_bytes d @ up" "st_init st = r"
    using http_proxy_request[OF assms(1,9,10) _ assms(7)] by blast
  have ne: "concat answer \<noteq> []" using assms(13) by (simp add: http_reply_ok_def del: concat_eq_Nil_conv)
  have whole: "response_parser hp' (concat answer) = Inr (Some (length http_reply_ok, \<lparr>hs_headers = hs', hs_status_code = 200\<rparr>))"
    unfolding assms(13) by (rule stream_parser.stable[OF assms(2,8)])
  have live: "rwb_live (rwb_new (replicate 128 0))" "read_buf (rwb_new (replicate 128 0)) = []"
    by (simp_all add: rwb_live_def rwb_new_def rwb_inv_def read_buf_def)
  obtain c where c: "parse_response hp' answer (rwb_new (replicate 128 0)) = Inr c" "st_data c = down" "hs_status_code (st_init c) = 200"
    using read_head_data[OF assms(2) live(1) assms(12) live(2) whole ne] assms(13) by (auto simp: parse_response_def)
  show ?thesis
    using st c assms(3,4,6,11) address_shown[OF assms(5)] by (auto simp: http_serve_def http_new_stream_def connect_request_to_writer Let_def)
qed

theorem http_proxy_chain_witness:
  "\<exists>hp hp' st c. http_serve hp (\<lambda>_ _. Inr ()) [connect_request (IP (SockV4 1 80)) None, [1, 2]] = (http_reply_ok, Inr ((), st)) \<and>
     st_data st = [1, 2] \<and>
     http_new_stream hp' demo_net (Name (lit ''p'') 3128) True None (IP (SockV4 1 80)) (Some [1]) None [http_reply_ok, [5]] =
       (connect_request (IP (SockV4 1 80)) None @ [1], Inr c) \<and> st_data (op_in c) = [5]"
proof -
  let ?w = "connect_request (IP (SockV4 1 80)) None"
  let ?hp = "knows ?w ((Some (lit ''CONNECT''), Some (show_address (IP (SockV4 1 80)))), [])"
  let ?hp' = "knows http_reply_ok (Some 200, [])"
  have "?w \<noteq> []" "http_reply_ok \<noteq> []" by (simp_all add: connect_request_def builder_finalise_def http_reply_ok_def Let_def)
  then have seg: "seg_ok [?w, [1, 2]]" "seg_ok [http_reply_ok, [5]]" by (simp_all add: seg_ok_def)
  let ?r = "\<lparr>hr_headers = auth_headers None, hr_method = lit ''CONNECT'', hr_path = show_address (IP (SockV4 1 80))\<rparr>"
  have w: "?w = request_to_writer ?r" by (rule connect_request_to_writer)
  then have "request_parser ?hp (request_to_writer ?r) = Inr (Some (length (request_to_writer ?r), ?r))"
    unfolding w[symmetric] by (simp add: request_parser_def knows_def)
  moreover have "response_parser ?hp' http_reply_ok =
      Inr (Some (length http_reply_ok, \<lparr>hs_headers = [], hs_status_code = 200\<rparr>))"
    by (simp add: response_parser_def knows_def)
  ultimately show ?thesis
    using http_proxy_chain[OF knows_parser(1) knows_parser(2) demo_net_connects, where dst = "IP (SockV4 1 80)" and auth = None and ss = "[?w, [1, 2]]"
        and d = "Some [1]" and up = "[2]" and new_stream = "\<lambda>_ _. Inr ()" and u = "()" and answer = "[http_reply_ok, [5]]" and down = "[5]"
        and server = "Name (lit ''p'') 3128" and mark = None and ssl = True and r = ?r] seg
    unfolding w[symmetric] by fastforce
qed

text \<open>
  A counted stream counts exactly what it moves: after any sequence of reads and writes, pending,
  failed or not, the two counters have grown by the bytes delivered and the bytes taken, modulo
  \<open>2^64\<close>, and no other counter has changed.
\<close>

theorem transfer_counted:
  assumes "rx \<noteq> tx"
  shows "counter_get rx (acs_run rx tx cs h) = counter_get rx h + of_nat (sum_list (map acs_received cs)) \<and>
     counter_get tx (acs_run rx tx cs h) = counter_get tx h + of_nat (sum_list (map acs_sent cs)) \<and>
     (q \<noteq> rx \<and> q \<noteq> tx \<longrightarrow> counter_get q (acs_run rx tx cs h) = counter_get q h)"
  using assms
  by (induction rx tx cs h rule: acs_run.induct) (auto simp: acs_read_counts acs_write_counts)

theorem transfer_counted_witness:
  "counter_get 1 (acs_run 1 2 [AcsRead (Ready (Inr [7, 8])), AcsWrite Pending, AcsWrite (Ready (Inr 5))] \<lparr>ct_value = \<lambda>_. 0, ct_next = 3\<rparr>) = 2"
  using transfer_counted[of 1 2 "[AcsRead (Ready (Inr [7, 8])), AcsWrite Pending, AcsWrite (Ready (Inr 5))]" "\<lparr>ct_value = \<lambda>_. 0, ct_next = 3\<rparr>" 3]
  by (simp add: counter_get_def)

end
