(* ===== verification/Relay.thy ===== *)
theory Relay
  imports Protocols "HOL-Library.Sublist"
begin

text \<open>
  The relay between two streams (src/utils.rs): \<open>copy_duplex\<close> runs one copy task per direction and ends
  with the first of them that ends. Every proxied stream of the program finishes in it: the
  connections of the client (src/client/tcp.rs, http.rs), the tunnel server
  (src/protocol/tcpman/server/handler.rs), and, with the two tasks written out, the FireTCP server
  (src/protocol/firetcp/server.rs). The network decides the outcome of each read, write and
  flush; a poll of the relay takes the outcomes that are available to its two tasks.
\<close>

section \<open>One direction\<close>

text \<open>
  A copy task waits for its reader, has bytes still to write, flushes, or has ended. \<open>copy_with_stats\<close>
  counts what it reads and does not flush; \<open>copy\<close> of the \<open>futures\<close> library (no counter) is documented to copy
  all bytes up to the end of the reader and to flush the writer then. A reader or writer may be a
  stream of \<open>AsyncStreamCounter\<close>, whose counters are \<open>cp_rstat\<close> and \<open>cp_wstat\<close>. The last two fields record
  all bytes read and written so far.
\<close>

datatype copy_phase = Reading | Writing bytes | Flushing | Finished "unit res"

record copier =
  cp_count :: "counter_ref option"
  cp_rstat :: "counter_ref option"
  cp_wstat :: "counter_ref option"
  cp_phase :: copy_phase
  cp_read :: bytes
  cp_written :: bytes

definition copier_new :: "counter_ref option \<Rightarrow> counter_ref option \<Rightarrow> counter_ref option \<Rightarrow> copier" where
  "copier_new cnt rstat wstat =
     \<lparr>cp_count = cnt, cp_rstat = rstat, cp_wstat = wstat, cp_phase = Reading, cp_read = [], cp_written = []\<rparr>"

text \<open>
  The outcomes of the calls: bytes (none at the end of the stream) or an error; the number of bytes
  taken, at most those offered, or an error; a flush. An outcome that does not fit the task's state changes nothing.
\<close>

datatype io_outcome = ReadOut "bytes res" | WriteOut "nat res" | FlushOut "unit res"

definition write_failed :: "copier \<Rightarrow> fault \<Rightarrow> unit res" where
  "write_failed c e = (case cp_count c of Some _ \<Rightarrow> in_context ''Writing to'' (Inl e) | None \<Rightarrow> Inl e)"

fun copier_next :: "io_outcome \<Rightarrow> copier \<Rightarrow> copier" where
  "copier_next (ReadOut r) c =
     (case cp_phase c of
        Reading \<Rightarrow>
          (case r of
             Inl e \<Rightarrow> c\<lparr>cp_phase := Finished (Inl e)\<rparr>
           | Inr d \<Rightarrow>
               if d = [] then c\<lparr>cp_phase := (if cp_count c = None then Flushing else Finished (Inr ()))\<rparr>
               else c\<lparr>cp_phase := Writing d, cp_read := cp_read c @ d\<rparr>)
      | _ \<Rightarrow> c)"
| "copier_next (WriteOut r) c =
     (case cp_phase c of
        Writing d \<Rightarrow>
          (case r of
             Inl e \<Rightarrow> c\<lparr>cp_phase := Finished (write_failed c e)\<rparr>
           | Inr n \<Rightarrow>
               if n = 0 then c\<lparr>cp_phase := Finished (write_failed c (Err ''WriteZero''))\<rparr>
               else c\<lparr>cp_phase := (if length d \<le> n then Reading else Writing (drop n d)),
                      cp_written := cp_written c @ take n d\<rparr>)
      | _ \<Rightarrow> c)"
| "copier_next (FlushOut r) c =
     (case cp_phase c of Flushing \<Rightarrow> c\<lparr>cp_phase := Finished r\<rparr> | _ \<Rightarrow> c)"

text \<open>The counters: of the task itself, and of the counting streams it reads from and writes to.\<close>

definition inc_opt :: "counter_ref option \<Rightarrow> nat \<Rightarrow> counters \<Rightarrow> counters" where
  "inc_opt r n h = (case r of Some k \<Rightarrow> counter_inc k (of_nat n) h | None \<Rightarrow> h)"

fun copier_stats :: "io_outcome \<Rightarrow> copier \<Rightarrow> counters \<Rightarrow> counters" where
  "copier_stats (ReadOut r) c h =
     (case cp_phase c of
        Reading \<Rightarrow>
          inc_opt (cp_count c) (case r of Inr d \<Rightarrow> length d | Inl _ \<Rightarrow> 0)
            (case cp_rstat c of Some rx \<Rightarrow> snd (acs_poll_read rx (Ready r) h) | None \<Rightarrow> h)
      | _ \<Rightarrow> h)"
| "copier_stats (WriteOut r) c h =
     (case cp_phase c of
        Writing d \<Rightarrow>
          (case cp_wstat c of
             Some tx \<Rightarrow> snd (acs_poll_write tx (Ready (and_then r (\<lambda>n. Inr (min n (length d))))) h)
           | None \<Rightarrow> h)
      | _ \<Rightarrow> h)"
| "copier_stats (FlushOut r) c h = h"

fun copier_run :: "io_outcome list \<Rightarrow> copier \<times> counters \<Rightarrow> copier \<times> counters" where
  "copier_run [] s = s"
| "copier_run (x # xs) (c, h) = copier_run xs (copier_next x c, copier_stats x c h)"

section \<open>Both directions\<close>

record duplex =
  dx_up :: copier
  dx_down :: copier
  dx_heap :: counters
  dx_result :: "unit res option"

text \<open>\<open>copy_duplex\<close> with the counters of its arguments; \<open>stats\<close> are the counters of a counted second stream.\<close>

definition copy_duplex ::
  "counter_ref option \<Rightarrow> counter_ref option \<Rightarrow> (counter_ref \<times> counter_ref) option \<Rightarrow> counters \<Rightarrow> duplex" where
  "copy_duplex d1d2 d2d1 stats h =
     \<lparr>dx_up = copier_new d1d2 None (map_option fst stats), dx_down = copier_new d2d1 (map_option snd stats) None,
      dx_heap = h, dx_result = None\<rparr>"

fun poll_of :: "copy_phase \<Rightarrow> unit res poll" where
  "poll_of (Finished r) = Ready r"
| "poll_of _ = Pending"

text \<open>
  One poll of the race: both tasks go on with the outcomes available to them, then the first that is
  ready gives the result. A relay that has ended is not polled again, and its tasks are dropped.
\<close>

definition duplex_poll :: "io_outcome list \<Rightarrow> io_outcome list \<Rightarrow> duplex \<Rightarrow> duplex" where
  "duplex_poll up down s =
     (case dx_result s of
        Some _ \<Rightarrow> s
      | None \<Rightarrow>
          (let (c1, h1) = copier_run up (dx_up s, dx_heap s);
               (c2, h2) = copier_run down (dx_down s, h1)
           in \<lparr>dx_up = c1, dx_down = c2, dx_heap = h2,
               dx_result = (case race_poll (poll_of (cp_phase c1)) (poll_of (cp_phase c2)) of
                              Ready r \<Rightarrow> Some r | Pending \<Rightarrow> None)\<rparr>))"

fun duplex_run :: "(io_outcome list \<times> io_outcome list) list \<Rightarrow> duplex \<Rightarrow> duplex" where
  "duplex_run [] s = s"
| "duplex_run ((up, down) # ps) s = duplex_run ps (duplex_poll up down s)"

section \<open>Lemmas\<close>

subsection \<open>One direction\<close>

text \<open>What a task owes its writer, and what it has added to a counter.\<close>

definition copier_ok :: "copier \<Rightarrow> bool" where
  "copier_ok c \<longleftrightarrow>
     (case cp_phase c of
        Writing d \<Rightarrow> d \<noteq> [] \<and> cp_read c = cp_written c @ d
      | Finished (Inl _) \<Rightarrow> prefix (cp_written c) (cp_read c)
      | _ \<Rightarrow> cp_read c = cp_written c)"

definition counted :: "copier \<Rightarrow> counter_ref \<Rightarrow> u64" where
  "counted c k =
     (if cp_count c = Some k then of_nat (length (cp_read c)) else 0) +
     (if cp_rstat c = Some k then of_nat (length (cp_read c)) else 0) +
     (if cp_wstat c = Some k then of_nat (length (cp_written c)) else 0)"

lemma copier_ok_new [simp]: "copier_ok (copier_new cnt r w)"
  by (simp add: copier_ok_def copier_new_def)

lemma counted_new [simp]: "counted (copier_new cnt r w) k = 0"
  by (simp add: counted_def copier_new_def)

lemma write_failed_Inl: "\<exists>e'. write_failed c e = Inl e'"
  by (cases e) (simp_all add: write_failed_def split: option.splits)

lemma copier_next_ok:
  assumes "copier_ok c"
  shows "copier_ok (copier_next x c)"
proof (cases x)
  case (ReadOut r)
  then show ?thesis using assms by (cases r; cases "cp_phase c") (auto simp: copier_ok_def)
next
  case (WriteOut r)
  show ?thesis
  proof (cases "cp_phase c")
    case (Writing d)
    then have d: "d \<noteq> []" "cp_read c = cp_written c @ d" using assms by (auto simp: copier_ok_def)
    obtain e1 where e1: "write_failed c (Err ''WriteZero'') = Inl e1" using write_failed_Inl by blast
    have "copier_ok (c\<lparr>cp_phase := Finished (write_failed c e)\<rparr>)" for e
      using write_failed_Inl[of c e] d by (auto simp: copier_ok_def)
    moreover have "cp_read c = (cp_written c @ take n d) @ drop n d" for n using d by simp
    ultimately show ?thesis using WriteOut Writing d by (cases r) (auto simp: copier_ok_def)
  qed (use assms WriteOut in auto)
next
  case (FlushOut r)
  then show ?thesis using assms by (cases "cp_phase c"; cases r) (auto simp: copier_ok_def)
qed

lemma counter_get_inc_opt: "counter_get k (inc_opt r n h) = counter_get k h + (if r = Some k then of_nat n else 0)"
  by (cases r) (simp_all add: inc_opt_def counter_get_inc)


lemma copier_counts:
  assumes "copier_ok c"
  shows "counter_get k (copier_stats x c h) - counted (copier_next x c) k = counter_get k h - counted c k"
proof (cases x)
  case (ReadOut r)
  then show ?thesis
    by (cases "cp_phase c"; cases r; cases "cp_rstat c")
      (auto simp: counter_get_inc counter_get_inc_opt acs_poll_read_def counted_def)
next
  case (WriteOut r)
  then show ?thesis
    by (cases "cp_phase c"; cases r; cases "cp_wstat c")
      (auto simp: counter_get_inc acs_poll_write_def counted_def min_def)
next
  case (FlushOut r)
  then show ?thesis by (cases "cp_phase c") (simp_all add: counted_def)
qed

lemma copier_run_append: "copier_run (xs @ ys) s = copier_run ys (copier_run xs s)"
  by (induction xs s rule: copier_run.induct) simp_all

text \<open>The counters do not influence a task.\<close>

lemma copier_run_fst: "fst (copier_run xs (c, h)) = fold copier_next xs c"
  by (induction xs "(c, h)" arbitrary: c h rule: copier_run.induct) simp_all

lemma copier_run_inv:
  assumes "copier_ok c" and "copier_run xs (c, h) = (c', h')"
  shows "copier_ok c' \<and> counter_get k h' - counted c' k = counter_get k h - counted c k"
  using assms
proof (induction xs arbitrary: c h)
  case (Cons x xs)
  then show ?case using copier_next_ok copier_counts by (metis copier_run.simps(2))
qed simp

text \<open>A task that has ended stays so.\<close>

lemma copier_finished: "cp_phase c = Finished r \<Longrightarrow> fold copier_next xs c = c"
proof (induction xs)
  case (Cons x xs)
  then show ?case by (cases x) simp_all
qed simp

lemma running_before: "(\<And>r. cp_phase (fold copier_next (xs @ ys) c) \<noteq> Finished r) \<Longrightarrow> cp_phase (fold copier_next xs c) \<noteq> Finished r"
  by (metis copier_finished fold_append comp_apply)

text \<open>
  A segment, and the sizes of the writes that together take it; the task relays it. Outcomes with
  data or progress do not end a task.
\<close>

fun segment_io :: "bytes \<times> nat list \<Rightarrow> io_outcome list" where
  "segment_io (d, ks) = ReadOut (Inr d) # map (\<lambda>k. WriteOut (Inr k)) ks"

definition taken :: "bytes \<times> nat list \<Rightarrow> bool" where
  "taken p \<longleftrightarrow> fst p \<noteq> [] \<and> 0 \<notin> set (snd p) \<and> sum_list (snd p) = length (fst p)"

fun live_io :: "io_outcome \<Rightarrow> bool" where
  "live_io (ReadOut r) = (case r of Inr d \<Rightarrow> d \<noteq> [] | Inl _ \<Rightarrow> False)"
| "live_io (WriteOut r) = (case r of Inr n \<Rightarrow> n \<noteq> 0 | Inl _ \<Rightarrow> False)"
| "live_io (FlushOut r) = True"

lemma writes_done:
  assumes "cp_phase c = Writing d" and "d \<noteq> []" and "0 \<notin> set ks" and "sum_list ks = length d"
  shows "fold copier_next (map (\<lambda>k. WriteOut (Inr k)) ks) c = c\<lparr>cp_phase := Reading, cp_written := cp_written c @ d\<rparr>"
  using assms
proof (induction ks arbitrary: c d)
  case (Cons k ks)
  show ?case
  proof (cases "length d \<le> k")
    case True
    then have "ks = []" using Cons.prems by (cases ks) auto
    then show ?thesis using Cons.prems True by simp
  next
    case False
    let ?c = "c\<lparr>cp_phase := Writing (drop k d), cp_written := cp_written c @ take k d\<rparr>"
    have "fold copier_next (map (\<lambda>k. WriteOut (Inr k)) ks) ?c = ?c\<lparr>cp_phase := Reading, cp_written := cp_written ?c @ drop k d\<rparr>"
      using Cons.prems False by (intro Cons.IH) auto
    then show ?thesis using Cons.prems False by simp
  qed
qed simp

lemma segment_relayed:
  assumes "cp_phase c = Reading" and "taken p"
  shows "fold copier_next (segment_io p) c = c\<lparr>cp_read := cp_read c @ fst p, cp_written := cp_written c @ fst p\<rparr>"
proof (cases p)
  case (Pair d ks)
  let ?c = "c\<lparr>cp_phase := Writing d, cp_read := cp_read c @ d\<rparr>"
  have "fold copier_next (map (\<lambda>k. WriteOut (Inr k)) ks) ?c = ?c\<lparr>cp_phase := Reading, cp_written := cp_written ?c @ d\<rparr>"
    using assms(2) Pair by (intro writes_done) (auto simp: taken_def)
  moreover have "copier_next (ReadOut (Inr d)) c = ?c" using assms Pair by (simp add: taken_def)
  ultimately show ?thesis using assms(1) Pair by simp
qed

lemma segments_relayed:
  assumes "cp_phase c = Reading" and "\<forall>p \<in> set ps. taken p"
  shows "fold copier_next (concat (map segment_io ps)) c =
    c\<lparr>cp_read := cp_read c @ concat (map fst ps), cp_written := cp_written c @ concat (map fst ps)\<rparr>"
  using assms
proof (induction ps arbitrary: c)
  case (Cons p ps)
  then show ?case by (simp add: segment_relayed)
qed simp

lemma live_keeps_running:
  assumes "\<forall>x \<in> set xs. live_io x" and "cp_phase c \<noteq> Flushing" and "\<And>r. cp_phase c \<noteq> Finished r"
  shows "cp_phase (fold copier_next xs c) \<noteq> Finished r"
  using assms
proof (induction xs arbitrary: c)
  case (Cons x xs)
  have "cp_phase (copier_next x c) \<noteq> Flushing \<and> (\<forall>r. cp_phase (copier_next x c) \<noteq> Finished r)"
    using Cons.prems by (cases x; cases "cp_phase c") (auto split: sum.splits)
  then show ?case using Cons.IH[of "copier_next x c"] Cons.prems by simp
qed simp

subsection \<open>Both directions\<close>

definition duplex_ok :: "counters \<Rightarrow> duplex \<Rightarrow> bool" where
  "duplex_ok h0 s \<longleftrightarrow>
     copier_ok (dx_up s) \<and> copier_ok (dx_down s) \<and>
     (\<forall>k. counter_get k (dx_heap s) = counter_get k h0 + counted (dx_up s) k + counted (dx_down s) k) \<and>
     (case dx_result s of
        None \<Rightarrow> True
      | Some r \<Rightarrow> cp_phase (dx_up s) = Finished r \<or> cp_phase (dx_down s) = Finished r)"

lemma duplex_ok_start: "duplex_ok h (copy_duplex a b stats h)"
  by (simp add: duplex_ok_def copy_duplex_def)

lemma poll_of_Ready: "poll_of p = Ready r \<longleftrightarrow> p = Finished r"
  by (cases p) auto

lemma race_poll_Ready: "race_poll p q = Ready r \<Longrightarrow> p = Ready r \<or> q = Ready r"
  by (cases p; cases q) auto

lemma duplex_ok_poll:
  assumes "duplex_ok h0 s"
  shows "duplex_ok h0 (duplex_poll up down s)"
proof (cases "dx_result s")
  case None
  obtain c1 h1 where r1: "copier_run up (dx_up s, dx_heap s) = (c1, h1)" by force
  obtain c2 h2 where r2: "copier_run down (dx_down s, h1) = (c2, h2)" by force
  have ok: "copier_ok (dx_up s)" "copier_ok (dx_down s)" using assms by (auto simp: duplex_ok_def)
  have i1: "copier_ok c1" "counter_get k h1 - counted c1 k = counter_get k (dx_heap s) - counted (dx_up s) k" for k
    using copier_run_inv[OF ok(1) r1] by simp_all
  have i2: "copier_ok c2" "counter_get k h2 - counted c2 k = counter_get k h1 - counted (dx_down s) k" for k
    using copier_run_inv[OF ok(2) r2] by simp_all
  have "counter_get k h2 = counter_get k h0 + counted c1 k + counted c2 k" for k
    using i1(2)[of k] i2(2)[of k] assms by (simp add: duplex_ok_def algebra_simps)
  moreover have "cp_phase c1 = Finished r \<or> cp_phase c2 = Finished r"
    if "race_poll (poll_of (cp_phase c1)) (poll_of (cp_phase c2)) = Ready r" for r
    using race_poll_Ready[OF that] by (simp add: poll_of_Ready)
  ultimately show ?thesis
    using None r1 r2 i1(1) i2(1) by (auto simp: duplex_ok_def duplex_poll_def split: poll.splits)
qed (use assms in \<open>simp add: duplex_poll_def\<close>)

lemma duplex_ok_run: "duplex_ok h0 s \<Longrightarrow> duplex_ok h0 (duplex_run ps s)"
  by (induction ps s rule: duplex_run.induct) (simp_all add: duplex_ok_poll)

text \<open>The counters a task uses never change.\<close>

definition uses :: "copier \<Rightarrow> counter_ref option \<times> counter_ref option \<times> counter_ref option" where
  "uses c = (cp_count c, cp_rstat c, cp_wstat c)"

lemma copier_fold_uses: "uses (fold copier_next xs c) = uses c"
proof (induction xs arbitrary: c)
  case (Cons x xs)
  have "uses (copier_next x c) = uses c" by (cases x) (auto simp: uses_def split: copy_phase.splits sum.splits)
  then show ?case using Cons.IH by simp
qed simp

lemma duplex_ended: "dx_result s = Some r \<Longrightarrow> duplex_run ps s = s"
  by (induction ps s rule: duplex_run.induct) (simp_all add: duplex_poll_def)

lemma duplex_run_append: "duplex_run (ps @ qs) s = duplex_run qs (duplex_run ps s)"
  by (induction ps s rule: duplex_run.induct) simp_all

lemma duplex_poll_tasks:
  assumes "dx_result s = None"
  shows "dx_up (duplex_poll up down s) = fold copier_next up (dx_up s)"
    and "dx_down (duplex_poll up down s) = fold copier_next down (dx_down s)"
    and "dx_result (duplex_poll up down s) =
      (case race_poll (poll_of (cp_phase (fold copier_next up (dx_up s)))) (poll_of (cp_phase (fold copier_next down (dx_down s)))) of
         Ready r \<Rightarrow> Some r | Pending \<Rightarrow> None)"
proof -
  obtain c1 h1 where r1: "copier_run up (dx_up s, dx_heap s) = (c1, h1)" by force
  obtain c2 h2 where r2: "copier_run down (dx_down s, h1) = (c2, h2)" by force
  have "c1 = fold copier_next up (dx_up s)" "c2 = fold copier_next down (dx_down s)"
    using copier_run_fst[of up "dx_up s" "dx_heap s"] copier_run_fst[of down "dx_down s" h1] r1 r2 by simp_all
  then show "dx_up (duplex_poll up down s) = fold copier_next up (dx_up s)"
    "dx_down (duplex_poll up down s) = fold copier_next down (dx_down s)"
    "dx_result (duplex_poll up down s) =
      (case race_poll (poll_of (cp_phase (fold copier_next up (dx_up s)))) (poll_of (cp_phase (fold copier_next down (dx_down s)))) of
         Ready r \<Rightarrow> Some r | Pending \<Rightarrow> None)"
    using assms r1 r2 by (simp_all add: duplex_poll_def)
qed

lemma duplex_run_uses: "uses (dx_up (duplex_run ps s)) = uses (dx_up s) \<and> uses (dx_down (duplex_run ps s)) = uses (dx_down s)"
proof (induction ps s rule: duplex_run.induct)
  case (2 up down ps s)
  have "uses (dx_up (duplex_poll up down s)) = uses (dx_up s) \<and> uses (dx_down (duplex_poll up down s)) = uses (dx_down s)"
    by (cases "dx_result s") (simp_all add: duplex_poll_tasks copier_fold_uses, simp_all add: duplex_poll_def)
  then show ?case using 2 by simp
qed simp

text \<open>While neither task ends, a sequence of polls is the two tasks run side by side.\<close>

lemma poll_of_running: "(\<And>r. p \<noteq> Finished r) \<Longrightarrow> poll_of p = Pending"
  by (cases p) auto

lemma duplex_run_running:
  assumes "dx_result s = None"
    and "\<And>r. cp_phase (fold copier_next (concat (map fst ps)) (dx_up s)) \<noteq> Finished r"
    and "\<And>r. cp_phase (fold copier_next (concat (map snd ps)) (dx_down s)) \<noteq> Finished r"
  shows "dx_result (duplex_run ps s) = None \<and>
    dx_up (duplex_run ps s) = fold copier_next (concat (map fst ps)) (dx_up s) \<and>
    dx_down (duplex_run ps s) = fold copier_next (concat (map snd ps)) (dx_down s)"
  using assms
proof (induction ps s rule: duplex_run.induct)
  case (2 up down ps s)
  let ?s = "duplex_poll up down s"
  have "cp_phase (fold copier_next up (dx_up s)) \<noteq> Finished r" for r
    by (rule running_before[where ys = "concat (map fst ps)"]) (use 2(3) in simp)
  moreover have "cp_phase (fold copier_next down (dx_down s)) \<noteq> Finished r" for r
    by (rule running_before[where ys = "concat (map snd ps)"]) (use 2(4) in simp)
  ultimately have n: "dx_result ?s = None"
    using duplex_poll_tasks(3)[OF 2(2)] by (simp add: poll_of_running)
  show ?case using 2(1)[OF n] 2(3,4) duplex_poll_tasks(1,2)[OF 2(2)] by simp
qed simp

text \<open>
  A whole session: the first stream's data and the second one's, which then ends; all of it is relayed.
\<close>

lemma session_relayed:
  fixes stats :: "(counter_ref \<times> counter_ref) option" and h :: counters
  assumes "concat (map fst ps) = concat (map segment_io qs)"
    and "concat (map snd ps) = concat (map segment_io rs) @ [ReadOut (Inr [])]"
    and "\<forall>q \<in> set qs. taken q" and "\<forall>r \<in> set rs. taken r"
  defines "s \<equiv> duplex_run (ps @ [([], [FlushOut (Inr ())])]) (copy_duplex None None stats h)"
  shows "dx_result s = Some (Inr ())" and "cp_written (dx_up s) = concat (map fst qs)"
    and "cp_written (dx_down s) = concat (map fst rs)"
    and "cp_read (dx_up s) = concat (map fst qs)" and "cp_read (dx_down s) = concat (map fst rs)"
proof -
  let ?s0 = "copy_duplex None None stats h"
  have u: "fold copier_next (concat (map fst ps)) (dx_up ?s0) =
      (dx_up ?s0)\<lparr>cp_read := concat (map fst qs), cp_written := concat (map fst qs)\<rparr>"
    using segments_relayed[of "dx_up ?s0" qs] assms(1,3) by (simp add: copy_duplex_def copier_new_def)
  have d: "fold copier_next (concat (map snd ps)) (dx_down ?s0) =
      (dx_down ?s0)\<lparr>cp_phase := Flushing, cp_read := concat (map fst rs), cp_written := concat (map fst rs)\<rparr>"
    using segments_relayed[of "dx_down ?s0" rs] assms(2,4) by (simp add: copy_duplex_def copier_new_def)
  have "dx_result (duplex_run ps ?s0) = None \<and> dx_up (duplex_run ps ?s0) = fold copier_next (concat (map fst ps)) (dx_up ?s0) \<and>
      dx_down (duplex_run ps ?s0) = fold copier_next (concat (map snd ps)) (dx_down ?s0)"
    by (rule duplex_run_running) (use u d in \<open>simp_all add: copy_duplex_def copier_new_def\<close>)
  then have m: "dx_result (duplex_run ps ?s0) = None"
      "dx_up (duplex_run ps ?s0) = (dx_up ?s0)\<lparr>cp_read := concat (map fst qs), cp_written := concat (map fst qs)\<rparr>"
      "dx_down (duplex_run ps ?s0) = (dx_down ?s0)\<lparr>cp_phase := Flushing, cp_read := concat (map fst rs), cp_written := concat (map fst rs)\<rparr>"
    using u d by simp_all
  have "s = duplex_poll [] [FlushOut (Inr ())] (duplex_run ps ?s0)" by (simp add: s_def duplex_run_append)
  then show "dx_result s = Some (Inr ())" "cp_written (dx_up s) = concat (map fst qs)" "cp_written (dx_down s) = concat (map fst rs)"
    "cp_read (dx_up s) = concat (map fst qs)" "cp_read (dx_down s) = concat (map fst rs)"
    using duplex_poll_tasks[OF m(1), of "[]" "[FlushOut (Inr ())]"] m(2,3) by (simp_all add: copy_duplex_def copier_new_def)
qed

section \<open>Properties\<close>

text \<open>
  C4: A relay neither invents, reorders nor repeats bytes: whatever the outcomes of its reads, writes
  and flushes and however they are spread over its polls, what it has written to either side is
  a prefix of what it has read from the other; every counter involved has grown by exactly the bytes its
  streams have carried (modulo \<open>2^64\<close>); and when the relay ends without an error, one direction has
  written everything its reader delivered before its end.
\<close>

theorem relay_faithful:
  "let s = duplex_run ps (copy_duplex d1d2 d2d1 stats h) in
     prefix (cp_written (dx_up s)) (cp_read (dx_up s)) \<and> prefix (cp_written (dx_down s)) (cp_read (dx_down s)) \<and>
     (\<forall>k. counter_get k (dx_heap s) = counter_get k h + counted (dx_up s) k + counted (dx_down s) k) \<and>
     (dx_result s = Some (Inr ()) \<longrightarrow>
        cp_phase (dx_up s) = Finished (Inr ()) \<and> cp_written (dx_up s) = cp_read (dx_up s) \<or>
        cp_phase (dx_down s) = Finished (Inr ()) \<and> cp_written (dx_down s) = cp_read (dx_down s))"
proof -
  have i: "duplex_ok h (duplex_run ps (copy_duplex d1d2 d2d1 stats h))" using duplex_ok_run[OF duplex_ok_start] .
  have "copier_ok c \<Longrightarrow> prefix (cp_written c) (cp_read c)" for c
    by (cases "cp_phase c") (auto simp: copier_ok_def split: sum.splits)
  moreover have "copier_ok c \<Longrightarrow> cp_phase c = Finished (Inr ()) \<Longrightarrow> cp_written c = cp_read c" for c
    by (auto simp: copier_ok_def)
  ultimately show ?thesis using i by (auto simp: duplex_ok_def Let_def)
qed

theorem relay_faithful_witness:
  "dx_result (duplex_run [([ReadOut (Inr [1, 2]), WriteOut (Inr 1)], []), ([WriteOut (Inr 1), ReadOut (Inr []), FlushOut (Inr ())], [])]
       (copy_duplex None None None demo_counters)) = Some (Inr ()) \<and>
   cp_written (dx_up (duplex_run [([ReadOut (Inr [1, 2]), WriteOut (Inr 1)], []), ([WriteOut (Inr 1), ReadOut (Inr []), FlushOut (Inr ())], [])]
       (copy_duplex None None None demo_counters))) = [1, 2]"
  using relay_faithful[of "[([ReadOut (Inr [1, 2]), WriteOut (Inr 1)], []), ([WriteOut (Inr 1), ReadOut (Inr []), FlushOut (Inr ())], [])]"
      None None None demo_counters]
  by (simp add: copy_duplex_def copier_new_def duplex_poll_def)

text \<open>
  A side that ends its own half ends the relay: when the first stream sends a request and
  then closes its sending half, the relay is over with success as soon as the request is
  flushed; no later outcome changes anything, so nothing the second stream sends back is ever delivered.
\<close>

theorem half_close_cuts_reply:
  assumes "\<forall>q \<in> set qs. taken q"
  shows "let s = duplex_run ([(concat (map segment_io qs) @ [ReadOut (Inr []), FlushOut (Inr ())], [])] @ later)
                   (copy_duplex None None stats h) in
     dx_result s = Some (Inr ()) \<and> cp_written (dx_up s) = concat (map fst qs) \<and> cp_written (dx_down s) = []"
proof -
  let ?s0 = "copy_duplex None None stats h"
  let ?up = "concat (map segment_io qs) @ [ReadOut (Inr []), FlushOut (Inr ())]"
  let ?s1 = "duplex_poll ?up [] ?s0"
  have "dx_result ?s0 = None" by (simp add: copy_duplex_def)
  from duplex_poll_tasks[OF this, of ?up "[]"] segments_relayed[of "dx_up ?s0" qs] assms
  have "dx_result ?s1 = Some (Inr ())" "cp_written (dx_up ?s1) = concat (map fst qs)" "cp_written (dx_down ?s1) = []"
    by (simp_all add: copy_duplex_def copier_new_def)
  then show ?thesis using duplex_ended[of ?s1 "Inr ()" later] by simp
qed

theorem half_close_cuts_reply_witness:
  "cp_written (dx_down (duplex_run ([(concat (map segment_io [([1, 2], [1, 1])]) @ [ReadOut (Inr []), FlushOut (Inr ())], [])] @
       [([], segment_io ([7], [1]))]) (copy_duplex None None None demo_counters))) = []"
  using half_close_cuts_reply[of "[([1, 2], [1, 1])]" "[([], segment_io ([7], [1]))]" None demo_counters]
  by (simp add: taken_def Let_def)

text \<open>
  C3: A SOCKS5 connection from end to end: the client sends its greeting and its CONNECT
  request (in any segments), then its payload; an upstream is connected; both sides' data arrives and is taken in pieces of
  any size, over any sequence of polls, until the upstream ends. Then the connection ends
  without an error; the client has received the answer to its greeting, the reply "granted" and
  every byte the upstream sent; the upstream has received exactly the client's payload; and its counters have
  grown by the bytes sent and received.
\<close>

theorem socks5_session_end_to_end:
  assumes "http_tokenizer hp" and "seg_ok ss"
    and "length (auths g) < 256" and "AUTH_NO_PASSWORD \<in> set (auths g)" and "greeting_write g = Inr gb"
    and "wire_request r" and "conn_request_write r = Inr rb" and "conn_cmd r = CONNECT_TCP"
    and "concat ss = gb @ rb"
    and "find_and_connect_stream R now (conn (conn_address r) None) (conn_address r) None cfg stats h = (tried, Inr u, h')"
    and "map fst qs = payload" and "\<forall>q \<in> set qs. taken q" and "\<forall>p \<in> set rs. taken p"
    and "concat (map fst ps) = concat (map segment_io qs)"
    and "concat (map snd ps) = concat (map segment_io rs) @ [ReadOut (Inr [])]" and "tx \<noteq> rx"
  shows "\<exists>reply up h1 s.
     serve_proxy_conn hp R now conn tls None early cfg stats (ss @ payload) h = Proxied reply None (Inr (up, payload)) h1 \<and>
     up_stream up = u \<and> s = duplex_run (ps @ [([], [FlushOut (Inr ())])]) (copy_duplex None None (Some (tx, rx)) h1) \<and>
     dx_result s = Some (Inr ()) \<and>
     reply @ cp_written (dx_down s) = [5, 0, 5, 0, 0, 1, 0, 0, 0, 0, 0, 0] @ concat (map fst rs) \<and>
     up_first up @ cp_written (dx_up s) = concat payload \<and>
     counter_get tx (dx_heap s) = counter_get tx h1 + of_nat (length (concat payload)) \<and>
     counter_get rx (dx_heap s) = counter_get rx h1 + of_nat (length (concat (map fst rs)))"
proof -
  let ?s = "duplex_run (ps @ [([], [FlushOut (Inr ())])]) (copy_duplex None None (Some (tx, rx)) h')"
  note rel = session_relayed[OF assms(14,15,12,13), of "Some (tx, rx)" h']
  have p: "serve_proxy_conn hp R now conn tls None early cfg stats (ss @ payload) h =
      Proxied [5, 0, 5, 0, 0, 1, 0, 0, 0, 0, 0, 0] None (Inr (\<lparr>up_stream = u, up_tls = False, up_first = []\<rparr>, payload)) h'"
    using socks5_served[where conn = conn, OF assms(1-10)] by simp
  have "duplex_ok h' ?s" using duplex_ok_run[OF duplex_ok_start] .
  then have h: "counter_get k (dx_heap ?s) = counter_get k h' + counted (dx_up ?s) k + counted (dx_down ?s) k" for k
    by (simp add: duplex_ok_def)
  have "uses (dx_up ?s) = (None, None, Some tx)" "uses (dx_down ?s) = (None, Some rx, None)"
    using duplex_run_uses[of "ps @ [([], [FlushOut (Inr ())])]" "copy_duplex None None (Some (tx, rx)) h'"]
    by (simp_all add: copy_duplex_def copier_new_def uses_def)
  then have "counter_get tx (dx_heap ?s) = counter_get tx h' + of_nat (length (concat payload))"
    "counter_get rx (dx_heap ?s) = counter_get rx h' + of_nat (length (concat (map fst rs)))"
    using h[of tx] h[of rx] rel assms(11,16) by (simp_all add: counted_def uses_def)
  then show ?thesis using p rel assms(11) by (intro exI conjI) (assumption | rule refl | simp)+
qed

theorem socks5_session_end_to_end_witness:
  "\<exists>w up h1 (s :: duplex). serve_proxy_conn demo_http demo_routing 100 (\<lambda>a d n c. Inr (n, 5)) (\<lambda>_ _. Inr ()) None True
       demo_config Map.empty ([[5, 1], [0, 5, 1, 0], [1, 10, 0, 0, 1, 0, 80]] @ [[42, 43]]) demo_counters =
         Proxied w None (Inr (up, [[42, 43]])) h1 \<and>
     w @ cp_written (dx_down s) = [5, 0, 5, 0, 0, 1, 0, 0, 0, 0, 0, 0, 7] \<and> up_first up @ cp_written (dx_up s) = [42, 43] \<and> dx_result s = Some (Inr ())"
proof -
  let ?r = "\<lparr>conn_cmd = CONNECT_TCP, conn_address = IP (SockV4 0x0A000001 80)\<rparr>"
  let ?conn = "\<lambda>(a :: address) (d :: bytes option) n (c :: upstream_config). Inr (n, 5 :: nat) :: (rstr \<times> nat) res"
  let ?qs = "[([42, 43], [1, 1])] :: (bytes \<times> nat list) list" and ?rs = "[([7], [1])] :: (bytes \<times> nat list) list"
  let ?ps = "[(segment_io (hd ?qs), segment_io (hd ?rs) @ [ReadOut (Inr [])])]"
  obtain tried res h' where f: "find_and_connect_stream demo_routing 100 (?conn (conn_address ?r) None) (conn_address ?r) None
      demo_config Map.empty demo_counters = (tried, res, h')" by (metis prod.exhaust)
  obtain u where u: "res = Inr u"
    using find_and_connect_cases[OF demo_distinct _ f] unfolding demo_verdict demo_eligible by auto
  have gw: "greeting_write \<lparr>auths = [0]\<rparr> = Inr [5, 1, 0]" by code_simp
  have rw: "conn_request_write ?r = Inr [5, 1, 0, 1, 10, 0, 0, 1, 0, 80]" by code_simp
  have wr: "wire_request ?r" by (simp add: wire_request_def)
  have e: "\<exists>reply up h1 s.
     serve_proxy_conn demo_http demo_routing 100 ?conn (\<lambda>_ _. Inr ()) None True demo_config Map.empty
       ([[5, 1], [0, 5, 1, 0], [1, 10, 0, 0, 1, 0, 80]] @ [[42, 43]]) demo_counters = Proxied reply None (Inr (up, [[42, 43]])) h1 \<and>
     up_stream up = u \<and> s = duplex_run (?ps @ [([], [FlushOut (Inr ())])]) (copy_duplex None None (Some (0, 1)) h1) \<and>
     dx_result s = Some (Inr ()) \<and>
     reply @ cp_written (dx_down s) = [5, 0, 5, 0, 0, 1, 0, 0, 0, 0, 0, 0] @ concat (map fst ?rs) \<and>
     up_first up @ cp_written (dx_up s) = concat [[42, 43]] \<and>
     counter_get 0 (dx_heap s) = counter_get 0 h1 + of_nat (length (concat [[42, 43 :: u8]])) \<and>
     counter_get 1 (dx_heap s) = counter_get 1 h1 + of_nat (length (concat (map fst ?rs)))"
    by (rule socks5_session_end_to_end[where conn = ?conn and qs = ?qs and rs = ?rs and ps = ?ps and tx = 0 and rx = 1,
          OF demo_http_ok _ _ _ gw wr rw _ _ f[unfolded u]]) (simp_all add: seg_ok_def AUTH_NO_PASSWORD_def taken_def)
  then obtain w up h1 and s :: duplex where
      p: "serve_proxy_conn demo_http demo_routing 100 ?conn (\<lambda>_ _. Inr ()) None True demo_config Map.empty
       ([[5, 1], [0, 5, 1, 0], [1, 10, 0, 0, 1, 0, 80]] @ [[42, 43]]) demo_counters = Proxied w None (Inr (up, [[42, 43]])) h1"
      and w: "w @ cp_written (dx_down s) = [5, 0, 5, 0, 0, 1, 0, 0, 0, 0, 0, 0] @ concat (map fst ?rs)" "dx_result s = Some (Inr ())"
        "up_first up @ cp_written (dx_up s) = concat [[42, 43]]"
    by blast
  show ?thesis by (rule exI[of _ w], rule exI[of _ up], rule exI[of _ h1], rule exI[of _ s]) (use p w in simp)
qed

end
