(* ===== verification/Ciphers.thy ===== *)
theory Ciphers
  imports Rust_Str
begin

text \<open>
  The stream ciphers of the TCP tunnel: the interface and the ChaCha20 instance
  (src/protocol/tcpman/cipher/suite.rs), the cipher that covers only the first bytes
  (partial.rs) and the choice between them (strategy.rs). The key stream of ChaCha20 is a
  parameter \<open>ks\<close>, the byte for each position.
\<close>

section \<open>Key streams\<close>

fun xor_at :: "(nat \<Rightarrow> u8) \<Rightarrow> nat \<Rightarrow> bytes \<Rightarrow> bytes" where
  "xor_at m p [] = []"
| "xor_at m p (b # bs) = (b XOR m p) # xor_at m (Suc p) bs"

lemma length_xor_at [simp]: "length (xor_at m p bs) = length bs"
  by (induction bs arbitrary: p) auto

lemma xor_at_append: "xor_at m p (xs @ ys) = xor_at m p xs @ xor_at m (p + length xs) ys"
  by (induction xs arbitrary: p) auto

lemma take_xor_at: "take n (xor_at m p bs) = xor_at m p (take n bs)"
  by (induction bs arbitrary: n p) (auto simp: take_Cons')

lemma drop_xor_at: "drop n (xor_at m p bs) = xor_at m (p + n) (drop n bs)"
  by (induction bs arbitrary: n p) (auto simp: drop_Cons')

lemma xor_at_xor_at [simp]: "xor_at m p (xor_at m p bs) = bs"
  by (induction bs arbitrary: p) (auto simp: ac_simps)

lemma xor_at_cong:
  "(\<And>i. p \<le> i \<Longrightarrow> i < p + length bs \<Longrightarrow> m i = m' i) \<Longrightarrow> xor_at m p bs = xor_at m' p bs"
  by (induction bs arbitrary: p) auto

lemma xor_at_zero: "(\<And>i. p \<le> i \<Longrightarrow> m i = 0) \<Longrightarrow> xor_at m p bs = bs"
  by (induction bs arbitrary: p) auto

section \<open>The cipher interface\<close>

text \<open>
  \<open>StreamCipherExt\<close>. A cipher stands at a position of its mask; while it modifies data,
  applying it moves it forward, and it can go back over bytes it was just applied to. The
  law does not cover a cipher that is done modifying: nobody applies it any more.
\<close>

locale stream_cipher =
  fixes apply_ks :: "'c \<Rightarrow> bytes \<Rightarrow> 'c \<times> bytes"
    and rewind :: "'c \<Rightarrow> nat \<Rightarrow> 'c res"
    and will_modify :: "'c \<Rightarrow> bool"
    and at_pos :: "'c \<Rightarrow> nat \<Rightarrow> bool"
    and mask :: "nat \<Rightarrow> u8"
  assumes apply_data: "at_pos c p \<Longrightarrow> will_modify c \<Longrightarrow> snd (apply_ks c bs) = xor_at mask p bs"
    and apply_pos: "at_pos c p \<Longrightarrow> will_modify c \<Longrightarrow> at_pos (fst (apply_ks c bs)) (p + length bs)"
    and rewind_pos: "at_pos c p \<Longrightarrow> will_modify c \<Longrightarrow> k \<le> length bs \<Longrightarrow>
      \<exists>c'. rewind (fst (apply_ks c bs)) k = Inr c' \<and> at_pos c' (p + length bs - k)"
    and no_modify: "at_pos c p \<Longrightarrow> \<not> will_modify c \<Longrightarrow> p \<le> i \<Longrightarrow> mask i = 0"

text \<open>A cipher that never stops modifying data.\<close>

locale full_cipher = stream_cipher +
  assumes always: "will_modify c"

section \<open>ChaCha20\<close>

record chacha20 =
  pos :: nat

definition chacha_apply :: "(nat \<Rightarrow> u8) \<Rightarrow> chacha20 \<Rightarrow> bytes \<Rightarrow> chacha20 \<times> bytes" where
  "chacha_apply ks c bs = (c\<lparr>pos := pos c + length bs\<rparr>, xor_at ks (pos c) bs)"

definition chacha_will_modify :: "chacha20 \<Rightarrow> bool" where
  "chacha_will_modify c = True"

definition chacha_rewind :: "chacha20 \<Rightarrow> nat \<Rightarrow> chacha20 res" where
  "chacha_rewind c cnt =
     (if pos c < cnt then Inl (Panic ''attempt to subtract with overflow'')
      else Inr (c\<lparr>pos := pos c - cnt\<rparr>))"

text \<open>
  \<open>create_cipher\<close>: \<open>chacha\<close> stands for the key stream of \<open>ChaCha20::new_from_slices\<close> on a key of 32 and
  an iv of 12 bytes. \<open>pick_cipher\<close> draws these bytes at random; they are arguments here.
\<close>

definition create_cipher :: "(bytes \<Rightarrow> bytes \<Rightarrow> nat \<Rightarrow> u8) \<Rightarrow> u8 \<Rightarrow> bytes \<Rightarrow> bytes \<Rightarrow> ((nat \<Rightarrow> u8) \<times> chacha20) res" where
  "create_cipher chacha cipher_type key iv =
     (if cipher_type = 1
      then (if length key = 32 \<and> length iv = 12 then Inr (chacha key iv, \<lparr>pos = 0\<rparr>)
            else Inl (Err ''Invalid key/iv lengths for Chacha20 cipher''))
      else Inl (Err ''Unknown cipher_type''))"

definition pick_cipher :: "(bytes \<Rightarrow> bytes \<Rightarrow> nat \<Rightarrow> u8) \<Rightarrow> bytes \<Rightarrow> bytes \<Rightarrow> u8 \<times> (nat \<Rightarrow> u8) \<times> chacha20 \<times> bytes \<times> bytes" where
  "pick_cipher chacha key iv = (1, chacha key iv, \<lparr>pos = 0\<rparr>, key, iv)"

interpretation chacha: full_cipher "chacha_apply ks" chacha_rewind chacha_will_modify "\<lambda>c p. pos c = p" ks
  for ks
  by unfold_locales
    (auto simp: chacha_apply_def chacha_rewind_def chacha_will_modify_def)

section \<open>The cipher of the first bytes\<close>

record 'c partial_cipher =
  inner :: 'c
  n_left :: int

text \<open>\<open>isize::MAX\<close> on a 64-bit machine; the conversion of a larger count panics.\<close>

definition ISIZE_MAX :: nat where
  "ISIZE_MAX = 2 ^ 63 - 1"

definition partial_new :: "nat \<Rightarrow> 'c \<Rightarrow> 'c partial_cipher res" where
  "partial_new n c =
     (if n \<le> ISIZE_MAX then Inr \<lparr>inner = c, n_left = int n\<rparr>
      else Inl (Panic ''called `Result::unwrap()` on an `Err` value''))"

definition partial_will_modify :: "'c partial_cipher \<Rightarrow> bool" where
  "partial_will_modify c \<longleftrightarrow> n_left c > 0"

definition partial_apply :: "('c \<Rightarrow> bytes \<Rightarrow> 'c \<times> bytes) \<Rightarrow> 'c partial_cipher \<Rightarrow> bytes \<Rightarrow> 'c partial_cipher \<times> bytes" where
  "partial_apply ap c bs =
     (if n_left c > 0
      then (let l = min (nat (n_left c)) (length bs);
                (i, out) = ap (inner c) (take l bs)
            in (\<lparr>inner = i, n_left = n_left c - int (length bs)\<rparr>, out @ drop l bs))
      else (c, bs))"

definition partial_rewind :: "('c \<Rightarrow> nat \<Rightarrow> 'c res) \<Rightarrow> 'c partial_cipher \<Rightarrow> nat \<Rightarrow> 'c partial_cipher res" where
  "partial_rewind rw c cnt =
     (let old_n = n_left c; n = old_n + int cnt
      in if n > 0
         then and_then (rw (inner c) (nat (n - max old_n 0))) (\<lambda>i. Inr \<lparr>inner = i, n_left = n\<rparr>)
         else Inr (c\<lparr>n_left := n\<rparr>))"

text \<open>At position \<open>p\<close> of a cipher over the first \<open>N\<close> bytes.\<close>

definition partial_at :: "('c \<Rightarrow> nat \<Rightarrow> bool) \<Rightarrow> nat \<Rightarrow> 'c partial_cipher \<Rightarrow> nat \<Rightarrow> bool" where
  "partial_at at_p N c p \<longleftrightarrow> n_left c = int N - int p \<and> at_p (inner c) (min N p)"

definition partial_mask :: "nat \<Rightarrow> (nat \<Rightarrow> u8) \<Rightarrow> nat \<Rightarrow> u8" where
  "partial_mask N m i = (if i < N then m i else 0)"

lemma xor_at_partial:
  assumes "p \<le> N"
  shows "xor_at m p (take (N - p) bs) @ drop (N - p) bs = xor_at (partial_mask N m) p bs"
proof -
  have "xor_at (partial_mask N m) p bs =
      xor_at (partial_mask N m) p (take (N - p) bs) @
      xor_at (partial_mask N m) (p + length (take (N - p) bs)) (drop (N - p) bs)"
    by (metis append_take_drop_id xor_at_append)
  moreover have "xor_at (partial_mask N m) p (take (N - p) bs) = xor_at m p (take (N - p) bs)"
    using assms by (intro xor_at_cong) (auto simp: partial_mask_def)
  moreover have "xor_at (partial_mask N m) (p + length (take (N - p) bs)) (drop (N - p) bs) = drop (N - p) bs"
    using assms by (cases "length bs \<le> N - p") (auto intro!: xor_at_zero simp: partial_mask_def)
  ultimately show ?thesis by simp
qed

context full_cipher
begin

lemma partial_apply_eq:
  assumes "partial_at at_pos N c p" and "partial_will_modify c"
  shows "partial_apply apply_ks c bs =
     (\<lparr>inner = fst (apply_ks (inner c) (take (N - p) bs)), n_left = int N - int p - int (length bs)\<rparr>,
      xor_at (partial_mask N mask) p bs)"
proof -
  have p: "p < N" "n_left c = int N - int p" "at_pos (inner c) p"
    using assms by (auto simp: partial_at_def partial_will_modify_def)
  have l: "take (min (nat (n_left c)) (length bs)) bs = take (N - p) bs"
      "drop (min (nat (n_left c)) (length bs)) bs = drop (N - p) bs"
    using p by (auto simp: min_def nat_diff_distrib)
  have "snd (apply_ks (inner c) (take (N - p) bs)) = xor_at mask p (take (N - p) bs)"
    using apply_data p(3) always by blast
  then show ?thesis
    using p l xor_at_partial[of p N mask bs] by (simp add: partial_apply_def Let_def split_beta)
qed

lemma partial_apply_at:
  assumes "partial_at at_pos N c p" and "partial_will_modify c"
  shows "partial_at at_pos N (fst (partial_apply apply_ks c bs)) (p + length bs)"
proof -
  have p: "p < N" "at_pos (inner c) p" using assms by (auto simp: partial_at_def partial_will_modify_def)
  have "min N (p + length bs) = p + length (take (N - p) bs)" using p(1) by auto
  then show ?thesis
    using apply_pos[OF p(2) always, of "take (N - p) bs"]
    by (simp add: partial_apply_eq[OF assms] partial_at_def)
qed

lemma partial_rewind_at:
  assumes "partial_at at_pos N c p" and "partial_will_modify c" and "k \<le> length bs"
  shows "\<exists>c'. partial_rewind rewind (fst (partial_apply apply_ks c bs)) k = Inr c' \<and>
           partial_at at_pos N c' (p + length bs - k)"
proof -
  let ?c = "fst (partial_apply apply_ks c bs)" and ?i = "fst (apply_ks (inner c) (take (N - p) bs))"
  have p: "p < N" "at_pos (inner c) p" using assms(1,2) by (auto simp: partial_at_def partial_will_modify_def)
  have c: "n_left ?c = int N - int p - int (length bs)" "inner ?c = ?i"
    by (simp_all add: partial_apply_eq[OF assms(1,2)])
  define r where "r = nat (n_left ?c + int k - max (n_left ?c) 0)"
  show ?thesis
  proof (cases "n_left ?c + int k > 0")
    case True
    have "r \<le> length (take (N - p) bs)" using True p(1) assms(3) by (auto simp: r_def c)
    then obtain i' where i: "rewind ?i r = Inr i'" "at_pos i' (p + length (take (N - p) bs) - r)"
      using rewind_pos[OF p(2) always] by blast
    have "p + length (take (N - p) bs) - r = min N (p + length bs - k)"
      using True p(1) assms(3) by (auto simp: r_def c)
    moreover have "partial_rewind rewind ?c k = Inr \<lparr>inner = i', n_left = n_left ?c + int k\<rparr>"
      using True i(1) c(2) by (simp add: partial_rewind_def Let_def r_def)
    ultimately show ?thesis
      using True i(2) c(1) assms(3) by (auto simp: partial_at_def)
  next
    case False
    have "min N (p + length bs - k) = min N (p + length bs)" using False assms(3) by (auto simp: c)
    then show ?thesis
      using False c partial_apply_at[OF assms(1,2), of bs] assms(3)
      by (auto simp: partial_rewind_def partial_at_def Let_def)
  qed
qed

lemma partial_stream_cipher:
  "stream_cipher (partial_apply apply_ks) (partial_rewind rewind) partial_will_modify
     (partial_at at_pos N) (partial_mask N mask)"
proof
  fix c p i assume "partial_at at_pos N c p" "\<not> partial_will_modify c" "p \<le> i"
  then show "partial_mask N mask i = 0"
    by (auto simp: partial_at_def partial_will_modify_def partial_mask_def)
qed (use partial_apply_at partial_rewind_at in \<open>auto simp: partial_apply_eq\<close>)

end

section \<open>Strategies\<close>

datatype encryption_strategy = FirstN nat | Always | Never

definition show_strategy :: "encryption_strategy \<Rightarrow> rstr" where
  "show_strategy s = (case s of FirstN v \<Rightarrow> show_nat v | Always \<Rightarrow> lit ''a'' | Never \<Rightarrow> lit ''n'')"

definition strategy_new_send :: "bool \<Rightarrow> u16 \<Rightarrow> bool \<Rightarrow> encryption_strategy" where
  "strategy_new_send is_tcp dst_port is_upstream_tls =
     (if is_upstream_tls then Never
      else if is_tcp \<and> dst_port = 443 then FirstN 512
      else Always)"

definition strategy_new_receive :: "bool \<Rightarrow> u16 \<Rightarrow> encryption_strategy" where
  "strategy_new_receive is_tcp dst_port = (if is_tcp \<and> dst_port = 443 then Never else Always)"

definition strategy_from_str :: "rstr \<Rightarrow> encryption_strategy res" where
  "strategy_from_str v =
     (case parse_usize v of
        Some k \<Rightarrow> if k > 0 then Inr (FirstN k) else Inl (Err ''Invalid enc strategy'')
      | None \<Rightarrow>
          if v = lit ''n'' then Inr Never
          else if v = lit ''a'' then Inr Always
          else Inl (Err ''Invalid enc strategy''))"

datatype 'c strategy_cipher = SFirstN "'c partial_cipher" | SAlways 'c | SNever

definition wrap_cipher :: "encryption_strategy \<Rightarrow> 'c \<Rightarrow> 'c strategy_cipher res" where
  "wrap_cipher s c =
     (case s of
        FirstN n \<Rightarrow> and_then (partial_new n c) (\<lambda>p. Inr (SFirstN p))
      | Always \<Rightarrow> Inr (SAlways c)
      | Never \<Rightarrow> Inr SNever)"

fun strategy_apply :: "('c \<Rightarrow> bytes \<Rightarrow> 'c \<times> bytes) \<Rightarrow> 'c strategy_cipher \<Rightarrow> bytes \<Rightarrow> 'c strategy_cipher \<times> bytes" where
  "strategy_apply ap (SFirstN p) bs = (let (p', out) = partial_apply ap p bs in (SFirstN p', out))"
| "strategy_apply ap (SAlways c) bs = (let (c', out) = ap c bs in (SAlways c', out))"
| "strategy_apply ap SNever bs = (SNever, bs)"

fun strategy_will_modify :: "('c \<Rightarrow> bool) \<Rightarrow> 'c strategy_cipher \<Rightarrow> bool" where
  "strategy_will_modify wm (SFirstN p) = partial_will_modify p"
| "strategy_will_modify wm (SAlways c) = wm c"
| "strategy_will_modify wm SNever = False"

fun strategy_rewind :: "('c \<Rightarrow> nat \<Rightarrow> 'c res) \<Rightarrow> 'c strategy_cipher \<Rightarrow> nat \<Rightarrow> 'c strategy_cipher res" where
  "strategy_rewind rw (SFirstN p) cnt = and_then (partial_rewind rw p cnt) (\<lambda>p. Inr (SFirstN p))"
| "strategy_rewind rw (SAlways c) cnt = and_then (rw c cnt) (\<lambda>c. Inr (SAlways c))"
| "strategy_rewind rw SNever cnt = Inr SNever"

text \<open>The mask of a strategy, and the positions of its ciphers.\<close>

fun strategy_mask :: "encryption_strategy \<Rightarrow> (nat \<Rightarrow> u8) \<Rightarrow> nat \<Rightarrow> u8" where
  "strategy_mask (FirstN n) m = partial_mask n m"
| "strategy_mask Always m = m"
| "strategy_mask Never m = (\<lambda>_. 0)"

fun strategy_at :: "('c \<Rightarrow> nat \<Rightarrow> bool) \<Rightarrow> encryption_strategy \<Rightarrow> 'c strategy_cipher \<Rightarrow> nat \<Rightarrow> bool" where
  "strategy_at at_p (FirstN n) (SFirstN c) p = partial_at at_p n c p"
| "strategy_at at_p Always (SAlways c) p = at_p c p"
| "strategy_at at_p Never SNever p = True"
| "strategy_at at_p _ _ p = False"

context full_cipher
begin

lemma strategy_stream_cipher:
  "stream_cipher (strategy_apply apply_ks) (strategy_rewind rewind) (strategy_will_modify will_modify)
     (strategy_at at_pos s) (strategy_mask s mask)"
proof -
  note pt = partial_stream_cipher[THEN stream_cipher.apply_data] partial_stream_cipher[THEN stream_cipher.apply_pos]
    partial_stream_cipher[THEN stream_cipher.rewind_pos] partial_stream_cipher[THEN stream_cipher.no_modify]
  show ?thesis
  proof
    fix c p and bs :: bytes
    assume a: "strategy_at at_pos s c p" "strategy_will_modify will_modify c"
    show "snd (strategy_apply apply_ks c bs) = xor_at (strategy_mask s mask) p bs"
      using a by (cases s; cases c) (auto simp: split_beta pt apply_data)
    show "strategy_at at_pos s (fst (strategy_apply apply_ks c bs)) (p + length bs)"
      using a by (cases s; cases c) (auto simp: split_beta pt apply_pos)
    fix k assume k: "k \<le> length bs"
    show "\<exists>c'. strategy_rewind rewind (fst (strategy_apply apply_ks c bs)) k = Inr c' \<and>
        strategy_at at_pos s c' (p + length bs - k)"
      using a k pt(3)[of _ _ p k bs] rewind_pos[of _ p k bs]
      by (cases s; cases c) (fastforce simp: split_beta)+
  next
    fix c p i assume "strategy_at at_pos s c p" "\<not> strategy_will_modify will_modify c" "p \<le> i"
    then show "strategy_mask s mask i = 0"
      using always by (cases s; cases c) (auto simp: pt(4))
  qed
qed

lemma wrap_cipher_at: "wrap_cipher s c = Inr sc \<Longrightarrow> at_pos c 0 \<Longrightarrow> strategy_at at_pos s sc 0"
  by (cases s) (auto simp: wrap_cipher_def partial_new_def partial_at_def split: if_splits)

end

text \<open>The ciphers the program uses: a strategy over ChaCha20.\<close>

interpretation tunnel: stream_cipher "strategy_apply (chacha_apply ks)" "strategy_rewind chacha_rewind"
  "strategy_will_modify chacha_will_modify" "strategy_at (\<lambda>c p. pos c = p) s" "strategy_mask s ks"
  for ks s
  by (rule chacha.strategy_stream_cipher)

lemma strategy_roundtrip:
  assumes "case s of FirstN n \<Rightarrow> 0 < n \<and> n < 2 ^ 64 | _ \<Rightarrow> True"
  shows "strategy_from_str (show_strategy s) = Inr s"
proof (cases s)
  case (FirstN n)
  then show ?thesis using assms by (simp add: strategy_from_str_def show_strategy_def parse_usize_def)
next
  case Always
  moreover have "strategy_from_str (lit ''a'') = Inr Always" by code_simp
  ultimately show ?thesis by (simp add: show_strategy_def)
next
  case Never
  moreover have "strategy_from_str (lit ''n'') = Inr Never" by code_simp
  ultimately show ?thesis by (simp add: show_strategy_def)
qed

lemma show_strategy_no_slash: "47 \<notin> set (show_strategy s)"
  using show_nat_digits is_digit_range by (cases s) (fastforce simp: show_strategy_def lit_def)+

end
