(* ===== verification/Cipher_Stream.thy ===== *)
theory Cipher_Stream
  imports Ciphers Udp_Io
begin

text \<open>
  The encrypted connection of the TCP tunnel: the parameters in the request path
  (src/protocol/tcpman/cipher/client.rs), what both ends do with them (client.rs, server.rs),
  and the stream that encrypts what is written and decrypts what is read (stream.rs). The
  base64 encoder and decoder are parameters.
\<close>

section \<open>Parameters\<close>

record cipher_params =
  cp_key :: bytes
  cp_iv :: bytes
  cp_send :: encryption_strategy
  cp_recv :: encryption_strategy
  cp_type :: u8

definition show_params :: "(bytes \<Rightarrow> rstr) \<Rightarrow> cipher_params \<Rightarrow> rstr" where
  "show_params enc p =
     [47] @ enc (cp_key p) @ [47] @ enc (cp_iv p) @ [47] @ show_strategy (cp_send p) @ [47] @
     show_strategy (cp_recv p) @ [47] @ show_nat (unat (cp_type p))"

definition params_from_str :: "(rstr \<Rightarrow> bytes option) \<Rightarrow> rstr \<Rightarrow> cipher_params res" where
  "params_from_str dec s =
     (case split_on 47 s of
        _ # k # iv # ss # rs # t # _ \<Rightarrow>
          and_then (ok_or ''Decoding key'' (dec k)) (\<lambda>key.
          and_then (ok_or ''Decoding iv'' (dec iv)) (\<lambda>iv.
          and_then (in_context ''parse send_strategy'' (strategy_from_str ss)) (\<lambda>send.
          and_then (in_context ''parse recv_strategy'' (strategy_from_str rs)) (\<lambda>recv.
          and_then (ok_or ''parse cipher_type'' (parse_uint 256 t)) (\<lambda>t.
            Inr \<lparr>cp_key = key, cp_iv = iv, cp_send = send, cp_recv = recv, cp_type = of_nat t\<rparr>)))))
      | _ \<Rightarrow> Inl (Err ''Invalid URL''))"

section \<open>Both ends of the handshake\<close>

type_synonym tunnel_cipher = "chacha20 strategy_cipher"

text \<open>
  The cipher part of \<open>connect\<close>: the path and the value of the \<open>X-Cache-Key\<close> header it sends, then
  its read and write cipher. \<open>key\<close> and \<open>iv\<close> are the random bytes.
\<close>

definition cipher_connect ::
  "(bytes \<Rightarrow> bytes \<Rightarrow> nat \<Rightarrow> u8) \<Rightarrow> (bytes \<Rightarrow> rstr) \<Rightarrow> bytes \<Rightarrow> bytes \<Rightarrow> encryption_strategy \<Rightarrow> encryption_strategy \<Rightarrow>
   bytes \<Rightarrow> (rstr \<times> rstr \<times> tunnel_cipher \<times> tunnel_cipher) res" where
  "cipher_connect chacha enc key iv send_strategy recv_strategy initial_data =
     (let (cipher_type, ks, c, key, iv) = pick_cipher chacha key iv
      in and_then (wrap_cipher send_strategy c) (\<lambda>wr_cipher.
         let params = \<lparr>cp_key = key, cp_iv = iv, cp_send = send_strategy, cp_recv = recv_strategy,
               cp_type = cipher_type\<rparr>;
             (wr_cipher, initial_data) =
               (if 0 < length initial_data then strategy_apply (chacha_apply ks) wr_cipher initial_data
                else (wr_cipher, initial_data))
         in and_then
              (case create_cipher chacha cipher_type key iv of
                 Inl _ \<Rightarrow> Inl (Panic ''To have created a same cipher as wr_cipher'')
               | Inr (ks', c') \<Rightarrow> wrap_cipher recv_strategy c') (\<lambda>rd_cipher.
            Inr (show_params enc params, enc initial_data, rd_cipher, wr_cipher))))"

text \<open>
  \<open>check_request\<close>: the key stream of the request, the read and the write cipher, or the raw
  response and the error.
\<close>

definition check_request ::
  "(bytes \<Rightarrow> bytes \<Rightarrow> nat \<Rightarrow> u8) \<Rightarrow> (rstr \<Rightarrow> bytes option) \<Rightarrow> rstr \<Rightarrow>
   ((rstr \<times> string) + (nat \<Rightarrow> u8) \<times> tunnel_cipher res \<times> tunnel_cipher res)" where
  "check_request chacha dec path =
     (case params_from_str dec path of
        Inl _ \<Rightarrow> Inl (lit ''HTTP/1.1 404 Not found'' @ [13, 10, 13, 10], ''Invalid PATH'')
      | Inr p \<Rightarrow>
          (case create_cipher chacha (cp_type p) (cp_key p) (cp_iv p) of
             Inl _ \<Rightarrow> Inl (lit ''HTTP/1.1 401 Invalid type'' @ [13, 10, 13, 10], ''Invalid cipher type'')
           | Inr (ks, c) \<Rightarrow> Inr (ks, wrap_cipher (cp_send p) c, wrap_cipher (cp_recv p) c)))"

text \<open>
  The cipher part of \<open>accept_client\<close> on the path and the header of the request: the initial data
  and the two ciphers.
\<close>

definition cipher_accept ::
  "(bytes \<Rightarrow> bytes \<Rightarrow> nat \<Rightarrow> u8) \<Rightarrow> (rstr \<Rightarrow> bytes option) \<Rightarrow> rstr \<Rightarrow> rstr option \<Rightarrow>
   (bytes option \<times> tunnel_cipher \<times> tunnel_cipher) res" where
  "cipher_accept chacha dec path header =
     (case check_request chacha dec path of
        Inl (res, err) \<Rightarrow> Inl (Err err)
      | Inr (ks, rc, wc) \<Rightarrow>
          and_then rc (\<lambda>rd_cipher.
          and_then wc (\<lambda>wr_cipher.
            case header of
              None \<Rightarrow> Inr (None, rd_cipher, wr_cipher)
            | Some value \<Rightarrow>
                and_then (ok_or ''decode'' (dec value)) (\<lambda>data.
                  let (rd_cipher, data) = strategy_apply (chacha_apply ks) rd_cipher data
                  in Inr (Some data, rd_cipher, wr_cipher)))))"

section \<open>The stream\<close>

text \<open>
  The scratch buffer \<open>wr_buf\<close> is not part of the state: each write clears it first. The
  operations take those of the cipher as arguments.
\<close>

record ('rc, 'wc) cipher_stream =
  rd_cipher :: "'rc option"
  wr_cipher :: "'wc option"
  last_written_size :: "nat option"

definition cipher_stream_new :: "'rc \<Rightarrow> 'wc \<Rightarrow> ('rc, 'wc) cipher_stream" where
  "cipher_stream_new rc wc = \<lparr>rd_cipher = Some rc, wr_cipher = Some wc, last_written_size = None\<rparr>"

text \<open>
  \<open>poll_read\<close>; \<open>io\<close> is the outcome of the underlying read: the bytes it put into the buffer.
\<close>

definition cs_poll_read ::
  "('rc \<Rightarrow> bytes \<Rightarrow> 'rc \<times> bytes) \<Rightarrow> ('rc \<Rightarrow> bool) \<Rightarrow> ('rc, 'wc) cipher_stream \<Rightarrow> bytes res poll \<Rightarrow>
   bytes res poll \<times> ('rc, 'wc) cipher_stream" where
  "cs_poll_read ap wm s io =
     (case io of
        Ready (Inr data) \<Rightarrow>
          if length data > 0
          then (case rd_cipher s of
                  Some c \<Rightarrow>
                    if wm c then (let (c', out) = ap c data in (Ready (Inr out), s\<lparr>rd_cipher := Some c'\<rparr>))
                    else (io, s\<lparr>rd_cipher := None\<rparr>)
                | None \<Rightarrow> (io, s))
          else (io, s)
      | _ \<Rightarrow> (io, s))"

text \<open>
  What \<open>poll_write\<close> offers to the underlying writer: at most 4096 bytes at first, then what the
  writer took last time, but at least 512.
\<close>

definition desired_write_len :: "('rc, 'wc) cipher_stream \<Rightarrow> bytes \<Rightarrow> nat" where
  "desired_write_len s buf =
     min (length buf) (max (case last_written_size s of Some v \<Rightarrow> v | None \<Rightarrow> 4096) 512)"

definition cs_modifies :: "('wc \<Rightarrow> bool) \<Rightarrow> ('rc, 'wc) cipher_stream \<Rightarrow> bool" where
  "cs_modifies wm s = (case wr_cipher s of Some c \<Rightarrow> wm c | None \<Rightarrow> False)"

text \<open>
  \<open>poll_write\<close>; \<open>io\<close> is the outcome of the underlying write, the number of bytes it took. The
  result, the bytes that went out and the new state.
\<close>

definition cs_poll_write ::
  "('wc \<Rightarrow> bytes \<Rightarrow> 'wc \<times> bytes) \<Rightarrow> ('wc \<Rightarrow> nat \<Rightarrow> 'wc res) \<Rightarrow> ('wc \<Rightarrow> bool) \<Rightarrow> ('rc, 'wc) cipher_stream \<Rightarrow> bytes \<Rightarrow>
   nat res poll \<Rightarrow> (nat res poll \<times> bytes \<times> ('rc, 'wc) cipher_stream) res" where
  "cs_poll_write ap rw wm s buf io =
     (if cs_modifies wm s
      then (let c = the (wr_cipher s); len = desired_write_len s buf; (c1, wr_buf) = ap c (take len buf)
            in case io of
                 Pending \<Rightarrow>
                   and_then (rw c1 (length wr_buf)) (\<lambda>c2. Inr (Pending, [], s\<lparr>wr_cipher := Some c2\<rparr>))
               | Ready (Inl e) \<Rightarrow> Inr (Ready (Inl e), [], s\<lparr>wr_cipher := Some c1\<rparr>)
               | Ready (Inr actual) \<Rightarrow>
                   and_then (if actual < len then rw c1 (len - actual) else Inr c1) (\<lambda>c2.
                     Inr (Ready (Inr actual), take actual wr_buf,
                          s\<lparr>wr_cipher := Some c2, last_written_size := Some actual\<rparr>)))
      else (let s' = s\<lparr>wr_cipher := None\<rparr>
            in case io of
                 Ready (Inr actual) \<Rightarrow> Inr (io, take actual buf, s')
               | _ \<Rightarrow> Inr (io, [], s')))"

text \<open>
  \<open>poll_write_vectored\<close>; one outcome for each underlying write, the last for the vectored one on
  the buffers that are left, whose bytes count from the start of the first.
\<close>

function cs_vectored_loop ::
  "('wc \<Rightarrow> bytes \<Rightarrow> 'wc \<times> bytes) \<Rightarrow> ('wc \<Rightarrow> nat \<Rightarrow> 'wc res) \<Rightarrow> ('wc \<Rightarrow> bool) \<Rightarrow> ('rc, 'wc) cipher_stream \<Rightarrow> bytes list \<Rightarrow>
   nat res poll list \<Rightarrow> nat res poll \<Rightarrow> nat \<Rightarrow> bytes \<Rightarrow> (nat res poll \<times> bytes \<times> ('rc, 'wc) cipher_stream) res" where
  "cs_vectored_loop ap rw wm s [] os last_o total_len wire = Inr (Ready (Inr total_len), wire, s)"
| "cs_vectored_loop ap rw wm s (buf # bufs) os last_o total_len wire =
     (let (io, os') = (case os of [] \<Rightarrow> (Pending, []) | u # os' \<Rightarrow> (u, os'))
      in and_then (cs_poll_write ap rw wm s buf io) (\<lambda>(r, out, s').
           case r of
             Ready (Inl e) \<Rightarrow> Inr (Ready (Inl e), wire @ out, s')
           | Pending \<Rightarrow> Inr (if total_len > 0 then Ready (Inr total_len) else Pending, wire @ out, s')
           | Ready (Inr len) \<Rightarrow>
               if cs_modifies wm s'
               then cs_vectored_loop ap rw wm s' bufs os' last_o (total_len + len) (wire @ out)
               else if bufs = [] then Inr (Ready (Inr (total_len + len)), wire @ out, s')
               else (case last_o of
                       Ready (Inr v) \<Rightarrow>
                         Inr (Ready (Inr (total_len + len + v)), wire @ out @ take v (concat bufs), s')
                     | Ready (Inl e) \<Rightarrow> Inr (Ready (Inl e), wire @ out, s')
                     | Pending \<Rightarrow>
                         Inr (if total_len + len > 0 then Ready (Inr (total_len + len)) else Pending, wire @ out, s'))))"
  by pat_completeness auto
termination
  by (relation "measure (\<lambda>(ap, rw, wm, s, bufs, _). length bufs)") auto

definition cs_poll_write_vectored ::
  "('wc \<Rightarrow> bytes \<Rightarrow> 'wc \<times> bytes) \<Rightarrow> ('wc \<Rightarrow> nat \<Rightarrow> 'wc res) \<Rightarrow> ('wc \<Rightarrow> bool) \<Rightarrow> ('rc, 'wc) cipher_stream \<Rightarrow> bytes list \<Rightarrow>
   nat res poll list \<Rightarrow> nat res poll \<Rightarrow> (nat res poll \<times> bytes \<times> ('rc, 'wc) cipher_stream) res" where
  "cs_poll_write_vectored ap rw wm s bufs os last_o =
     (if cs_modifies wm s then cs_vectored_loop ap rw wm s bufs os last_o 0 []
      else (case last_o of
              Ready (Inr v) \<Rightarrow> Inr (last_o, take v (concat bufs), s)
            | _ \<Rightarrow> Inr (last_o, [], s)))"

section \<open>Runs\<close>

text \<open>
  A sequence of writes: \<open>accepted\<close> are the bytes whose write was reported as done, \<open>wire\<close> what went
  out. The underlying writer takes at most what it is offered; an error ends the connection.
\<close>

inductive cs_write_run for ap rw wm where
  w_start: "cs_write_run ap rw wm s [] [] s"
| w_pending: "cs_write_run ap rw wm s0 acc wire s \<Longrightarrow> cs_poll_write ap rw wm s buf Pending = Inr (r, out, s') \<Longrightarrow>
    cs_write_run ap rw wm s0 acc (wire @ out) s'"
| w_taken: "cs_write_run ap rw wm s0 acc wire s \<Longrightarrow>
    k \<le> (if cs_modifies wm s then desired_write_len s buf else length buf) \<Longrightarrow>
    cs_poll_write ap rw wm s buf (Ready (Inr k)) = Inr (r, out, s') \<Longrightarrow>
    cs_write_run ap rw wm s0 (acc @ take k buf) (wire @ out) s'"

text \<open>A sequence of reads of the segments of the wire.\<close>

fun cs_read_run :: "('rc \<Rightarrow> bytes \<Rightarrow> 'rc \<times> bytes) \<Rightarrow> ('rc \<Rightarrow> bool) \<Rightarrow> ('rc, 'wc) cipher_stream \<Rightarrow> bytes list \<Rightarrow> bytes" where
  "cs_read_run ap wm s [] = []"
| "cs_read_run ap wm s (seg # segs) =
     (case cs_poll_read ap wm s (Ready (Inr seg)) of
        (Ready (Inr out), s') \<Rightarrow> out @ cs_read_run ap wm s' segs
      | (_, s') \<Rightarrow> [])"

context stream_cipher
begin

definition wr_at :: "('rc, 'c) cipher_stream \<Rightarrow> nat \<Rightarrow> bool" where
  "wr_at s p \<longleftrightarrow> (case wr_cipher s of Some c \<Rightarrow> at_pos c p | None \<Rightarrow> (\<forall>i \<ge> p. mask i = 0))"

definition rd_at :: "('c, 'wc) cipher_stream \<Rightarrow> nat \<Rightarrow> bool" where
  "rd_at s p \<longleftrightarrow> (case rd_cipher s of Some c \<Rightarrow> at_pos c p | None \<Rightarrow> (\<forall>i \<ge> p. mask i = 0))"

lemma wr_plain:
  assumes "wr_at s p" and "\<not> cs_modifies will_modify s"
  shows "p \<le> i \<Longrightarrow> mask i = 0"
  using assms no_modify by (auto simp: wr_at_def cs_modifies_def split: option.splits)

text \<open>One write: it never panics, and what went out is the mask over what was taken.\<close>

lemma cs_poll_write_pending:
  assumes "wr_at s p"
  shows "\<exists>s'. cs_poll_write apply_ks rewind will_modify s buf Pending = Inr (Pending, [], s') \<and> wr_at s' p"
proof (cases "cs_modifies will_modify s")
  case True
  then obtain c where c: "wr_cipher s = Some c" "will_modify c" "at_pos c p"
    using assms by (auto simp: cs_modifies_def wr_at_def split: option.splits)
  let ?b = "take (desired_write_len s buf) buf"
  have len: "length (snd (apply_ks c ?b)) = length ?b" using apply_data[OF c(3,2)] by simp
  obtain c' where "rewind (fst (apply_ks c ?b)) (length ?b) = Inr c'" "at_pos c' p"
    using rewind_pos[OF c(3,2), of "length ?b" ?b] by auto
  then show ?thesis
    using True c(1) len by (simp add: cs_poll_write_def Let_def split_beta wr_at_def)
next
  case False
  then show ?thesis
    using wr_plain[OF assms False] by (simp add: cs_poll_write_def wr_at_def)
qed

lemma cs_poll_write_taken:
  assumes "wr_at s p" and "k \<le> (if cs_modifies will_modify s then desired_write_len s buf else length buf)"
  shows "\<exists>s'. cs_poll_write apply_ks rewind will_modify s buf (Ready (Inr k)) =
      Inr (Ready (Inr k), xor_at mask p (take k buf), s') \<and> wr_at s' (p + k)"
proof (cases "cs_modifies will_modify s")
  case True
  then obtain c where c: "wr_cipher s = Some c" "will_modify c" "at_pos c p"
    using assms by (auto simp: cs_modifies_def wr_at_def split: option.splits)
  define l where "l = desired_write_len s buf"
  have l: "k \<le> l" "l \<le> length buf" using assms(2) True by (auto simp: l_def desired_write_len_def)
  have data: "snd (apply_ks c (take l buf)) = xor_at mask p (take l buf)" using apply_data[OF c(3,2)] .
  have "\<exists>c'. (if k < l then rewind (fst (apply_ks c (take l buf))) (l - k) else Inr (fst (apply_ks c (take l buf)))) =
      Inr c' \<and> at_pos c' (p + k)"
    using rewind_pos[OF c(3,2), of "l - k" "take l buf"] apply_pos[OF c(3,2), of "take l buf"] l by auto
  then show ?thesis
    using True c(1) l data
    by (auto simp: cs_poll_write_def Let_def split_beta wr_at_def l_def[symmetric] take_xor_at min_absorb1)
next
  case False
  have "xor_at mask p (take k buf) = take k buf" using wr_plain[OF assms(1) False] by (rule xor_at_zero)
  then show ?thesis
    using False wr_plain[OF assms(1) False] by (simp add: cs_poll_write_def wr_at_def)
qed

lemma write_run_wire:
  "cs_write_run apply_ks rewind will_modify s0 acc wire s \<Longrightarrow> wr_at s0 p \<Longrightarrow> wire = xor_at mask p acc \<and> wr_at s (p + length acc)"
proof (induction rule: cs_write_run.induct)
  case (w_pending s0 acc wire s buf r out s')
  then show ?case using cs_poll_write_pending[of s "p + length acc" buf] by auto
next
  case (w_taken s0 acc wire s k buf r out s')
  have "k \<le> length buf" using w_taken.hyps(2) by (auto simp: desired_write_len_def split: if_splits)
  then show ?case
    using w_taken cs_poll_write_taken[of s "p + length acc" k buf]
    by (auto simp: xor_at_append min_absorb1 ac_simps)
qed simp

lemma cs_poll_read_data:
  assumes "rd_at s p"
  shows "\<exists>s'. cs_poll_read apply_ks will_modify s (Ready (Inr data)) = (Ready (Inr (xor_at mask p data)), s') \<and>
           rd_at s' (p + length data)"
proof (cases "rd_cipher s")
  case None
  then show ?thesis using assms xor_at_zero[of p mask data] by (auto simp: cs_poll_read_def rd_at_def)
next
  case (Some c)
  then have c: "at_pos c p" using assms by (simp add: rd_at_def)
  show ?thesis
  proof (cases "will_modify c")
    case True
    then show ?thesis
      using Some c apply_data[OF c True, of data] apply_pos[OF c True, of data]
      by (cases data) (auto simp: cs_poll_read_def rd_at_def split_beta)
  next
    case False
    then show ?thesis
      using Some c no_modify[OF c False] xor_at_zero[of p mask data]
      by (cases data) (auto simp: cs_poll_read_def rd_at_def)
  qed
qed

lemma read_run_data: "rd_at s p \<Longrightarrow> cs_read_run apply_ks will_modify s segs = xor_at mask p (concat segs)"
proof (induction segs arbitrary: s p)
  case (Cons seg segs)
  then show ?case
    using cs_poll_read_data[OF Cons.prems, of seg] by (auto simp: xor_at_append)
qed simp

text \<open>Both ends in step: any segmentation of the wire is read back as what was accepted.\<close>

lemma write_read:
  assumes "cs_write_run apply_ks rewind will_modify s0 acc wire s" and "wr_at s0 p" and "rd_at r p" and "concat segs = wire"
  shows "cs_read_run apply_ks will_modify r segs = acc"
  using write_run_wire[OF assms(1,2)] read_run_data[OF assms(3)] assms(4) by simp

end

section \<open>The tunnel\<close>

abbreviation tunnel_apply :: "(nat \<Rightarrow> u8) \<Rightarrow> tunnel_cipher \<Rightarrow> bytes \<Rightarrow> tunnel_cipher \<times> bytes" where
  "tunnel_apply ks \<equiv> strategy_apply (chacha_apply ks)"

abbreviation tunnel_rewind :: "tunnel_cipher \<Rightarrow> nat \<Rightarrow> tunnel_cipher res" where
  "tunnel_rewind \<equiv> strategy_rewind chacha_rewind"

abbreviation tunnel_will_modify :: "tunnel_cipher \<Rightarrow> bool" where
  "tunnel_will_modify \<equiv> strategy_will_modify chacha_will_modify"

text \<open>Strategies the path can carry and a cipher can be made for.\<close>

definition strategy_ok :: "encryption_strategy \<Rightarrow> bool" where
  "strategy_ok s = (case s of FirstN n \<Rightarrow> 0 < n \<and> n \<le> ISIZE_MAX | _ \<Rightarrow> True)"

text \<open>What the program relies on of the base64 library.\<close>

definition base64_ok :: "(bytes \<Rightarrow> rstr) \<Rightarrow> (rstr \<Rightarrow> bytes option) \<Rightarrow> bool" where
  "base64_ok enc dec \<longleftrightarrow> (\<forall>x. dec (enc x) = Some x) \<and> (\<forall>x. 47 \<notin> set (enc x))"

lemma strategy_ok_roundtrip: "strategy_ok s \<Longrightarrow> strategy_from_str (show_strategy s) = Inr s"
  by (rule strategy_roundtrip) (auto simp: strategy_ok_def ISIZE_MAX_def split: encryption_strategy.splits)

lemma parse_uint_u8: "parse_uint 256 (show_nat (unat (t :: u8))) = Some (unat t)"
  using unsigned_less[of t, where ?'a = nat] by simp

lemma params_roundtrip_parsed:
  assumes "base64_ok enc dec" and "strategy_from_str (show_strategy (cp_send p)) = Inr (cp_send p)"
    and "strategy_from_str (show_strategy (cp_recv p)) = Inr (cp_recv p)"
  shows "params_from_str dec (show_params enc p) = Inr p"
proof -
  have e: "47 \<notin> set (enc x)" "dec (enc x) = Some x" for x using assms(1) by (auto simp: base64_ok_def)
  have n: "47 \<notin> set (show_nat k)" for k using show_nat_digits is_digit_range by blast
  have "split_on 47 (show_params enc p) =
      [[], enc (cp_key p), enc (cp_iv p), show_strategy (cp_send p), show_strategy (cp_recv p), show_nat (unat (cp_type p))]"
    using split_on_append[of 47 "[]"]
    by (simp add: show_params_def split_on_append[OF e(1)] split_on_append[OF show_strategy_no_slash] split_on_single[OF n])
  then show ?thesis
    using e(2) assms(2,3) by (simp add: params_from_str_def parse_uint_u8)
qed

lemma params_roundtrip:
  assumes "base64_ok enc dec" and "strategy_ok (cp_send p)" and "strategy_ok (cp_recv p)"
  shows "params_from_str dec (show_params enc p) = Inr p"
  using params_roundtrip_parsed strategy_ok_roundtrip assms by blast

lemma wrap_cipher_ok: "strategy_ok s \<Longrightarrow> \<exists>c'. wrap_cipher s c = Inr c'"
  by (cases s) (auto simp: strategy_ok_def wrap_cipher_def partial_new_def)

text \<open>A fresh cipher applied to the initial data.\<close>

lemma fresh_cipher_apply:
  assumes "strategy_ok s" and "wrap_cipher s \<lparr>pos = 0\<rparr> = Inr c"
  shows "snd (tunnel_apply ks c d) = xor_at (strategy_mask s ks) 0 d \<and>
         strategy_at (\<lambda>c p. pos c = p) s (fst (tunnel_apply ks c d)) (length d)"
proof (cases "s = Never")
  case True
  then show ?thesis using assms(2) xor_at_zero[of 0 "\<lambda>_. 0" d] by (auto simp: wrap_cipher_def)
next
  case False
  have a: "strategy_at (\<lambda>c p. pos c = p) s c 0"
    using chacha.wrap_cipher_at[OF assms(2)] by simp
  moreover have "tunnel_will_modify c"
    using False assms by (cases s) (auto simp: strategy_ok_def wrap_cipher_def partial_new_def
        partial_will_modify_def chacha_will_modify_def)
  ultimately show ?thesis
    using tunnel.apply_data tunnel.apply_pos[of s c 0 ks d] by auto
qed

lemma fresh_cipher_nonempty_apply:
  assumes "strategy_ok s" and "wrap_cipher s \<lparr>pos = 0\<rparr> = Inr c"
    and "(c', d') = (if 0 < length d then tunnel_apply ks c d else (c, d))"
  shows "d' = xor_at (strategy_mask s ks) 0 d \<and> strategy_at (\<lambda>c p. pos c = p) s c' (length d)"
  using fresh_cipher_apply[OF assms(1,2), of ks d] chacha.wrap_cipher_at[OF assms(2)] assms(3)
  by (cases d) (auto simp: prod_eq_iff)

text \<open>
  The state of both ends after the handshake: each direction has one mask, and its two
  ciphers stand at the same position of it.
\<close>

lemma handshake_state:
  assumes "base64_ok enc dec" and "length key = 32" and "length iv = 12"
    and "strategy_ok send" and "strategy_ok recv"
  obtains path hdr rc wc src swc where
    "cipher_connect chacha enc key iv send recv d = Inr (path, hdr, rc, wc)"
    "cipher_accept chacha dec path (Some hdr) = Inr (Some d, src, swc)"
    "strategy_at (\<lambda>c p. pos c = p) send wc (length d)" "strategy_at (\<lambda>c p. pos c = p) send src (length d)"
    "strategy_at (\<lambda>c p. pos c = p) recv rc 0" "strategy_at (\<lambda>c p. pos c = p) recv swc 0"
proof -
  let ?ks = "chacha key iv"
  let ?p = "\<lparr>cp_key = key, cp_iv = iv, cp_send = send, cp_recv = recv, cp_type = 1\<rparr>"
  obtain w0 r0 where w0: "wrap_cipher send \<lparr>pos = 0\<rparr> = Inr w0" and r0: "wrap_cipher recv \<lparr>pos = 0\<rparr> = Inr r0"
    using wrap_cipher_ok assms(4,5) by meson
  obtain wc d' where wc: "(wc, d') = (if 0 < length d then tunnel_apply ?ks w0 d else (w0, d))"
    by (metis prod.exhaust)
  have d': "d' = xor_at (strategy_mask send ?ks) 0 d" "strategy_at (\<lambda>c p. pos c = p) send wc (length d)"
    using fresh_cipher_nonempty_apply[OF assms(4) w0 wc] by auto
  have conn: "cipher_connect chacha enc key iv send recv d = Inr (show_params enc ?p, enc d', r0, wc)"
    using w0 r0 wc[symmetric] assms(2,3) by (simp add: cipher_connect_def pick_cipher_def create_cipher_def Let_def)
  obtain src where src: "src = fst (tunnel_apply ?ks w0 d')" by simp
  have s: "snd (tunnel_apply ?ks w0 d') = d" "strategy_at (\<lambda>c p. pos c = p) send src (length d)"
    using fresh_cipher_apply[OF assms(4) w0, of ?ks d'] d'(1) src by auto
  have dec: "dec (enc d') = Some d'" using assms(1) by (simp add: base64_ok_def)
  have par: "params_from_str dec (show_params enc ?p) = Inr ?p"
    by (rule params_roundtrip) (use assms in simp_all)
  have "cipher_accept chacha dec (show_params enc ?p) (Some (enc d')) = Inr (Some d, src, r0)"
    using s src w0 r0 dec par assms(2,3)
    by (simp add: cipher_accept_def check_request_def create_cipher_def Let_def split_beta)
  then show thesis
    using that[OF conn] d'(2) s(2) chacha.wrap_cipher_at[OF r0] by simp
qed

section \<open>Properties\<close>

text \<open>
  C1: The encrypted tunnel is transparent. For all keys, strategies and initial data, given a base64
  library that decodes what it encoded and never produces a slash: the server recovers the
  initial data from the client's request path and header; and afterwards, in both
  directions, whatever sequence of pending, short and full writes the network forces on the
  writer and however it cuts the bytes into segments, the reader obtains exactly the bytes
  whose write was reported as done.
\<close>

theorem tunnel_transparent:
  assumes "base64_ok enc dec" and "length key = 32" and "length iv = 12"
    and "strategy_ok send" and "strategy_ok recv"
  shows "\<exists>path hdr rc wc src swc.
      cipher_connect chacha enc key iv send recv d = Inr (path, hdr, rc, wc) \<and>
      cipher_accept chacha dec path (Some hdr) = Inr (Some d, src, swc) \<and>
      (\<forall>acc wire s segs.
         cs_write_run (tunnel_apply (chacha key iv)) tunnel_rewind tunnel_will_modify (cipher_stream_new rc wc) acc wire s \<longrightarrow>
         concat segs = wire \<longrightarrow>
         cs_read_run (tunnel_apply (chacha key iv)) tunnel_will_modify (cipher_stream_new src swc) segs = acc) \<and>
      (\<forall>acc wire s segs.
         cs_write_run (tunnel_apply (chacha key iv)) tunnel_rewind tunnel_will_modify (cipher_stream_new src swc) acc wire s \<longrightarrow>
         concat segs = wire \<longrightarrow>
         cs_read_run (tunnel_apply (chacha key iv)) tunnel_will_modify (cipher_stream_new rc wc) segs = acc)"
proof -
  obtain path hdr rc wc src swc where hs:
    "cipher_connect chacha enc key iv send recv d = Inr (path, hdr, rc, wc)"
    "cipher_accept chacha dec path (Some hdr) = Inr (Some d, src, swc)"
    "strategy_at (\<lambda>c p. pos c = p) send wc (length d)" "strategy_at (\<lambda>c p. pos c = p) send src (length d)"
    "strategy_at (\<lambda>c p. pos c = p) recv rc 0" "strategy_at (\<lambda>c p. pos c = p) recv swc 0"
    by (rule handshake_state[OF assms, of chacha d])
  have up: "tunnel.wr_at send (chacha key iv) (cipher_stream_new rc wc) (length d)"
      "tunnel.rd_at send (chacha key iv) (cipher_stream_new src swc) (length d)"
    using hs(3,4) by (simp_all add: tunnel.wr_at_def tunnel.rd_at_def cipher_stream_new_def)
  have down: "tunnel.wr_at recv (chacha key iv) (cipher_stream_new src swc) 0"
      "tunnel.rd_at recv (chacha key iv) (cipher_stream_new rc wc) 0"
    using hs(5,6) by (simp_all add: tunnel.wr_at_def tunnel.rd_at_def cipher_stream_new_def)
  show ?thesis
    using hs(1,2) tunnel.write_read[OF _ up] tunnel.write_read[OF _ down] by blast
qed

text \<open>A library that satisfies the hypothesis: each byte after a mark, the slash escaped.\<close>

fun demo_enc :: "bytes \<Rightarrow> rstr" where
  "demo_enc [] = []"
| "demo_enc (b # bs) = (if b = 47 then [0, 0] else [1, b]) @ demo_enc bs"

fun demo_dec :: "rstr \<Rightarrow> bytes option" where
  "demo_dec [] = Some []"
| "demo_dec (m # b # r) = map_option (\<lambda>bs. (if m = 0 then 47 else b) # bs) (demo_dec r)"
| "demo_dec [x] = None"

lemma demo_base64: "base64_ok demo_enc demo_dec"
proof -
  have "demo_dec (demo_enc x) = Some x \<and> 47 \<notin> set (demo_enc x)" for x
    by (induction x) auto
  then show ?thesis by (simp add: base64_ok_def)
qed

theorem tunnel_transparent_witness:
  "\<exists>path hdr rc wc src swc.
     cipher_connect (\<lambda>k v i. of_nat i) demo_enc (replicate 32 7) (replicate 12 9) (FirstN 512) Never [1, 2, 3] = Inr (path, hdr, rc, wc) \<and>
     cipher_accept (\<lambda>k v i. of_nat i) demo_dec path (Some hdr) = Inr (Some [1, 2, 3], src, swc)"
proof -
  have "strategy_ok (FirstN 512)" "strategy_ok Never" by (simp_all add: strategy_ok_def ISIZE_MAX_def)
  from tunnel_transparent[OF demo_base64 _ _ this, of "replicate 32 7" "replicate 12 9" "\<lambda>k v i. of_nat i" "[1, 2, 3]"]
  show ?thesis by auto
qed

text \<open>
  A vectored write on an encrypting stream loses data: with a fresh stream whose writer takes all
  it is offered, and two buffers of which the first is longer than 4096 bytes, the first 4096
  bytes of each buffer go out, and their sum is reported, so the rest of the first buffer is
  missing from the stream.
\<close>

theorem vectored_write_skips:
  assumes "4096 < length b1" and "b2 \<noteq> []" and "length b2 \<le> 4096"
  shows "\<exists>s'. cs_poll_write_vectored (tunnel_apply ks) tunnel_rewind tunnel_will_modify
            (cipher_stream_new SNever (SAlways \<lparr>pos = 0\<rparr>)) [b1, b2] [Ready (Inr 4096), Ready (Inr (length b2))] io =
          Inr (Ready (Inr (4096 + length b2)), xor_at ks 0 (take 4096 b1 @ b2), s')"
  using assms
  by (simp add: cs_poll_write_vectored_def cs_modifies_def cipher_stream_new_def chacha_will_modify_def
      cs_poll_write_def desired_write_len_def chacha_apply_def Let_def xor_at_append take_xor_at)

theorem vectored_write_skips_witness:
  "\<exists>s'. cs_poll_write_vectored (tunnel_apply (\<lambda>_. 0)) tunnel_rewind tunnel_will_modify
       (cipher_stream_new SNever (SAlways \<lparr>pos = 0\<rparr>)) [replicate 5000 1, [2]] [Ready (Inr 4096), Ready (Inr (length [2::u8]))] Pending =
     Inr (Ready (Inr (4096 + length [2::u8])), xor_at (\<lambda>_. 0) 0 (take 4096 (replicate 5000 1) @ [2]), s')"
  by (rule vectored_write_skips) simp_all

text \<open>
  A request can make the server panic: a path with a count of \<open>2^63\<close> or more as strategy parses, and
  building its cipher panics.
\<close>

theorem huge_strategy_panics:
  assumes "base64_ok enc dec" and "length (cp_key p) = 32" and "length (cp_iv p) = 12" and "cp_type p = 1"
    and "cp_send p = FirstN n" and "ISIZE_MAX < n" and "n < 2 ^ 64" and "strategy_ok (cp_recv p)"
  shows "\<exists>e. cipher_accept chacha dec (show_params enc p) hdr = Inl (Panic e)"
proof -
  have "strategy_from_str (show_strategy (cp_send p)) = Inr (cp_send p)"
    by (rule strategy_roundtrip) (use assms(5-7) in simp)
  then have "params_from_str dec (show_params enc p) = Inr p"
    using params_roundtrip_parsed[OF assms(1)] strategy_ok_roundtrip[OF assms(8)] by blast
  then show ?thesis
    using assms(2-6)
    by (simp add: cipher_accept_def check_request_def create_cipher_def wrap_cipher_def partial_new_def)
qed

theorem huge_strategy_panics_witness:
  "\<exists>e. cipher_accept (\<lambda>k v i. 0) demo_dec
     (show_params demo_enc \<lparr>cp_key = replicate 32 1, cp_iv = replicate 12 1, cp_send = FirstN (2 ^ 63), cp_recv = Always, cp_type = 1\<rparr>)
     None = Inl (Panic e)"
  by (rule huge_strategy_panics[OF demo_base64, where n = "2 ^ 63"])
    (simp_all add: ISIZE_MAX_def strategy_ok_def del: power_numeral)

end
