(* ===== verification/Tcpman.thy ===== *)
theory Tcpman
  imports Packet_Stream Cipher_Stream Http
begin

text \<open>
  The TCP tunnel as a whole: the WebSocket-like negotiation that opens it (src/ws.rs), the client that
  sends its request with it (src/protocol/tcpman/mod.rs, cipher/client.rs) and the server that accepts
  the client, asks an upstream and answers (cipher/server.rs, src/protocol/tcpman/server). Both
  directions of a connection are segment lists; what an end writes is part of its result.
\<close>

section \<open>Negotiation\<close>

definition ws_request :: "bytes \<Rightarrow> bytes" where
  "ws_request builder =
     builder_finalise
       (put_header_text (lit ''Sec-WebSocket-Key'') (lit ''dGhlIHNhbXBsZSBub25jZQ=='')
       (put_header_text (lit ''Sec-WebSocket-Version'') (lit ''13'')
       (put_header_text (lit ''Upgrade'') (lit ''Websocket'')
       (put_header_text (lit ''Connection'') (lit ''Upgrade'') builder))))"

text \<open>
  \<open>negotiate_websocket\<close>: the bytes written and the stream behind the response. For another status than
  101 the body is read for the message only; it may panic or never end (\<open>None\<close>).
\<close>

definition negotiate_websocket ::
  "u16 option tokenizer \<Rightarrow> (bytes \<Rightarrow> (nat \<times> nat) option res) \<Rightarrow> bytes \<Rightarrow> segments \<Rightarrow> bytes \<times> http_response http_stream res option" where
  "negotiate_websocket hp pcs builder ss =
     (ws_request builder,
      case in_context ''Parsing initial response'' (parse_response hp ss (rwb_new (replicate 512 0))) of
        Inl e \<Rightarrow> Some (Inl e)
      | Inr http_stream \<Rightarrow>
          if hs_status_code (st_init http_stream) \<noteq> 101
          then (case http_body pcs (hs_headers (st_init http_stream)) http_stream of
                  None \<Rightarrow> None
                | Some (Inl (Panic p)) \<Rightarrow> Some (Inl (Panic p))
                | Some _ \<Rightarrow> Some (Inl (Err ''Expecting 101 response'')))
          else Some (Inr http_stream))"

definition header_is :: "headers \<Rightarrow> string \<Rightarrow> string \<Rightarrow> bool" where
  "header_is hs name v =
     eq_ignore_ascii_case (case get_header_text hs (lit name) of Some x \<Rightarrow> x | None \<Rightarrow> []) (lit v)"

definition ws_not_found :: bytes where
  "ws_not_found = lit ''HTTP/1.1 404 Not found'' @ crlf @ crlf"

definition serve_websocket ::
  "(rstr option \<times> rstr option) tokenizer \<Rightarrow> segments \<Rightarrow> bytes \<times> http_request http_stream res" where
  "serve_websocket hp ss =
     (case parse_request hp ss (rwb_new (replicate 512 0)) of
        Inl e \<Rightarrow> ([], Inl e)
      | Inr req \<Rightarrow>
          (let r = st_init req; hs = hr_headers r
           in if \<not> eq_ignore_ascii_case (hr_method r) (lit ''get'') then ([], Inl (Err ''Expecting GET method''))
              else if header_is hs ''connection'' ''upgrade'' \<and> header_is hs ''upgrade'' ''websocket'' \<and>
                      header_is hs ''sec-websocket-version'' ''13'' \<and>
                      0 < length (case get_header_text hs (lit ''sec-websocket-key'') of Some k \<Rightarrow> k | None \<Rightarrow> [])
              then ([], Inr req)
              else (ws_not_found, Inl (Err ''Invalid websocket parameters''))))"

definition respond_success :: bytes where
  "respond_success =
     lit ''HTTP/1.1 101 Switching Protocols'' @ crlf @ lit ''Upgrade: WebSocket'' @ crlf @ lit ''Connection: Upgrade'' @ crlf @
     lit ''Sec-WebSocket-Accept: s3pPLMBiTxaQ9kYGzzhZRbK+xOo='' @ crlf @ crlf"

section \<open>Client\<close>

definition INITIAL_DATA_HEADER :: rstr where
  "INITIAL_DATA_HEADER = lit ''X-Cache-Key''"

text \<open>\<open>auth\<close> is the text of the credentials (base64 of user and password), if there are any.\<close>

definition tunnel_builder :: "rstr \<Rightarrow> rstr option \<Rightarrow> rstr \<Rightarrow> rstr \<Rightarrow> bytes" where
  "tunnel_builder host auth path data =
     (let b = put_header_text INITIAL_DATA_HEADER data
                (put_header_text (lit ''Host'') host (builder_new (lit ''GET'') path))
      in case auth of Some a \<Rightarrow> put_header_text (lit ''Authorization'') a b | None \<Rightarrow> b)"

text \<open>\<open>cipher::client::connect\<close>: the request written, and the encrypted stream over the rest.\<close>

definition tunnel_connect ::
  "(bytes \<Rightarrow> bytes \<Rightarrow> nat \<Rightarrow> u8) \<Rightarrow> (bytes \<Rightarrow> rstr) \<Rightarrow> u16 option tokenizer \<Rightarrow> (bytes \<Rightarrow> (nat \<times> nat) option res) \<Rightarrow> bytes \<Rightarrow> bytes \<Rightarrow>
   rstr \<Rightarrow> encryption_strategy \<Rightarrow> encryption_strategy \<Rightarrow> rstr option \<Rightarrow> bytes \<Rightarrow> segments \<Rightarrow>
   bytes \<times> ((tunnel_cipher, tunnel_cipher) cipher_stream \<times> http_response http_stream) res option" where
  "tunnel_connect chacha enc hp pcs key iv host send_strategy recv_strategy auth initial_data ss =
     (case cipher_connect chacha enc key iv send_strategy recv_strategy initial_data of
        Inl e \<Rightarrow> ([], Some (Inl e))
      | Inr (path, data, rdc, wrc) \<Rightarrow>
          (case negotiate_websocket hp pcs (tunnel_builder host auth path data) ss of
             (w, r) \<Rightarrow> (w, map_option (\<lambda>x. and_then x (\<lambda>s. Inr (cipher_stream_new rdc wrc, s))) r)))"

definition credentials_header :: "(rstr \<Rightarrow> rstr) \<Rightarrow> rstr \<Rightarrow> rstr \<Rightarrow> rstr" where
  "credentials_header base64 username password = lit ''Basic '' @ base64 (username @ lit '':'' @ password)"

text \<open>\<open>TcpMan::send_request\<close> on a connected (and, with TLS, wrapped) stream.\<close>

definition tcpman_send_request ::
  "(bytes \<Rightarrow> bytes \<Rightarrow> nat \<Rightarrow> u8) \<Rightarrow> (bytes \<Rightarrow> rstr) \<Rightarrow> u16 option tokenizer \<Rightarrow> (bytes \<Rightarrow> (nat \<times> nat) option res) \<Rightarrow> bytes \<Rightarrow> bytes \<Rightarrow>
   address \<Rightarrow> bool \<Rightarrow> rstr option \<Rightarrow> address \<Rightarrow> tcpman_request \<Rightarrow> segments \<Rightarrow>
   bytes \<times> ((tunnel_cipher, tunnel_cipher) cipher_stream \<times> http_response http_stream) res option" where
  "tcpman_send_request chacha enc hp pcs key iv server ssl auth dst req ss =
     (case request_to_vec req of
        Inl e \<Rightarrow> ([], Some (Inl e))
      | Inr initial_data \<Rightarrow>
          tunnel_connect chacha enc hp pcs key iv (get_host server) (strategy_new_send True (get_port dst) ssl)
            (strategy_new_receive True (get_port dst)) auth initial_data ss)"

definition tcpman_stream_request :: "address \<Rightarrow> bytes option \<Rightarrow> tcpman_request" where
  "tcpman_stream_request dst initial_data = ReqTCP dst (case initial_data of Some d \<Rightarrow> d | None \<Rightarrow> [])"

definition tcpman_datagram_request :: "address \<Rightarrow> bytes \<Rightarrow> tcpman_request" where
  "tcpman_datagram_request dst initial_data = ReqUDP dst initial_data"

section \<open>Server\<close>

text \<open>\<open>accept_client\<close>: what is written on failure, and otherwise the initial data, the stream and the ciphers.\<close>

definition accept_client ::
  "(bytes \<Rightarrow> bytes \<Rightarrow> nat \<Rightarrow> u8) \<Rightarrow> (rstr \<Rightarrow> bytes option) \<Rightarrow> (rstr option \<times> rstr option) tokenizer \<Rightarrow> segments \<Rightarrow>
   bytes \<times> (bytes option \<times> http_request http_stream \<times> tunnel_cipher \<times> tunnel_cipher) res" where
  "accept_client chacha dec hp ss =
     (case serve_websocket hp ss of
        (w, Inl e) \<Rightarrow> (w, Inl e)
      | (w, Inr req) \<Rightarrow>
          (let r = st_init req
           in (case check_request chacha dec (hr_path r) of
                 Inl (raw, _) \<Rightarrow> w @ raw
               | Inr _ \<Rightarrow> w,
               and_then (cipher_accept chacha dec (hr_path r) (get_header (hr_headers r) INITIAL_DATA_HEADER)) (\<lambda>(d, rc, wc).
                 Inr (d, req, rc, wc)))))"

definition respond_error :: "(fault \<Rightarrow> rstr) \<Rightarrow> fault \<Rightarrow> bytes" where
  "respond_error show e =
     lit ''HTTP/1.1 500 Internal Error'' @ crlf @ lit ''Content-Type: text/plain'' @ crlf @
     lit ''Content-Length: '' @ show_nat (length (show e)) @ crlf @ crlf @ show e"

fun fail_client :: "(fault \<Rightarrow> rstr) \<Rightarrow> bytes \<Rightarrow> fault \<Rightarrow> bytes \<times> 'a res" where
  "fail_client show w (Panic p) = (w, Inl (Panic p))"
| "fail_client show w (Err m) = (w @ respond_error show (Err m), Inl (Err m))"

text \<open>
  \<open>serve_client\<close> up to the relay: \<open>upstream\<close> is the outcome of the factory and of \<open>new_stream\<close> or
  \<open>new_datagram\<close> for the request. The result holds what was written to the client, the request with the upstream,
  the client's stream and its ciphers.
\<close>

definition serve_client ::
  "(bytes \<Rightarrow> bytes \<Rightarrow> nat \<Rightarrow> u8) \<Rightarrow> (rstr \<Rightarrow> bytes option) \<Rightarrow> (rstr option \<times> rstr option) tokenizer \<Rightarrow> (fault \<Rightarrow> rstr) \<Rightarrow>
   (tcpman_request \<Rightarrow> 'u res) \<Rightarrow> segments \<Rightarrow>
   bytes \<times> (tcpman_request \<times> 'u \<times> (tunnel_cipher, tunnel_cipher) cipher_stream \<times> http_request http_stream) res" where
  "serve_client chacha dec hp show upstream ss =
     (case accept_client chacha dec hp ss of
        (w, Inl e) \<Rightarrow> (w, in_context ''Awaiting handshake'' (Inl e))
      | (w, Inr (initial_data, req, rc, wc)) \<Rightarrow>
          (case in_context ''Parsing TCPMan request'' (request_parse (case initial_data of Some d \<Rightarrow> d | None \<Rightarrow> [])) of
             Inl e \<Rightarrow> fail_client show w e
           | Inr q \<Rightarrow>
               (case upstream q of
                  Inl e \<Rightarrow> fail_client show w e
                | Inr u \<Rightarrow> (w @ respond_success, Inr (q, u, cipher_stream_new rc wc, req)))))"

section \<open>Lemmas\<close>

text \<open>The headers of a client's request, in the order in which they are written.\<close>

definition tunnel_headers :: "rstr \<Rightarrow> rstr option \<Rightarrow> rstr \<Rightarrow> headers" where
  "tunnel_headers host auth data =
     [(lit ''Host'', host), (INITIAL_DATA_HEADER, data)] @
     (case auth of Some a \<Rightarrow> [(lit ''Authorization'', a)] | None \<Rightarrow> []) @
     [(lit ''Connection'', lit ''Upgrade''), (lit ''Upgrade'', lit ''Websocket''), (lit ''Sec-WebSocket-Version'', lit ''13''),
      (lit ''Sec-WebSocket-Key'', lit ''dGhlIHNhbXBsZSBub25jZQ=='')]"

lemma put_header_is_text: "put_header k v b = put_header_text k v b"
  by (simp add: put_header_def put_header_text_def)

lemma ws_request_to_writer:
  "ws_request (tunnel_builder host auth path data) =
     request_to_writer \<lparr>hr_headers = tunnel_headers host auth data, hr_method = lit ''GET'', hr_path = path\<rparr>"
  by (cases auth) (simp_all add: ws_request_def tunnel_builder_def request_to_writer_def to_builder_def tunnel_headers_def
      put_header_is_text)

lemma tunnel_header_values:
  "get_header (tunnel_headers host auth data) (lit ''connection'') = Some (lit ''Upgrade'')"
  "get_header (tunnel_headers host auth data) (lit ''upgrade'') = Some (lit ''Websocket'')"
  "get_header (tunnel_headers host auth data) (lit ''sec-websocket-version'') = Some (lit ''13'')"
  "get_header (tunnel_headers host auth data) (lit ''sec-websocket-key'') = Some (lit ''dGhlIHNhbXBsZSBub25jZQ=='')"
  "get_header (tunnel_headers host auth data) INITIAL_DATA_HEADER = Some data"
  by (cases auth; simp add: tunnel_headers_def INITIAL_DATA_HEADER_def eq_ignore_ascii_case_def lit_def to_lower_def)+

lemma literal_texts:
  "from_utf8 (lit ''Upgrade'') = Some (lit ''Upgrade'')" "from_utf8 (lit ''Websocket'') = Some (lit ''Websocket'')"
  "from_utf8 (lit ''13'') = Some (lit ''13'')"
  "from_utf8 (lit ''dGhlIHNhbXBsZSBub25jZQ=='') = Some (lit ''dGhlIHNhbXBsZSBub25jZQ=='')"
  "eq_ignore_ascii_case (lit ''Upgrade'') (lit ''upgrade'')" "eq_ignore_ascii_case (lit ''Websocket'') (lit ''websocket'')"
  "eq_ignore_ascii_case (lit ''13'') (lit ''13'')" "eq_ignore_ascii_case (lit ''GET'') (lit ''get'')"
  by code_simp+

lemma live_512: "rwb_live (rwb_new (replicate 512 0))" "read_buf (rwb_new (replicate 512 0)) = []"
  by (simp_all add: rwb_live_def rwb_new_def rwb_inv_def read_buf_def)

text \<open>The server accepts what the client wrote, and leaves what follows in its stream.\<close>

lemma serve_websocket_accepts:
  assumes "stream_parser (request_parser hp)"
    and "request_parser hp (ws_request (tunnel_builder host auth path data)) =
       Inr (Some (length (ws_request (tunnel_builder host auth path data)),
         \<lparr>hr_headers = tunnel_headers host auth data, hr_method = lit ''GET'', hr_path = path\<rparr>))"
    and "seg_ok ss" and "concat ss = ws_request (tunnel_builder host auth path data) @ rest"
  shows "\<exists>s. serve_websocket hp ss = ([], Inr s) \<and> st_data s = rest \<and> st_ok s \<and>
     st_init s = \<lparr>hr_headers = tunnel_headers host auth data, hr_method = lit ''GET'', hr_path = path\<rparr>"
proof -
  let ?w = "ws_request (tunnel_builder host auth path data)"
  have "?w \<noteq> []" by (simp add: ws_request_def builder_finalise_def)
  then have ne: "concat ss \<noteq> []" using assms(4) by (simp del: concat_eq_Nil_conv)
  have whole: "request_parser hp (concat ss) =
      Inr (Some (length ?w, \<lparr>hr_headers = tunnel_headers host auth data, hr_method = lit ''GET'', hr_path = path\<rparr>))"
    unfolding assms(4) by (rule stream_parser.stable[OF assms(1,2)])
  obtain s where s: "read_head (request_parser hp) (rwb_new (replicate 512 0)) ss = Inr s" "st_ok s" "st_data s = rest"
      "st_init s = \<lparr>hr_headers = tunnel_headers host auth data, hr_method = lit ''GET'', hr_path = path\<rparr>"
    using read_head_data[OF assms(1) live_512(1) assms(3) live_512(2) whole ne] assms(4) by auto
  then show ?thesis
    unfolding serve_websocket_def parse_request_def header_is_def get_header_text_def Let_def
    by (simp only: sum.case tunnel_header_values literal_texts http_request.select_convs option.case bind.simps
        not_True_eq_False if_False HOL.simp_thms) (simp add: lit_def)
qed

lemma new_strategies_ok: "strategy_ok (strategy_new_send t p tls)" "strategy_ok (strategy_new_receive t p)"
  by (simp_all add: strategy_ok_def strategy_new_send_def strategy_new_receive_def ISIZE_MAX_def)

lemma accept_client_accepts:
  assumes "serve_websocket hp ss = ([], Inr s)" and "st_init s = r"
    and "cipher_accept chacha dec (hr_path r) (get_header (hr_headers r) INITIAL_DATA_HEADER) = Inr (d, rc, wc)"
  shows "accept_client chacha dec hp ss = ([], Inr (d, s, rc, wc))"
proof -
  have "\<exists>x. check_request chacha dec (hr_path r) = Inr x"
    using assms(3) by (cases "check_request chacha dec (hr_path r)") (auto simp: cipher_accept_def)
  then show ?thesis using assms by (auto simp: accept_client_def)
qed

lemma negotiate_succeeds:
  assumes "stream_parser (response_parser hp)"
    and "response_parser hp respond_success = Inr (Some (length respond_success, \<lparr>hs_headers = hs, hs_status_code = 101\<rparr>))"
    and "seg_ok answer" and "concat answer = respond_success @ down"
  shows "\<exists>c. negotiate_websocket hp pcs b answer = (ws_request b, Some (Inr c)) \<and> st_data c = down \<and> st_ok c"
proof -
  have ne: "concat answer \<noteq> []" using assms(4) by (simp add: respond_success_def del: concat_eq_Nil_conv)
  have whole: "response_parser hp (concat answer) = Inr (Some (length respond_success, \<lparr>hs_headers = hs, hs_status_code = 101\<rparr>))"
    unfolding assms(4) by (rule stream_parser.stable[OF assms(1,2)])
  obtain c where "read_head (response_parser hp) (rwb_new (replicate 512 0)) answer = Inr c" "st_ok c" "st_data c = down"
      "st_init c = \<lparr>hs_headers = hs, hs_status_code = 101\<rparr>"
    using read_head_data[OF assms(1) live_512(1) assms(3) live_512(2) whole ne] assms(4) by auto
  then show ?thesis by (simp add: negotiate_websocket_def parse_response_def)
qed

section \<open>Properties\<close>

text \<open>
  C14: A tunnel opens: for every TCP or UDP request whose destination the format carries, a base64 library that decodes what it encoded and HTTP tokenizers that read
  back the two messages as they were written, the server obtains exactly the client's request,
  whatever the segmentation; once its upstream accepted, it answers so that the client takes the
  tunnel as open; and both ends are left at the first byte behind the messages, with the
  ciphers of the two directions as after the exchange of the parameters.
\<close>

theorem tcpman_tunnel_opens:
  assumes "base64_ok enc dec" and "length key = 32" and "length iv = 12"
    and "wire_addr_strict dst" and "q = ReqTCP dst d \<or> q = ReqUDP dst d" and "request_to_vec q = Inr bs"
    and "cipher_connect chacha enc key iv (strategy_new_send True (get_port dst) ssl) (strategy_new_receive True (get_port dst)) bs =
      Inr (path, data, rc, wc)"
    and "req = ws_request (tunnel_builder (get_host server) auth path data)"
    and "stream_parser (request_parser hp)" and "stream_parser (response_parser hp')"
    and "r = \<lparr>hr_headers = tunnel_headers (get_host server) auth data, hr_method = lit ''GET'', hr_path = path\<rparr>"
    and "request_parser hp (request_to_writer r) = Inr (Some (length (request_to_writer r), r))"
    and "response_parser hp' respond_success = Inr (Some (length respond_success, \<lparr>hs_headers = hs, hs_status_code = 101\<rparr>))"
    and "seg_ok ss" and "concat ss = req @ up" and "upstream q = Inr u"
    and "seg_ok answer" and "concat answer = respond_success @ down"
  shows "\<exists>s src swc c.
     serve_client chacha dec hp show upstream ss = (respond_success, Inr (q, u, cipher_stream_new src swc, s)) \<and> st_data s = up \<and>
     cipher_accept chacha dec path (Some data) = Inr (Some bs, src, swc) \<and>
     tcpman_send_request chacha enc hp' pcs key iv server ssl auth dst q answer = (req, Some (Inr (cipher_stream_new rc wc, c))) \<and>
     st_data c = down"
proof -
  have rp: "request_parse bs = Inr q" using request_bytes[OF assms(4,5)] assms(6) by auto
  obtain src swc where acc: "cipher_accept chacha dec path (Some data) = Inr (Some bs, src, swc)"
    using handshake_state[OF assms(1-3) new_strategies_ok(1)[of True "get_port dst" ssl] new_strategies_ok(2)[of True "get_port dst"],
        of chacha bs] assms(7)
    by (metis Pair_inject sum.inject(2))
  let ?r = "\<lparr>hr_headers = tunnel_headers (get_host server) auth data, hr_method = lit ''GET'', hr_path = path\<rparr>"
  obtain s where s: "serve_websocket hp ss = ([], Inr s)" "st_data s = up" "st_init s = ?r"
    using serve_websocket_accepts[OF assms(9) _ assms(14), of "get_host server" auth path data up] assms(8,11,12,15)
    by (auto simp: ws_request_to_writer)
  have "accept_client chacha dec hp ss = ([], Inr (Some bs, s, src, swc))"
    by (rule accept_client_accepts[OF s(1,3)]) (simp add: tunnel_header_values acc)
  then have srv: "serve_client chacha dec hp show upstream ss = (respond_success, Inr (q, u, cipher_stream_new src swc, s))"
    using rp assms(16) by (simp add: serve_client_def)
  obtain c where c: "negotiate_websocket hp' pcs (tunnel_builder (get_host server) auth path data) answer = (req, Some (Inr c))"
      "st_data c = down"
    using negotiate_succeeds[OF assms(10,13,17,18), of pcs] assms(8) by blast
  have "tcpman_send_request chacha enc hp' pcs key iv server ssl auth dst q answer = (req, Some (Inr (cipher_stream_new rc wc, c)))"
    using assms(6,7) c(1) by (simp add: tcpman_send_request_def tunnel_connect_def)
  then show ?thesis using srv s(2) acc c(2) by blast
qed

theorem tcpman_tunnel_opens_witness:
  "\<exists>hp hp' path data rc wc s src swc c.
     serve_client (\<lambda>k v i. of_nat i) demo_dec hp (\<lambda>_. []) (\<lambda>_. Inr ())
       [ws_request (tunnel_builder (lit ''h'') None path data), [5, 6]] =
       (respond_success, Inr (ReqTCP (IP (SockV4 1 80)) [1, 2, 3], (), cipher_stream_new src swc, s)) \<and> st_data s = [5, 6] \<and>
     tcpman_send_request (\<lambda>k v i. of_nat i) demo_enc hp' (\<lambda>_. Inr None) (replicate 32 7) (replicate 12 9) (Name (lit ''h'') 443) True None
       (IP (SockV4 1 80)) (ReqTCP (IP (SockV4 1 80)) [1, 2, 3]) [respond_success, [7]] =
       (ws_request (tunnel_builder (lit ''h'') None path data), Some (Inr (cipher_stream_new rc wc, c))) \<and> st_data c = [7]"
proof -
  let ?q = "ReqTCP (IP (SockV4 1 80)) [1, 2, 3]" and ?k = "\<lambda>k v i. of_nat i :: u8"
  let ?snd = "strategy_new_send True 80 True" and ?rcv = "strategy_new_receive True 80"
  have wf: "wire_addr_strict (IP (SockV4 1 80))" by simp
  obtain bs where bs: "request_to_vec ?q = Inr bs" using request_bytes[OF wf] by blast
  obtain path data rc wc where
    c: "cipher_connect ?k demo_enc (replicate 32 7) (replicate 12 9) ?snd ?rcv bs = Inr (path, data, rc, wc)"
    using handshake_state[OF demo_base64 _ _ new_strategies_ok(1)[of True 80 True] new_strategies_ok(2)[of True 80],
        of "replicate 32 7" "replicate 12 9" ?k bs] by (metis length_replicate)
  let ?w = "ws_request (tunnel_builder (lit ''h'') None path data)"
  have "?w \<noteq> []" "respond_success \<noteq> []" by (simp_all add: ws_request_def builder_finalise_def respond_success_def)
  then have seg: "seg_ok [?w, [5, 6]]" "seg_ok [respond_success, [7]]" by (simp_all add: seg_ok_def)
  let ?hp = "knows ?w ((Some (lit ''GET''), Some path), tunnel_headers (lit ''h'') None data)"
  let ?hp' = "knows respond_success (Some 101, [])"
  let ?r = "\<lparr>hr_headers = tunnel_headers (lit ''h'') None data, hr_method = lit ''GET'', hr_path = path\<rparr>"
  have "request_parser ?hp (request_to_writer ?r) = Inr (Some (length (request_to_writer ?r), ?r))"
    unfolding ws_request_to_writer[symmetric] by (simp add: request_parser_def knows_def)
  moreover have "response_parser ?hp' respond_success =
      Inr (Some (length respond_success, \<lparr>hs_headers = [], hs_status_code = 101\<rparr>))"
    by (simp add: response_parser_def knows_def)
  ultimately show ?thesis
    using tcpman_tunnel_opens[OF demo_base64 _ _ wf _ bs, of "replicate 32 7" "replicate 12 9" "[1, 2, 3]" ?k True path data rc wc ?w
        "Name (lit ''h'') 443" None ?hp ?hp' ?r "[]" "[?w, [5, 6]]" "[5, 6]" "\<lambda>_. Inr ()" "()" "[respond_success, [7]]" "[7]" "\<lambda>_. []" "\<lambda>_. Inr None"]
      c knows_parser seg by fastforce
qed

end
