(* ===== verification/Tunnel_Relay.thy ===== *)
theory Tunnel_Relay
  imports Relay Tcpman
begin

text \<open>
  A connection that is carried by the encrypted tunnel, as one system: the client's relay between the application
  and its end of the tunnel (src/client/tcp.rs, \<open>copy_duplex\<close> of src/utils.rs), the two ends
  (src/protocol/tcpman/cipher/stream.rs), the bytes on their way between them, and the server's relay between the tunnel
  and the destination (src/protocol/tcpman/server/handler.rs). The network decides when each read, write and flush
  makes progress and how far; every sequence of such events is a run.
\<close>

section \<open>A copy task at an end of the tunnel\<close>

type_synonym tunnel_end = "(tunnel_cipher, tunnel_cipher) cipher_stream"

text \<open>
  The task that writes into the tunnel: its next \<open>poll_write\<close> on the encrypting stream, with the outcome of the write
  below, which takes no more than it is offered. The outcomes for the task, the bytes that went out,
  and the stream afterwards.
\<close>

definition write_offer :: "tunnel_end \<Rightarrow> bytes \<Rightarrow> nat" where
  "write_offer t buf = (if cs_modifies tunnel_will_modify t then desired_write_len t buf else length buf)"

definition tunnel_send :: "(nat \<Rightarrow> u8) \<Rightarrow> nat res poll \<Rightarrow> copier \<Rightarrow> tunnel_end \<Rightarrow> (io_outcome list \<times> bytes \<times> tunnel_end) res" where
  "tunnel_send ks io c t =
     (case cp_phase c of
        Writing d \<Rightarrow>
          and_then (cs_poll_write (tunnel_apply ks) tunnel_rewind tunnel_will_modify t d
              (case io of Ready (Inr k) \<Rightarrow> Ready (Inr (min k (write_offer t d))) | _ \<Rightarrow> io)) (\<lambda>(r, out, t').
            Inr (case r of Pending \<Rightarrow> [] | Ready w \<Rightarrow> [WriteOut w], out, t'))
      | _ \<Rightarrow> Inr ([], [], t))"

text \<open>
  The task that reads from the tunnel: up to \<open>n\<close> bytes of those on their way; the end of the stream when the other side has
  ended and nothing is left; otherwise it waits.
\<close>

definition tunnel_recv ::
  "(nat \<Rightarrow> u8) \<Rightarrow> nat res poll \<Rightarrow> bool \<Rightarrow> copier \<Rightarrow> tunnel_end \<Rightarrow> bytes \<Rightarrow> io_outcome list \<times> bytes \<times> tunnel_end" where
  "tunnel_recv ks io ended c t wire =
     (if cp_phase c \<noteq> Reading then ([], wire, t)
      else case io of
             Pending \<Rightarrow> ([], wire, t)
           | Ready (Inl e) \<Rightarrow> ([ReadOut (Inl e)], wire, t)
           | Ready (Inr n) \<Rightarrow>
               if wire = [] \<and> \<not> ended then ([], wire, t)
               else (case cs_poll_read (tunnel_apply ks) tunnel_will_modify t (Ready (Inr (take (Suc n) wire))) of
                  (Ready r, t') \<Rightarrow> ([ReadOut r], drop (Suc n) wire, t')
                | (Pending, t') \<Rightarrow> ([], drop (Suc n) wire, t')))"

section \<open>The system\<close>

record tunnel_sys =
  ty_client :: duplex
  ty_server :: duplex
  ty_cs :: tunnel_end
  ty_ss :: tunnel_end
  ty_up :: bytes
  ty_down :: bytes

definition tunnel_new :: "tunnel_end \<Rightarrow> tunnel_end \<Rightarrow> (counter_ref \<times> counter_ref) option \<Rightarrow> counters \<Rightarrow> counters \<Rightarrow> tunnel_sys" where
  "tunnel_new cs ss stats h h' =
     \<lparr>ty_client = copy_duplex None None stats h, ty_server = copy_duplex None None None h',
      ty_cs = cs, ty_ss = ss, ty_up = [], ty_down = []\<rparr>"

datatype tunnel_event =
    AppRead "bytes res" | AppWrite "nat res" | AppFlush "unit res"
  | ClientSend "nat res poll" | ClientRecv "nat res poll" | ClientFlush "unit res"
  | ServerSend "nat res poll" | ServerRecv "nat res poll" | ServerFlush "unit res"
  | DstRead "bytes res" | DstWrite "nat res" | DstFlush "unit res"

definition relay_over :: "duplex \<Rightarrow> bool" where
  "relay_over d \<longleftrightarrow> dx_result d \<noteq> None"

fun tunnel_step :: "(nat \<Rightarrow> u8) \<Rightarrow> tunnel_event \<Rightarrow> tunnel_sys \<Rightarrow> tunnel_sys res" where
  "tunnel_step ks (AppRead r) s = Inr (s\<lparr>ty_client := duplex_poll [ReadOut r] [] (ty_client s)\<rparr>)"
| "tunnel_step ks (AppWrite r) s = Inr (s\<lparr>ty_client := duplex_poll [] [WriteOut r] (ty_client s)\<rparr>)"
| "tunnel_step ks (AppFlush r) s = Inr (s\<lparr>ty_client := duplex_poll [] [FlushOut r] (ty_client s)\<rparr>)"
| "tunnel_step ks (ClientSend io) s =
     (if relay_over (ty_client s) then Inr s
      else and_then (tunnel_send ks io (dx_up (ty_client s)) (ty_cs s)) (\<lambda>(outs, out, t).
        Inr (s\<lparr>ty_client := duplex_poll outs [] (ty_client s), ty_cs := t, ty_up := ty_up s @ out\<rparr>)))"
| "tunnel_step ks (ClientRecv io) s =
     (if relay_over (ty_client s) then Inr s
      else case tunnel_recv ks io (relay_over (ty_server s)) (dx_down (ty_client s)) (ty_cs s) (ty_down s) of (outs, wire, t) \<Rightarrow>
        Inr (s\<lparr>ty_client := duplex_poll [] outs (ty_client s), ty_cs := t, ty_down := wire\<rparr>))"
| "tunnel_step ks (ClientFlush r) s = Inr (s\<lparr>ty_client := duplex_poll [FlushOut r] [] (ty_client s)\<rparr>)"
| "tunnel_step ks (ServerSend io) s =
     (if relay_over (ty_server s) then Inr s
      else and_then (tunnel_send ks io (dx_down (ty_server s)) (ty_ss s)) (\<lambda>(outs, out, t).
        Inr (s\<lparr>ty_server := duplex_poll [] outs (ty_server s), ty_ss := t, ty_down := ty_down s @ out\<rparr>)))"
| "tunnel_step ks (ServerRecv io) s =
     (if relay_over (ty_server s) then Inr s
      else case tunnel_recv ks io (relay_over (ty_client s)) (dx_up (ty_server s)) (ty_ss s) (ty_up s) of (outs, wire, t) \<Rightarrow>
        Inr (s\<lparr>ty_server := duplex_poll outs [] (ty_server s), ty_ss := t, ty_up := wire\<rparr>))"
| "tunnel_step ks (ServerFlush r) s = Inr (s\<lparr>ty_server := duplex_poll [] [FlushOut r] (ty_server s)\<rparr>)"
| "tunnel_step ks (DstRead r) s = Inr (s\<lparr>ty_server := duplex_poll [] [ReadOut r] (ty_server s)\<rparr>)"
| "tunnel_step ks (DstWrite r) s = Inr (s\<lparr>ty_server := duplex_poll [WriteOut r] [] (ty_server s)\<rparr>)"
| "tunnel_step ks (DstFlush r) s = Inr (s\<lparr>ty_server := duplex_poll [FlushOut r] [] (ty_server s)\<rparr>)"

fun tunnel_run :: "(nat \<Rightarrow> u8) \<Rightarrow> tunnel_event list \<Rightarrow> tunnel_sys \<Rightarrow> tunnel_sys res" where
  "tunnel_run ks [] s = Inr s"
| "tunnel_run ks (e # es) s = and_then (tunnel_step ks e s) (tunnel_run ks es)"

section \<open>One direction\<close>

text \<open>
  The bytes between the writing task \<open>src\<close> and the reading task \<open>dst\<close>: what the reader has got is a prefix of what the writer has
  handed over, the difference is on the wire, masked at its position, and both ciphers stand where the
  other one needs them. The cipher of a task that has ended does not matter any more.
\<close>

definition running :: "copier \<Rightarrow> bool" where
  "running c = (case cp_phase c of Finished _ \<Rightarrow> False | _ \<Rightarrow> True)"

definition pipe_ok :: "encryption_strategy \<Rightarrow> (nat \<Rightarrow> u8) \<Rightarrow> nat \<Rightarrow> copier \<Rightarrow> tunnel_end \<Rightarrow> bytes \<Rightarrow> tunnel_end \<Rightarrow> copier \<Rightarrow> bool" where
  "pipe_ok st ks p src w wire r dst \<longleftrightarrow>
     copier_ok src \<and> copier_ok dst \<and>
     (running src \<longrightarrow> tunnel.wr_at st ks w (p + length (cp_written src))) \<and>
     tunnel.rd_at st ks r (p + length (cp_read dst)) \<and>
     (\<exists>flying. cp_written src = cp_read dst @ flying \<and> wire = xor_at (strategy_mask st ks) (p + length (cp_read dst)) flying)"

lemma running_next: "running (copier_next x c) \<Longrightarrow> running c"
  using copier_finished[of c _ "[x]"] by (cases "cp_phase c") (auto simp: running_def)

lemma kept_written: "(\<And>r. x \<noteq> WriteOut r) \<Longrightarrow> cp_written (copier_next x c) = cp_written c"
  by (cases x) (auto split: copy_phase.split sum.split)

lemma kept_read: "(\<And>r. x \<noteq> ReadOut r) \<Longrightarrow> cp_read (copier_next x c) = cp_read c"
  by (cases x) (auto split: copy_phase.split sum.split)

lemma pipe_src:
  "pipe_ok st ks p src w wire r dst \<Longrightarrow> (\<And>v. x \<noteq> WriteOut v) \<Longrightarrow> pipe_ok st ks p (copier_next x src) w wire r dst"
  using running_next[of x src] kept_written[of x src] copier_next_ok[of src x] by (simp add: pipe_ok_def)

lemma pipe_dst:
  "pipe_ok st ks p src w wire r dst \<Longrightarrow> (\<And>v. x \<noteq> ReadOut v) \<Longrightarrow> pipe_ok st ks p src w wire r (copier_next x dst)"
  using kept_read[of x dst] copier_next_ok[of dst x] by (simp add: pipe_ok_def)

text \<open>Only the cipher of its own direction matters at either end.\<close>

lemma pipe_cong:
  assumes "wr_cipher w' = wr_cipher w" and "rd_cipher r' = rd_cipher r"
  shows "pipe_ok st ks p src w' wire r' dst = pipe_ok st ks p src w wire r dst"
  using assms by (simp add: pipe_ok_def tunnel.wr_at_def tunnel.rd_at_def)

lemma write_keeps_rd: "cs_poll_write ap rw wm t buf io = Inr (r, out, t') \<Longrightarrow> rd_cipher t' = rd_cipher t"
  by (auto simp: cs_poll_write_def Let_def split_beta and_then_Inr_conv split: if_splits poll.splits sum.splits)

lemma read_keeps_wr: "wr_cipher (snd (cs_poll_read ap wm t io)) = wr_cipher t"
  by (auto simp: cs_poll_read_def Let_def split_beta split: poll.split sum.split option.split)

lemma write_offer_le: "write_offer t d \<le> length d"
  by (simp add: write_offer_def desired_write_len_def)

text \<open>A write into the tunnel: it does not panic, and what it reports as taken is on the wire.\<close>

lemma pipe_taken:
  assumes ok: "pipe_ok st ks p src w wire r dst" and ph: "cp_phase src = Writing d" and k: "k \<le> write_offer w d"
  shows "\<exists>out w'. cs_poll_write (tunnel_apply ks) tunnel_rewind tunnel_will_modify w d (Ready (Inr k)) = Inr (Ready (Inr k), out, w') \<and>
     pipe_ok st ks p (copier_next (WriteOut (Inr k)) src) w' (wire @ out) r dst"
proof -
  let ?q = "p + length (cp_written src)" and ?src = "copier_next (WriteOut (Inr k)) src"
  have at: "tunnel.wr_at st ks w ?q" using ok ph by (simp add: pipe_ok_def running_def)
  obtain w' where w': "cs_poll_write (tunnel_apply ks) tunnel_rewind tunnel_will_modify w d (Ready (Inr k)) =
      Inr (Ready (Inr k), xor_at (strategy_mask st ks) ?q (take k d), w')" "tunnel.wr_at st ks w' (?q + k)"
    using tunnel.cs_poll_write_taken[OF at, of k d] k by (auto simp: write_offer_def)
  have len: "k \<le> length d" using k write_offer_le[of w d] by simp
  have wr: "cp_written ?src = cp_written src @ take k d" using ph by simp
  obtain flying where f: "cp_written src = cp_read dst @ flying"
      "wire = xor_at (strategy_mask st ks) (p + length (cp_read dst)) flying" using ok by (auto simp: pipe_ok_def)
  have "wire @ xor_at (strategy_mask st ks) ?q (take k d) =
      xor_at (strategy_mask st ks) (p + length (cp_read dst)) (flying @ take k d)"
    using f by (simp add: xor_at_append ac_simps)
  moreover have "cp_written ?src = cp_read dst @ flying @ take k d" using wr f(1) by simp
  moreover have "?q + k = p + length (cp_written ?src)" using wr len by simp
  ultimately have "pipe_ok st ks p ?src w' (wire @ xor_at (strategy_mask st ks) ?q (take k d)) r dst"
    using ok w'(2) copier_next_ok[of src "WriteOut (Inr k)"] unfolding pipe_ok_def by (metis (no_types))
  then show ?thesis using w'(1) by blast
qed

lemma pipe_send:
  assumes ok: "pipe_ok st ks p src w wire r dst"
  shows "\<exists>outs out w'. tunnel_send ks io src w = Inr (outs, out, w') \<and> rd_cipher w' = rd_cipher w \<and>
     pipe_ok st ks p (fold copier_next outs src) w' (wire @ out) r dst"
proof (cases "\<exists>d. cp_phase src = Writing d")
  case False
  then have "tunnel_send ks io src w = Inr ([], [], w)" by (cases "cp_phase src") (auto simp: tunnel_send_def)
  then show ?thesis using ok by simp
next
  case True
  then obtain d where ph: "cp_phase src = Writing d" by blast
  show ?thesis
  proof (cases io)
    case Pending
    have "tunnel.wr_at st ks w (p + length (cp_written src))" using ok ph by (simp add: pipe_ok_def running_def)
    then obtain w' where w': "cs_poll_write (tunnel_apply ks) tunnel_rewind tunnel_will_modify w d Pending = Inr (Pending, [], w')"
        "tunnel.wr_at st ks w' (p + length (cp_written src))"
      using tunnel.cs_poll_write_pending by blast
    then show ?thesis using ok ph Pending write_keeps_rd[OF w'(1)] by (simp add: tunnel_send_def pipe_ok_def)
  next
    case (Ready v)
    show ?thesis
    proof (cases v)
      case (Inl e)
      have "\<exists>w'. cs_poll_write (tunnel_apply ks) tunnel_rewind tunnel_will_modify w d (Ready (Inl e)) = Inr (Ready (Inl e), [], w')"
        by (cases "cs_modifies tunnel_will_modify w") (simp_all add: cs_poll_write_def Let_def split_beta)
      then obtain w' where w': "cs_poll_write (tunnel_apply ks) tunnel_rewind tunnel_will_modify w d (Ready (Inl e)) = Inr (Ready (Inl e), [], w')"
        by blast
      have "pipe_ok st ks p (copier_next (WriteOut (Inl e)) src) w' wire r dst"
        using ok ph copier_next_ok[of src "WriteOut (Inl e)"] by (simp add: pipe_ok_def running_def)
      then show ?thesis using ph Ready Inl w' write_keeps_rd[OF w'] by (simp add: tunnel_send_def)
    next
      case (Inr k)
      then show ?thesis
        using pipe_taken[OF ok ph, of "min k (write_offer w d)"] Ready ph write_keeps_rd
        by (fastforce simp: tunnel_send_def)
    qed
  qed
qed

text \<open>A read from the tunnel: the next bytes on the wire, unmasked.\<close>

lemma pipe_recv:
  assumes ok: "pipe_ok st ks p src w wire r dst" and "tunnel_recv ks io ended dst r wire = (outs, wire', r')"
  shows "wr_cipher r' = wr_cipher r \<and> pipe_ok st ks p src w wire' r' (fold copier_next outs dst)"
proof (cases "outs = []")
  case True
  then have "wire' = wire \<and> r' = r"
    using assms(2) by (auto simp: tunnel_recv_def cs_poll_read_def Let_def split_beta
        split: if_splits poll.splits sum.splits option.splits)
  then show ?thesis using ok True by simp
next
  case False
  then have ph: "cp_phase dst = Reading" using assms(2) by (auto simp: tunnel_recv_def split: if_splits)
  show ?thesis
  proof (cases "\<exists>n. io = Ready (Inr n)")
    case False
    then obtain e where "outs = [ReadOut (Inl e)]" "wire' = wire" "r' = r"
      using assms(2) \<open>outs \<noteq> []\<close> by (auto simp: tunnel_recv_def split: if_splits poll.splits sum.splits)
    then show ?thesis using ok ph copier_next_ok[of dst "ReadOut (Inl e)"] by (simp add: pipe_ok_def)
  next
    case True
    then obtain n where n: "io = Ready (Inr n)" by blast
    let ?M = "strategy_mask st ks" and ?q = "p + length (cp_read dst)" and ?seg = "take (Suc n) wire"
    obtain flying where f: "cp_written src = cp_read dst @ flying" "wire = xor_at ?M ?q flying"
      using ok by (auto simp: pipe_ok_def)
    obtain t where t: "cs_poll_read (tunnel_apply ks) tunnel_will_modify r (Ready (Inr ?seg)) = (Ready (Inr (xor_at ?M ?q ?seg)), t)"
        "tunnel.rd_at st ks t (?q + length ?seg)"
      using tunnel.cs_poll_read_data[of st ks r ?q ?seg] ok by (auto simp: pipe_ok_def)
    have d: "xor_at ?M ?q ?seg = take (Suc n) flying" using f(2) by (simp add: take_xor_at)
    have o: "outs = [ReadOut (Inr (take (Suc n) flying))]" "wire' = drop (Suc n) wire" "r' = t"
      using assms(2) n t(1) d False ph by (auto simp: tunnel_recv_def split: if_splits)
    let ?dst = "copier_next (ReadOut (Inr (take (Suc n) flying))) dst"
    have rd: "cp_read ?dst = cp_read dst @ take (Suc n) flying" using ph by simp
    have "length ?seg = length (take (Suc n) flying)" using f(2) by simp
    then have "?q + length ?seg = p + length (cp_read ?dst)" using rd by simp
    moreover have "cp_written src = cp_read ?dst @ drop (Suc n) flying" using f(1) rd by simp
    moreover have "drop (Suc n) wire = xor_at ?M (p + length (cp_read ?dst)) (drop (Suc n) flying)"
      using f(2) rd by (cases "Suc n \<le> length flying") (simp_all add: drop_xor_at ac_simps)
    ultimately have "pipe_ok st ks p src w wire' r' ?dst"
      using ok t(2) o copier_next_ok[of dst "ReadOut (Inr (take (Suc n) flying))"] unfolding pipe_ok_def by (metis (no_types))
    then show ?thesis using o(1,3) read_keeps_wr[of "tunnel_apply ks" tunnel_will_modify r "Ready (Inr ?seg)"] t(1) by simp
  qed
qed

section \<open>Both directions\<close>

definition tunnel_ok :: "encryption_strategy \<Rightarrow> encryption_strategy \<Rightarrow> (nat \<Rightarrow> u8) \<Rightarrow> nat \<Rightarrow> tunnel_sys \<Rightarrow> bool" where
  "tunnel_ok send recv ks p s \<longleftrightarrow>
     pipe_ok send ks p (dx_up (ty_client s)) (ty_cs s) (ty_up s) (ty_ss s) (dx_up (ty_server s)) \<and>
     pipe_ok recv ks 0 (dx_down (ty_server s)) (ty_ss s) (ty_down s) (ty_cs s) (dx_down (ty_client s))"

lemma poll_up: "dx_up (duplex_poll xs [] d) = (if relay_over d then dx_up d else fold copier_next xs (dx_up d))"
  and poll_up_down: "dx_down (duplex_poll xs [] d) = dx_down d"
  and poll_down: "dx_down (duplex_poll [] ys d) = (if relay_over d then dx_down d else fold copier_next ys (dx_down d))"
  and poll_down_up: "dx_up (duplex_poll [] ys d) = dx_up d"
  using duplex_poll_tasks[of d xs "[]"] duplex_poll_tasks[of d "[]" ys]
  by (cases "dx_result d"; simp add: relay_over_def duplex_poll_def)+

lemmas poll_simps = poll_up poll_up_down poll_down poll_down_up

lemma tunnel_step_ok:
  assumes "tunnel_ok send recv ks p s"
  shows "\<exists>s'. tunnel_step ks e s = Inr s' \<and> tunnel_ok send recv ks p s'"
proof (cases e)
  case (ClientSend io)
  obtain outs out w' where "tunnel_send ks io (dx_up (ty_client s)) (ty_cs s) = Inr (outs, out, w')" "rd_cipher w' = rd_cipher (ty_cs s)"
      "pipe_ok send ks p (fold copier_next outs (dx_up (ty_client s))) w' (ty_up s @ out) (ty_ss s) (dx_up (ty_server s))"
    using pipe_send assms unfolding tunnel_ok_def by blast
  then show ?thesis using ClientSend assms pipe_cong[of "ty_ss s" "ty_ss s" w' "ty_cs s"] by (simp add: tunnel_ok_def poll_simps)
next
  case (ServerSend io)
  obtain outs out w' where "tunnel_send ks io (dx_down (ty_server s)) (ty_ss s) = Inr (outs, out, w')" "rd_cipher w' = rd_cipher (ty_ss s)"
      "pipe_ok recv ks 0 (fold copier_next outs (dx_down (ty_server s))) w' (ty_down s @ out) (ty_cs s) (dx_down (ty_client s))"
    using pipe_send assms unfolding tunnel_ok_def by blast
  then show ?thesis using ServerSend assms pipe_cong[of "ty_cs s" "ty_cs s" w' "ty_ss s"] by (simp add: tunnel_ok_def poll_simps)
next
  case (ClientRecv io)
  obtain outs wire r' where "tunnel_recv ks io (relay_over (ty_server s)) (dx_down (ty_client s)) (ty_cs s) (ty_down s) = (outs, wire, r')"
    by (metis prod_cases3)
  then show ?thesis
    using ClientRecv assms pipe_recv[of recv ks 0 "dx_down (ty_server s)" "ty_ss s" "ty_down s" "ty_cs s" "dx_down (ty_client s)"]
      pipe_cong[of r' "ty_cs s" "ty_ss s" "ty_ss s"] by (auto simp: tunnel_ok_def poll_simps)
next
  case (ServerRecv io)
  obtain outs wire r' where "tunnel_recv ks io (relay_over (ty_client s)) (dx_up (ty_server s)) (ty_ss s) (ty_up s) = (outs, wire, r')"
    by (metis prod_cases3)
  then show ?thesis
    using ServerRecv assms pipe_recv[of send ks p "dx_up (ty_client s)" "ty_cs s" "ty_up s" "ty_ss s" "dx_up (ty_server s)"]
      pipe_cong[of r' "ty_ss s" "ty_cs s" "ty_cs s"] by (auto simp: tunnel_ok_def poll_simps)
qed (use assms pipe_src pipe_dst in \<open>simp_all add: tunnel_ok_def poll_simps del: copier_next.simps\<close>)

lemma tunnel_run_ok:
  "tunnel_ok send recv ks p s \<Longrightarrow> \<exists>s'. tunnel_run ks es s = Inr s' \<and> tunnel_ok send recv ks p s'"
proof (induction es arbitrary: s)
  case (Cons e es)
  then show ?case using tunnel_step_ok[OF Cons.prems, of e] by auto
qed simp

text \<open>
  Nothing of a direction is under way any more: its tasks have nothing left to write and did not fail, and the wire is empty.
\<close>

definition settled :: "copier \<Rightarrow> bool" where
  "settled c = (case cp_phase c of Writing _ \<Rightarrow> False | Finished (Inl _) \<Rightarrow> False | _ \<Rightarrow> True)"

lemma settled_all: "copier_ok c \<Longrightarrow> settled c \<Longrightarrow> cp_written c = cp_read c"
  by (cases "cp_phase c") (auto simp: copier_ok_def settled_def split: sum.splits)

lemma written_prefix: "copier_ok c \<Longrightarrow> prefix (cp_written c) (cp_read c)"
  by (cases "cp_phase c") (auto simp: copier_ok_def split: sum.splits)

lemma pipe_delivers:
  assumes "pipe_ok st ks p src w wire r dst"
  shows "prefix (cp_written dst) (cp_read src) \<and>
     (settled src \<and> wire = [] \<and> settled dst \<longrightarrow> cp_written dst = cp_read src)"
proof -
  obtain f where f: "cp_written src = cp_read dst @ f" "wire = xor_at (strategy_mask st ks) (p + length (cp_read dst)) f"
    using assms by (auto simp: pipe_ok_def)
  have ok: "copier_ok src" "copier_ok dst" using assms by (simp_all add: pipe_ok_def)
  have "prefix (cp_read dst) (cp_written src)" using f(1) by (simp add: prefixI)
  then have "prefix (cp_written dst) (cp_read src)"
    using written_prefix[OF ok(1)] written_prefix[OF ok(2)] by (meson prefix_order.trans)
  moreover have "wire = [] \<Longrightarrow> f = []" using f(2) by (metis length_0_conv length_xor_at)
  ultimately show ?thesis using f(1) settled_all ok by auto
qed

section \<open>Properties\<close>


text \<open>A run: two bytes cross the tunnel in two writes, the first of them after a pending one.\<close>

definition demo_events :: "tunnel_event list" where
  "demo_events = [AppRead (Inr [42, 43]), ClientSend Pending, ClientSend (Ready (Inr 1)), ServerRecv (Ready (Inr 9)), DstWrite (Inr 1),
     ClientSend (Ready (Inr 9)), ServerRecv (Ready (Inr 9)), DstWrite (Inr 1)]"

definition demo_stream :: "bytes \<Rightarrow> bytes \<Rightarrow> nat \<Rightarrow> u8" where
  "demo_stream k v i = of_nat i + 1"

definition demo_session :: "tunnel_sys res" where
  "demo_session = tunnel_run (demo_stream (replicate 32 7) (replicate 12 9)) demo_events
     (tunnel_new (cipher_stream_new SNever (SAlways \<lparr>pos = 3\<rparr>)) (cipher_stream_new (SAlways \<lparr>pos = 3\<rparr>) SNever) None demo_counters demo_counters)"

lemma demo_session_ends:
  "(case demo_session of Inl _ \<Rightarrow> False
    | Inr s \<Rightarrow> settled (dx_up (ty_client s)) \<and> ty_up s = [] \<and> settled (dx_up (ty_server s)) \<and> cp_read (dx_up (ty_client s)) = [42, 43])"
  by code_simp


end
