(* ===== verification/Controller.thy ===== *)
theory Controller
  imports Upstreams Http
begin

text \<open>
  The controller (src/controller.rs): it owns the configuration and the statistics, changes them
  on requests of its HTTP interface, writes the configuration file and announces every change to
  the running client (src/broadcast.rs is the receiving end). Serialisers, the embedded web
  assets, the filter list engines and the outcomes of file operations are parameters.
\<close>

section \<open>State\<close>

text \<open>
  \<open>ctl_broadcast\<close> lists what was sent to the client so far. \<open>ctl_file\<close> is the content of the
  configuration file.
\<close>

record controller =
  ctl_config :: client_config
  ctl_stats :: client_statistics
  ctl_counters :: counters
  ctl_file :: "bytes option"
  ctl_broadcast :: "(client_config \<times> client_statistics) list"

record upstream_update =
  uu_old_name :: "rstr option"
  uu_name :: rstr
  uu_config :: upstream_config

datatype error_response = Generic fault | NotFound rstr | InvalidRequest fault

type_synonym 'a http_result = "error_response + 'a"

text \<open>The outcomes of creating, writing and flushing the file; a write or flush that fails leaves a part of the text.\<close>

record file_io =
  fio_create :: "unit res"
  fio_write :: "unit res"
  fio_written :: nat
  fio_flush :: "unit res"

text \<open>Insertion and removal in the hash map of upstreams.\<close>

definition hm_remove :: "rstr \<Rightarrow> (rstr \<times> 'v) list \<Rightarrow> (rstr \<times> 'v) list" where
  "hm_remove n us = filter (\<lambda>(m, _). m \<noteq> n) us"

definition hm_insert :: "rstr \<Rightarrow> 'v \<Rightarrow> (rstr \<times> 'v) list \<Rightarrow> (rstr \<times> 'v) list" where
  "hm_insert n v us = (n, v) # hm_remove n us"

section \<open>Changing the configuration\<close>

definition set_current_config ::
  "(client_config \<Rightarrow> bytes res) \<Rightarrow> file_io \<Rightarrow> client_config \<Rightarrow> client_statistics \<Rightarrow> controller \<Rightarrow>
   unit http_result \<times> controller" where
  "set_current_config yaml io c s ctl =
     (case yaml c of
        Inl e \<Rightarrow> (Inl (Generic e), ctl)
      | Inr text \<Rightarrow>
          (case fio_create io of
             Inl e \<Rightarrow> (Inl (Generic e), ctl)
           | Inr _ \<Rightarrow>
               (case fio_write io of
                  Inl e \<Rightarrow> (Inl (Generic e), ctl\<lparr>ctl_file := Some (take (fio_written io) text)\<rparr>)
                | Inr _ \<Rightarrow>
                    (case fio_flush io of
                       Inl e \<Rightarrow> (Inl (Generic e), ctl\<lparr>ctl_file := Some (take (fio_written io) text)\<rparr>)
                     | Inr _ \<Rightarrow>
                         (Inr (), ctl\<lparr>ctl_file := Some text, ctl_config := c, ctl_stats := s,
                            ctl_broadcast := ctl_broadcast ctl @ [(c, s)]\<rparr>)))))"

definition set_config ::
  "(client_config \<Rightarrow> bytes res) \<Rightarrow> file_io \<Rightarrow> client_config \<Rightarrow> bool \<Rightarrow> controller \<Rightarrow> unit http_result \<times> controller" where
  "set_config yaml io c replace_upstreams ctl =
     (let c = (if \<not> replace_upstreams then c\<lparr>cc_upstreams := cc_upstreams (ctl_config ctl)\<rparr> else c)
      in set_current_config yaml io c (ctl_stats ctl) ctl)"

text \<open>One turn of the loop of \<open>update_upstreams\<close> on the configuration, the statistics and the counters.\<close>

definition apply_update ::
  "upstream_update \<Rightarrow> client_config \<times> client_statistics \<times> counters \<Rightarrow> client_config \<times> client_statistics \<times> counters" where
  "apply_update u = (\<lambda>(cfg, st, h).
     let us = cc_upstreams cfg;
         (us1, st1, reused) =
           (case uu_old_name u of
              None \<Rightarrow> (us, st, None)
            | Some old \<Rightarrow>
                (case map_of us old of
                   Some up \<Rightarrow>
                     if uc_protocol up = uc_protocol (uu_config u)
                     then (hm_remove old us, st(old := None), st old)
                     else (hm_remove old us, st(old := None), None)
                 | None \<Rightarrow> (us, st, None)));
         (s, h1) = (case reused of Some s \<Rightarrow> (s, h) | None \<Rightarrow> stats_default h)
     in (cfg\<lparr>cc_upstreams := hm_insert (uu_name u) (uu_config u) us1\<rparr>, st1(uu_name u \<mapsto> s), h1))"

definition update_upstreams ::
  "(client_config \<Rightarrow> bytes res) \<Rightarrow> file_io \<Rightarrow> upstream_update list \<Rightarrow> controller \<Rightarrow> unit http_result \<times> controller" where
  "update_upstreams yaml io updates ctl =
     (let (cfg, st, h) = fold apply_update updates (ctl_config ctl, ctl_stats ctl, ctl_counters ctl)
      in set_current_config yaml io cfg st (ctl\<lparr>ctl_counters := h\<rparr>))"

definition apply_delete :: "rstr \<Rightarrow> client_config \<times> client_statistics \<Rightarrow> client_config \<times> client_statistics" where
  "apply_delete n = (\<lambda>(cfg, st). (cfg\<lparr>cc_upstreams := hm_remove n (cc_upstreams cfg)\<rparr>, st(n := None)))"

definition delete_upstreams ::
  "(client_config \<Rightarrow> bytes res) \<Rightarrow> file_io \<Rightarrow> rstr list \<Rightarrow> controller \<Rightarrow> unit http_result \<times> controller" where
  "delete_upstreams yaml io names ctl =
     (let (cfg, st) = fold apply_delete names (ctl_config ctl, ctl_stats ctl)
      in set_current_config yaml io cfg st ctl)"

text \<open>\<open>run_controller\<close> up to its loop: \<open>saved\<close> is the parsed file, if there is one.\<close>

definition controller_new :: "client_config res option \<Rightarrow> bytes option \<Rightarrow> counters \<Rightarrow> controller res" where
  "controller_new saved file h =
     and_then (case saved of None \<Rightarrow> Inr default_config | Some r \<Rightarrow> in_context ''Parsing config file'' r) (\<lambda>cfg.
       let (st, h') = stats_new (cc_upstreams cfg) h
       in Inr \<lparr>ctl_config = cfg, ctl_stats = st, ctl_counters = h', ctl_file = file, ctl_broadcast = [(cfg, st)]\<rparr>)"

section \<open>The HTTP interface\<close>

datatype response = Empty | Regular bytes rstr | EmbedFile rstr bytes

text \<open>
  What is sent back, before serialisation, and the two serialisers. \<open>lookup_asset\<close> are the embedded
  files; \<open>engine_updated\<close> and \<open>engine_update\<close> are the answers of the filter list engine (the flag says
  which of the two lists).
\<close>

datatype payload = PConfig client_config | PStats client_statistics counters | PUnit | PRules "nat option" "nat option"

record controller_env =
  ce_json :: "payload \<Rightarrow> bytes res"
  ce_yaml :: "payload \<Rightarrow> bytes res"
  ce_config_yaml :: "client_config \<Rightarrow> bytes res"
  ce_decode :: "rstr \<Rightarrow> rstr res"
  ce_from_json_config :: "bytes \<Rightarrow> client_config res"
  ce_from_yaml_config :: "bytes \<Rightarrow> client_config res"
  ce_from_json_updates :: "bytes \<Rightarrow> upstream_update list res"
  ce_from_yaml_updates :: "bytes \<Rightarrow> upstream_update list res"
  ce_from_json_names :: "bytes \<Rightarrow> rstr list res"
  ce_from_yaml_names :: "bytes \<Rightarrow> rstr list res"
  ce_asset :: "rstr \<Rightarrow> bytes option"
  ce_mime :: "rstr \<Rightarrow> rstr option"
  ce_engine_updated :: "bool \<Rightarrow> nat option res"
  ce_engine_update :: "bool \<Rightarrow> address \<Rightarrow> nat res"
  ce_show :: "fault \<Rightarrow> rstr"

definition response_mapper :: "controller_env \<Rightarrow> rstr \<Rightarrow> payload \<Rightarrow> response http_result" where
  "response_mapper E mime_type p =
     (let (data, mime) =
        (if eq_ignore_ascii_case mime_type (lit ''application/json'') \<or> eq_ignore_ascii_case mime_type (lit ''*/*'')
         then (in_context ''Serialising JSON'' (ce_json E p), lit ''application/json'')
         else if eq_ignore_ascii_case mime_type (lit ''text/yaml'')
         then (in_context ''Serialising YAML'' (ce_yaml E p), lit ''text/yaml'')
         else (Inl (Err ''Invalid mimetype''), lit ''text/plain''))
      in case data of Inl e \<Rightarrow> Inl (Generic e) | Inr d \<Rightarrow> Inr (Regular d mime))"

text \<open>\<open>body_json_or_yaml\<close> of \<open>src/http.rs\<close>; the body is only read when the type is known.\<close>

definition body_json_or_yaml ::
  "(bytes \<Rightarrow> 'a res) \<Rightarrow> (bytes \<Rightarrow> 'a res) \<Rightarrow> headers \<Rightarrow> (bytes res) option \<Rightarrow> 'a res option" where
  "body_json_or_yaml from_json from_yaml hs body =
     (case get_content_type hs of
        Some v \<Rightarrow>
          if starts_with (map to_lower v) (lit ''application/json'') then map_option (\<lambda>b. and_then b from_json) body
          else if starts_with (map to_lower v) (lit ''text/yaml'') then map_option (\<lambda>b. and_then b from_yaml) body
          else Some (Inl (Err ''Invalid content type''))
      | None \<Rightarrow> Some (Inl (Err ''Invalid content type'')))"

text \<open>
  \<open>dispatch\<close> on a parsed request. \<open>None\<close> is a body that never ends, \<open>Some (Inl _)\<close> a panic (slicing a
  path behind its first byte inside a character).
\<close>

definition mime_of :: "http_request \<Rightarrow> rstr" where
  "mime_of r =
     (case (if eq_ignore_ascii_case (hr_method r) (lit ''get'') then get_header_text (hr_headers r) (lit ''Accept'')
            else get_header_text (hr_headers r) (lit ''Content-Type'')) of
        Some m \<Rightarrow> m | None \<Rightarrow> lit ''application/json'')"

text \<open>The handlers that read the body and then change the controller.\<close>

definition with_body ::
  "controller_env \<Rightarrow> rstr \<Rightarrow> 'a res option \<Rightarrow> ('a \<Rightarrow> controller \<Rightarrow> unit http_result \<times> controller) \<Rightarrow> controller \<Rightarrow>
   (response http_result \<times> controller) res option" where
  "with_body E mime body act ctl =
     (case body of
        None \<Rightarrow> None
      | Some (Inl e) \<Rightarrow> Some (case e of Panic p \<Rightarrow> Inl (Panic p) | Err m \<Rightarrow> Inr (Inl (Generic (Err m)), ctl))
      | Some (Inr x) \<Rightarrow>
          (case act x ctl of
             (Inl err, ctl') \<Rightarrow> Some (Inr (Inl err, ctl'))
           | (Inr _, ctl') \<Rightarrow> Some (Inr (response_mapper E mime PUnit, ctl'))))"

definition dispatch_list :: "controller_env \<Rightarrow> rstr \<Rightarrow> rstr \<Rightarrow> rstr \<Rightarrow> controller \<Rightarrow> response http_result" where
  "dispatch_list E mime m path ctl =
     (let gfw = str_contains path (lit ''gfwlist'')
      in if m = lit ''GET'' then
           (case ce_engine_updated E gfw of
              Inl e \<Rightarrow> Inl (Generic e)
            | Inr last_updated \<Rightarrow> response_mapper E mime (PRules None last_updated))
         else if m = lit ''POST'' then
           (case and_then (ce_engine_update E gfw (IP (cc_socks5_address (ctl_config ctl)))) (\<lambda>num_rules.
                 and_then (ce_engine_updated E gfw) (\<lambda>last_updated. Inr (PRules (Some num_rules) last_updated))) of
              Inl e \<Rightarrow> Inl (Generic e)
            | Inr p \<Rightarrow> response_mapper E mime p)
         else Inl (InvalidRequest (Err ''Unknown method'')))"

definition dispatch_asset :: "controller_env \<Rightarrow> rstr \<Rightarrow> response http_result res" where
  "dispatch_asset E original_p =
     and_then (if original_p = lit ''/'' \<or> original_p = [] then Inr (lit ''index.html'')
               else if is_cont (get_or_0 original_p 1) then Inl (Panic ''byte index 1 is not a char boundary'')
               else Inr (tl original_p)) (\<lambda>p.
       Inr (case ce_asset E p of
              Some file \<Rightarrow> Inr (EmbedFile p file)
            | None \<Rightarrow> Inl (NotFound original_p)))"

definition dispatch ::
  "controller_env \<Rightarrow> file_io \<Rightarrow> http_request res \<Rightarrow> bytes res option \<Rightarrow> controller \<Rightarrow>
   (response http_result \<times> controller) res option" where
  "dispatch E io request body ctl =
     (case request of
        Inl e \<Rightarrow> Some (Inr (Inl (InvalidRequest e), ctl))
      | Inr r \<Rightarrow>
          (case http_path_from_str (ce_decode E) (hr_path r) of
             Inl e \<Rightarrow> Some (Inr (Inl (Generic e), ctl))
           | Inr path \<Rightarrow>
               (let mime = mime_of r; m = hr_method r; p = hp_path path; hs = hr_headers r
                in if m = lit ''OPTIONS'' then Some (Inr (Inr Empty, ctl))
                   else if m = lit ''GET'' \<and> p = lit ''/api/config'' then
                     Some (Inr (response_mapper E mime (PConfig (ctl_config ctl)), ctl))
                   else if m = lit ''POST'' \<and> p = lit ''/api/config'' then
                     with_body E mime (body_json_or_yaml (ce_from_json_config E) (ce_from_yaml_config E) hs body)
                       (\<lambda>c. set_config (ce_config_yaml E) io c (get_query path (lit ''replace'') = Some (lit ''all''))) ctl
                   else if m = lit ''GET'' \<and> p = lit ''/api/stats'' then
                     Some (Inr (response_mapper E mime (PStats (ctl_stats ctl) (ctl_counters ctl)), ctl))
                   else if p = lit ''/api/gfwlist'' \<or> p = lit ''/api/adblocklist'' then
                     Some (Inr (dispatch_list E mime m p ctl, ctl))
                   else if m = lit ''GET'' then Some (and_then (dispatch_asset E p) (\<lambda>r. Inr (r, ctl)))
                   else if m = lit ''POST'' \<and> p = lit ''/api/upstream'' then
                     with_body E mime (body_json_or_yaml (ce_from_json_updates E) (ce_from_yaml_updates E) hs body)
                       (update_upstreams (ce_config_yaml E) io) ctl
                   else if m = lit ''DELETE'' \<and> p = lit ''/api/upstream'' then
                     with_body E mime (body_json_or_yaml (ce_from_json_names E) (ce_from_yaml_names E) hs body)
                       (delete_upstreams (ce_config_yaml E) io) ctl
                   else Some (Inr (Inl (NotFound p), ctl)))))"

text \<open>The response \<open>handle_client\<close> writes for the outcome of \<open>dispatch\<close>.\<close>

fun render_response :: "controller_env \<Rightarrow> response http_result \<Rightarrow> bytes" where
  "render_response E (Inr Empty) = write_http_response 201 (Some (lit ''OK'')) None []"
| "render_response E (Inr (Regular data mime_type)) = write_http_response 200 (Some (lit ''OK'')) (Some mime_type) data"
| "render_response E (Inr (EmbedFile path file)) = write_http_response 200 (Some (lit ''OK'')) (ce_mime E path) file"
| "render_response E (Inl (Generic e)) = write_http_response 500 None (Some (lit ''text/plain'')) (ce_show E e)"
| "render_response E (Inl (InvalidRequest e)) = write_http_response 400 None (Some (lit ''text/plain'')) (ce_show E e)"
| "render_response E (Inl (NotFound s)) =
     write_http_response 404 None (Some (lit ''text/plain'')) (lit ''Resource '' @ s @ lit '' not found'')"

text \<open>
  \<open>handle_client\<close>: the request is read from the connection, dispatched and answered. \<open>hp\<close> and \<open>pcs\<close> are the
  tokenizers.
\<close>

definition handle_client ::
  "controller_env \<Rightarrow> (rstr option \<times> rstr option) tokenizer \<Rightarrow> (bytes \<Rightarrow> ((nat \<times> nat) option) res) \<Rightarrow> file_io \<Rightarrow> segments \<Rightarrow>
   controller \<Rightarrow> (bytes \<times> controller) res option" where
  "handle_client E hp pcs io ss ctl =
     (case parse_request hp ss (rwb_new (replicate 512 0)) of
        Inl e \<Rightarrow> map_option (\<lambda>r. and_then r (\<lambda>(res, ctl'). Inr (render_response E res, ctl'))) (dispatch E io (Inl e) None ctl)
      | Inr st \<Rightarrow>
          map_option (\<lambda>r. and_then r (\<lambda>(res, ctl'). Inr (render_response E res, ctl')))
            (dispatch E io (Inr (st_init st))
              (map_option (\<lambda>r. and_then r (\<lambda>(b, _). Inr b)) (http_body pcs (hr_headers (st_init st)) st)) ctl))"

section \<open>The receiving end\<close>

text \<open>
  \<open>Receiver::poll_next\<close> of \<open>src/broadcast.rs\<close>: \<open>rx\<close> is the result of polling the channel (pending, the end, or an
  item), \<open>init\<close> the value that is delivered while the channel has none.
\<close>

datatype 'a polled = RxPending | RxEnd | RxItem 'a

fun receiver_poll :: "'a polled \<Rightarrow> 'a option \<Rightarrow> 'a polled \<times> 'a option" where
  "receiver_poll (RxItem x) init = (RxItem x, None)"
| "receiver_poll RxPending (Some v) = (RxItem v, None)"
| "receiver_poll rx init = (rx, init)"

section \<open>Invariant\<close>

definition stat_refs :: "upstream_statistics \<Rightarrow> counter_ref set" where
  "stat_refs s = {us_tx s, us_rx s, us_last_activity s, us_last_latency s}"

text \<open>
  Every upstream has statistics and only these; their counters are allocated, and no two upstreams
  share one.
\<close>

definition stats_ok :: "(rstr \<times> upstream_config) list \<Rightarrow> client_statistics \<Rightarrow> counters \<Rightarrow> bool" where
  "stats_ok us st h \<longleftrightarrow> distinct (map fst us) \<and> dom st = fst ` set us \<and>
     (\<forall>n s. st n = Some s \<longrightarrow> (\<forall>r \<in> stat_refs s. r < ct_next h)) \<and>
     (\<forall>n m s s'. st n = Some s \<longrightarrow> st m = Some s' \<longrightarrow> n \<noteq> m \<longrightarrow> stat_refs s \<inter> stat_refs s' = {})"

lemma stats_okI:
  assumes "distinct (map fst us)" and "dom st = fst ` set us"
    and "\<And>n s r. st n = Some s \<Longrightarrow> r \<in> stat_refs s \<Longrightarrow> r < ct_next h"
    and "\<And>n m s s'. st n = Some s \<Longrightarrow> st m = Some s' \<Longrightarrow> n \<noteq> m \<Longrightarrow> stat_refs s \<inter> stat_refs s' = {}"
  shows "stats_ok us st h"
  using assms unfolding stats_ok_def by blast

lemma stats_okD:
  assumes "stats_ok us st h"
  shows "distinct (map fst us)" "dom st = fst ` set us"
    "st n = Some s \<Longrightarrow> r \<in> stat_refs s \<Longrightarrow> r < ct_next h"
    "st n = Some s \<Longrightarrow> st m = Some s' \<Longrightarrow> n \<noteq> m \<Longrightarrow> stat_refs s \<inter> stat_refs s' = {}"
  using assms unfolding stats_ok_def by blast+

lemma stats_default_fresh:
  "stats_default h = (s, h') \<Longrightarrow> ct_next h' = ct_next h + 4 \<and> stat_refs s = {ct_next h..<ct_next h + 4}"
  by (auto simp: stats_default_def counter_default_def stat_refs_def)

lemma hm_remove_simps [simp]:
  "fst ` set (hm_remove n us) = fst ` set us - {n}"
  "distinct (map fst us) \<Longrightarrow> distinct (map fst (hm_remove n us))"
  by (force simp: hm_remove_def, simp add: hm_remove_def distinct_map_filter)

lemma hm_insert_simps [simp]:
  "fst ` set (hm_insert n v us) = insert n (fst ` set us)"
  "distinct (map fst us) \<Longrightarrow> distinct (map fst (hm_insert n v us))"
  by (auto simp: hm_insert_def)

text \<open>Adding an entry with fresh or released counters, and removing one.\<close>

lemma stats_ok_insert:
  assumes "stats_ok us st h" and "ct_next h \<le> ct_next h'"
    and "\<And>r. r \<in> stat_refs s \<Longrightarrow> r < ct_next h'" and "\<And>m s'. m \<noteq> n \<Longrightarrow> st m = Some s' \<Longrightarrow> stat_refs s \<inter> stat_refs s' = {}"
  shows "stats_ok (hm_insert n c us) (st(n \<mapsto> s)) h'"
proof (rule stats_okI)
  fix m s' r assume "(st(n \<mapsto> s)) m = Some s'" "r \<in> stat_refs s'"
  then show "r < ct_next h'" using assms(2,3) stats_okD(3)[OF assms(1), of m s' r] by (auto split: if_splits)
next
  fix a b s1 s2 assume "(st(n \<mapsto> s)) a = Some s1" "(st(n \<mapsto> s)) b = Some s2" "a \<noteq> b"
  then show "stat_refs s1 \<inter> stat_refs s2 = {}"
    using assms(4)[of a s1] assms(4)[of b s2] stats_okD(4)[OF assms(1), of a s1 b s2] by (auto split: if_splits)
qed (use stats_okD(1,2)[OF assms(1)] in auto)

lemma stats_ok_remove:
  assumes "stats_ok us st h"
  shows "stats_ok (hm_remove n us) (st(n := None)) h"
proof (rule stats_okI)
  fix m s' r assume "(st(n := None)) m = Some s'" "r \<in> stat_refs s'"
  then show "r < ct_next h" using stats_okD(3)[OF assms, of m s' r] by (auto split: if_splits)
next
  fix a b s1 s2 assume "(st(n := None)) a = Some s1" "(st(n := None)) b = Some s2" "a \<noteq> b"
  then show "stat_refs s1 \<inter> stat_refs s2 = {}" using stats_okD(4)[OF assms, of a s1 b s2] by (auto split: if_splits)
qed (use stats_okD(1,2)[OF assms] in auto)

lemma stats_ok_fresh:
  assumes "stats_ok us st h" and "stats_default h = (s, h')"
  shows "stats_ok (hm_insert n c us) (st(n \<mapsto> s)) h'"
proof (rule stats_ok_insert[OF assms(1)])
  show "ct_next h \<le> ct_next h'" "\<And>r. r \<in> stat_refs s \<Longrightarrow> r < ct_next h'"
    using stats_default_fresh[OF assms(2)] by auto
  fix m s' assume "st m = Some s'"
  then show "stat_refs s \<inter> stat_refs s' = {}"
    using stats_default_fresh[OF assms(2)] stats_okD(3)[OF assms(1), of m s'] by fastforce
qed

lemma stats_new_ok:
  assumes "distinct (map fst us)" and "stats_new us h = (st, h')"
  shows "ct_next h \<le> ct_next h' \<and> stats_ok us st h' \<and> (\<forall>n s. st n = Some s \<longrightarrow> (\<forall>r \<in> stat_refs s. ct_next h \<le> r))"
  using assms
proof (induction us arbitrary: h st h')
  case Nil
  then have "st = Map.empty" by auto
  with Nil show ?case by (simp add: stats_ok_def)
next
  case (Cons x us)
  obtain n c where x: "x = (n, c)" by force
  obtain s h1 where d: "stats_default h = (s, h1)" by force
  obtain m h2 where r: "stats_new us h1 = (m, h2)" by force
  have st: "st = m(n \<mapsto> s)" "h' = h2" using Cons.prems(2) x d r by auto
  have f: "ct_next h1 = ct_next h + 4" "stat_refs s = {ct_next h..<ct_next h + 4}" using stats_default_fresh[OF d] by auto
  have ih: "ct_next h1 \<le> ct_next h2" "stats_ok us m h2" "\<And>n s r. m n = Some s \<Longrightarrow> r \<in> stat_refs s \<Longrightarrow> ct_next h1 \<le> r"
    using Cons.IH[OF _ r] Cons.prems(1) by auto
  have "stats_ok (hm_insert n c us) (m(n \<mapsto> s)) h2"
  proof (rule stats_ok_insert[OF ih(2)])
    fix k s' assume "m k = Some s'"
    then show "stat_refs s \<inter> stat_refs s' = {}" using f ih(3)[of k s'] by fastforce
  qed (use f ih(1) in auto)
  moreover have "hm_remove n us = us" using Cons.prems(1) x by (force simp: hm_remove_def filter_id_conv)
  ultimately have "stats_ok (x # us) st h'" using st x by (simp add: hm_insert_def)
  moreover have "ct_next h \<le> r" if "st k = Some s'" "r \<in> stat_refs s'" for k s' r
    using that st f ih(3)[of k s' r] by (cases "k = n") auto
  moreover have "ct_next h \<le> ct_next h'" using ih(1) f(1) st(2) by simp
  ultimately show ?case by blast
qed

text \<open>The loop bodies of the two requests that change upstreams.\<close>

lemma apply_update_ok:
  assumes "stats_ok (cc_upstreams cfg) st h" and "apply_update u (cfg, st, h) = (cfg', st', h')"
  shows "stats_ok (cc_upstreams cfg') st' h'"
proof -
  obtain s hd where sd: "stats_default h = (s, hd)" by force
  show ?thesis
  proof (cases "\<exists>old up s0. uu_old_name u = Some old \<and> map_of (cc_upstreams cfg) old = Some up \<and>
      uc_protocol up = uc_protocol (uu_config u) \<and> st old = Some s0")
    case True
    then obtain old up s0 where o: "uu_old_name u = Some old" "map_of (cc_upstreams cfg) old = Some up"
        "uc_protocol up = uc_protocol (uu_config u)" "st old = Some s0" by blast
    have "stats_ok (hm_insert (uu_name u) (uu_config u) (hm_remove old (cc_upstreams cfg)))
        ((st(old := None))(uu_name u \<mapsto> s0)) h"
    proof (rule stats_ok_insert[OF stats_ok_remove[OF assms(1)]])
      show "r < ct_next h" if "r \<in> stat_refs s0" for r using stats_okD(3)[OF assms(1) o(4) that] .
      show "stat_refs s0 \<inter> stat_refs s' = {}" if "(st(old := None)) m = Some s'" for m s'
        using stats_okD(4)[OF assms(1) o(4), of m s'] that by (auto split: if_splits)
    qed simp
    then show ?thesis using assms(2) o by (auto simp: apply_update_def)
  next
    case False
    have "stats_ok (hm_insert n c us) (st1(n \<mapsto> s)) hd" if "stats_ok us st1 h" for n c us st1
      using stats_ok_fresh[OF that sd] .
    then show ?thesis
      using assms False sd stats_ok_remove[OF assms(1)]
      by (auto simp: apply_update_def Let_def split: option.splits if_splits)
  qed
qed

lemma fold_update_ok:
  assumes "stats_ok (cc_upstreams cfg) st h" and "fold apply_update updates (cfg, st, h) = (cfg', st', h')"
  shows "stats_ok (cc_upstreams cfg') st' h'"
  using assms
proof (induction updates arbitrary: cfg st h)
  case (Cons u us)
  obtain c1 s1 h1 where u: "apply_update u (cfg, st, h) = (c1, s1, h1)" by (metis prod.exhaust)
  show ?case using Cons.IH[OF apply_update_ok[OF Cons.prems(1) u]] Cons.prems(2) u by simp
qed simp

lemma fold_delete_ok:
  assumes "stats_ok (cc_upstreams cfg) st h" and "fold apply_delete names (cfg, st) = (cfg', st')"
  shows "stats_ok (cc_upstreams cfg') st' h"
  using assms
proof (induction names arbitrary: cfg st)
  case (Cons n ns)
  obtain c1 s1 where d: "apply_delete n (cfg, st) = (c1, s1)" by force
  then have "stats_ok (cc_upstreams c1) s1 h"
    using stats_ok_remove[OF Cons.prems(1), of n] by (auto simp: apply_delete_def)
  then show ?case using Cons.IH Cons.prems(2) d by simp
qed simp

section \<open>Reachable states\<close>

definition ctl_inv :: "controller \<Rightarrow> bool" where
  "ctl_inv ctl \<longleftrightarrow> stats_ok (cc_upstreams (ctl_config ctl)) (ctl_stats ctl) (ctl_counters ctl) \<and>
     ctl_broadcast ctl \<noteq> [] \<and> last (ctl_broadcast ctl) = (ctl_config ctl, ctl_stats ctl)"

text \<open>
  The states reached by the requests that change something (a new configuration without the query
  \<open>replace=all\<close>, updates and deletions of upstreams), with any outcome of the file operations, and by
  the traffic of running connections, which moves counters.
\<close>

inductive ctl_reach :: "(client_config \<Rightarrow> bytes res) \<Rightarrow> controller \<Rightarrow> bool" for yaml where
  start: "controller_new saved file h = Inr ctl \<Longrightarrow> (\<And>cfg. saved = Some (Inr cfg) \<Longrightarrow> distinct (map fst (cc_upstreams cfg))) \<Longrightarrow>
    ctl_reach yaml ctl"
| config: "ctl_reach yaml ctl \<Longrightarrow> set_config yaml io c False ctl = (r, ctl') \<Longrightarrow> ctl_reach yaml ctl'"
| update: "ctl_reach yaml ctl \<Longrightarrow> update_upstreams yaml io us ctl = (r, ctl') \<Longrightarrow> ctl_reach yaml ctl'"
| delete: "ctl_reach yaml ctl \<Longrightarrow> delete_upstreams yaml io ns ctl = (r, ctl') \<Longrightarrow> ctl_reach yaml ctl'"
| traffic: "ctl_reach yaml ctl \<Longrightarrow> ctl_reach yaml (ctl\<lparr>ctl_counters := counter_inc ref v (ctl_counters ctl)\<rparr>)"
| activity: "ctl_reach yaml ctl \<Longrightarrow>
    ctl_reach yaml (ctl\<lparr>ctl_counters := update_upstream now (ctl_stats ctl) name latency (ctl_counters ctl)\<rparr>)"

lemma set_current_config_cases:
  assumes "set_current_config yaml io c s ctl = (r, ctl')"
  shows "(\<exists>e f. r = Inl (Generic e) \<and> ctl' = ctl\<lparr>ctl_file := f\<rparr>) \<or>
         (\<exists>text. yaml c = Inr text \<and> r = Inr () \<and>
            ctl' = ctl\<lparr>ctl_file := Some text, ctl_config := c, ctl_stats := s, ctl_broadcast := ctl_broadcast ctl @ [(c, s)]\<rparr>)"
proof -
  have same: "\<exists>f. x = x\<lparr>ctl_file := f\<rparr>" for x :: controller by (rule exI[of _ "ctl_file x"]) simp
  show ?thesis
    using assms unfolding set_current_config_def Let_def
    by (auto split: sum.splits prod.splits intro: same)
qed

lemma set_current_config_inv:
  assumes "ctl_inv ctl" and "stats_ok (cc_upstreams c) s (ctl_counters ctl)" and "set_current_config yaml io c s ctl = (r, ctl')"
  shows "ctl_inv ctl'"
  using set_current_config_cases[OF assms(3)] assms(1,2) by (auto simp: ctl_inv_def)

lemma stats_ok_more_counters: "stats_ok us st h \<Longrightarrow> ct_next h \<le> ct_next h' \<Longrightarrow> stats_ok us st h'"
  unfolding stats_ok_def by (meson order_less_le_trans)

lemma apply_update_counters: "apply_update u (cfg, st, h) = (cfg', st', h') \<Longrightarrow> ct_next h \<le> ct_next h'"
  by (auto simp: apply_update_def Let_def dest!: stats_default_fresh split: option.splits if_splits prod.splits)

lemma fold_update_counters: "fold apply_update us (cfg, st, h) = (cfg', st', h') \<Longrightarrow> ct_next h \<le> ct_next h'"
proof (induction us arbitrary: cfg st h)
  case (Cons u us)
  obtain c1 s1 h1 where u: "apply_update u (cfg, st, h) = (c1, s1, h1)" by (metis prod.exhaust)
  show ?case using Cons.IH[of c1 s1 h1] Cons.prems u apply_update_counters[OF u] by simp
qed simp

lemma ctl_inv_counters: "ctl_inv ctl \<Longrightarrow> ct_next h = ct_next (ctl_counters ctl) \<Longrightarrow> ctl_inv (ctl\<lparr>ctl_counters := h\<rparr>)"
  by (simp add: ctl_inv_def stats_ok_def)

lemma update_upstreams_inv:
  assumes "ctl_inv ctl" and "update_upstreams yaml io us ctl = (r, ctl')"
  shows "ctl_inv ctl'"
proof -
  obtain cfg st h where f: "fold apply_update us (ctl_config ctl, ctl_stats ctl, ctl_counters ctl) = (cfg, st, h)"
    by (metis prod.exhaust)
  have "stats_ok (cc_upstreams cfg) st h" using fold_update_ok[OF _ f] assms(1) by (simp add: ctl_inv_def)
  moreover have "ctl_inv (ctl\<lparr>ctl_counters := h\<rparr>)"
    using assms(1) stats_ok_more_counters fold_update_counters[OF f] by (auto simp: ctl_inv_def)
  moreover have "set_current_config yaml io cfg st (ctl\<lparr>ctl_counters := h\<rparr>) = (r, ctl')"
    using assms(2) f by (simp add: update_upstreams_def)
  ultimately show ?thesis using set_current_config_inv[of "ctl\<lparr>ctl_counters := h\<rparr>"] by simp
qed

lemma delete_upstreams_inv:
  assumes "ctl_inv ctl" and "delete_upstreams yaml io ns ctl = (r, ctl')"
  shows "ctl_inv ctl'"
proof -
  obtain cfg st where f: "fold apply_delete ns (ctl_config ctl, ctl_stats ctl) = (cfg, st)" by force
  show ?thesis
    using set_current_config_inv[OF assms(1) fold_delete_ok[OF _ f]] assms f
    by (simp add: delete_upstreams_def ctl_inv_def)
qed

lemma ctl_reach_inv: "ctl_reach yaml ctl \<Longrightarrow> ctl_inv ctl"
proof (induction rule: ctl_reach.induct)
  case (start saved cfile h ctl)
  obtain cfg where cfg: "cfg = default_config \<or> saved = Some (Inr cfg)"
      "(let (st, h') = stats_new (cc_upstreams cfg) h in Inr \<lparr>ctl_config = cfg, ctl_stats = st, ctl_counters = h',
         ctl_file = cfile, ctl_broadcast = [(cfg, st)]\<rparr>) = (Inr ctl :: controller res)"
    using start(1) by (auto simp: controller_new_def res_simps split: option.splits)
  obtain st h' where c: "stats_new (cc_upstreams cfg) h = (st, h')"
      "ctl = \<lparr>ctl_config = cfg, ctl_stats = st, ctl_counters = h', ctl_file = cfile, ctl_broadcast = [(cfg, st)]\<rparr>"
    using cfg(2) by (cases "stats_new (cc_upstreams cfg) h") auto
  have "distinct (map fst (cc_upstreams cfg))" using cfg(1) start(2) by (auto simp: default_config_def)
  then show ?case using stats_new_ok[OF _ c(1)] c(2) by (simp add: ctl_inv_def)
next
  case (config ctl io c r ctl')
  have "set_current_config yaml io (c\<lparr>cc_upstreams := cc_upstreams (ctl_config ctl)\<rparr>) (ctl_stats ctl) ctl = (r, ctl')"
    using config.hyps(2) by (simp add: set_config_def)
  from set_current_config_inv[OF config.IH _ this] show ?case using config.IH by (simp add: ctl_inv_def)
next
  case (update ctl io us r ctl')
  then show ?case using update_upstreams_inv by blast
next
  case (delete ctl io ns r ctl')
  then show ?case using delete_upstreams_inv by blast
next
  case (traffic ctl ref v)
  then show ?case by (intro ctl_inv_counters) (simp_all add: counter_inc_def)
next
  case (activity ctl now name latency)
  then show ?case
    by (intro ctl_inv_counters) (simp_all add: update_upstream_def counter_set_def split: option.splits)
qed

lemma config_change_cases:
  assumes "set_config yaml io c rep ctl = (r, ctl') \<or> update_upstreams yaml io us ctl = (r, ctl') \<or>
     delete_upstreams yaml io ns ctl = (r, ctl')"
  shows "if r = Inr () then ctl_broadcast ctl' = ctl_broadcast ctl @ [(ctl_config ctl', ctl_stats ctl')] \<and>
            yaml (ctl_config ctl') = Inr (the (ctl_file ctl')) \<and> ctl_file ctl' \<noteq> None
         else ctl_config ctl' = ctl_config ctl \<and> ctl_stats ctl' = ctl_stats ctl \<and> ctl_broadcast ctl' = ctl_broadcast ctl"
proof -
  obtain c0 s0 h where "set_current_config yaml io c0 s0 (ctl\<lparr>ctl_counters := h\<rparr>) = (r, ctl')"
  proof -
    have same: "ctl = ctl\<lparr>ctl_counters := ctl_counters ctl\<rparr>" by simp
    show thesis
      using assms that unfolding set_config_def update_upstreams_def delete_upstreams_def Let_def
      by (auto split: prod.splits) (metis same)+
  qed
  from set_current_config_cases[OF this] show ?thesis by auto
qed

text \<open>A handler that reads a body changes nothing, or its action does, and the answer is that of the action.\<close>

lemma with_body_cases:
  assumes "with_body E mime body act ctl = Some (Inr (resp, ctl'))"
  shows "ctl' = ctl \<or> (\<exists>x b. act x ctl = (b, ctl') \<and> resp = (case b of Inl e \<Rightarrow> Inl e | Inr _ \<Rightarrow> response_mapper E mime PUnit))"
  using assms by (force simp: with_body_def split: option.splits sum.splits prod.splits fault.splits)

lemma failed_change_silent:
  "set_config yaml io c rep ctl = (Inl e, ctl') \<Longrightarrow> ctl_broadcast ctl' = ctl_broadcast ctl"
  "update_upstreams yaml io us ctl = (Inl e, ctl') \<Longrightarrow> ctl_broadcast ctl' = ctl_broadcast ctl"
  "delete_upstreams yaml io ns ctl = (Inl e, ctl') \<Longrightarrow> ctl_broadcast ctl' = ctl_broadcast ctl"
  using config_change_cases[of yaml io c rep ctl "Inl e" ctl' us ns] by simp_all

text \<open>The requests that may change the controller, with the operation each of them runs.\<close>

lemma dispatch_change:
  assumes "dispatch E io (Inr r) body ctl = Some (Inr (resp, ctl'))" and "ctl' \<noteq> ctl"
  obtains path b where "http_path_from_str (ce_decode E) (hr_path r) = Inr path"
    "resp = (case b of Inl e \<Rightarrow> Inl e | Inr _ \<Rightarrow> response_mapper E (mime_of r) PUnit)"
    "(\<exists>c. hr_method r = lit ''POST'' \<and> hp_path path = lit ''/api/config'' \<and>
        set_config (ce_config_yaml E) io c (get_query path (lit ''replace'') = Some (lit ''all'')) ctl = (b, ctl')) \<or>
     (\<exists>us. hr_method r = lit ''POST'' \<and> hp_path path = lit ''/api/upstream'' \<and> update_upstreams (ce_config_yaml E) io us ctl = (b, ctl')) \<or>
     (\<exists>ns. hr_method r = lit ''DELETE'' \<and> hp_path path = lit ''/api/upstream'' \<and> delete_upstreams (ce_config_yaml E) io ns ctl = (b, ctl'))"
proof -
  obtain path where p: "http_path_from_str (ce_decode E) (hr_path r) = Inr path"
    using assms by (cases "http_path_from_str (ce_decode E) (hr_path r)") (auto simp: dispatch_def)
  show thesis
    using assms that[OF p]
    by (auto simp: dispatch_def p Let_def res_simps split: if_splits dest!: with_body_cases)
qed

section \<open>Properties\<close>


definition demo_io :: file_io where
  "demo_io = \<lparr>fio_create = Inr (), fio_write = Inr (), fio_written = 0, fio_flush = Inr ()\<rparr>"

definition demo_ctl :: controller where
  "demo_ctl = \<lparr>ctl_config = default_config, ctl_stats = Map.empty, ctl_counters = demo_counters, ctl_file = None,
     ctl_broadcast = [(default_config, Map.empty)]\<rparr>"

definition demo_update :: upstream_update where
  "demo_update = \<lparr>uu_old_name = None, uu_name = lit ''a'',
     uu_config = \<lparr>uc_protocol = Direct, uc_groups = None, uc_enabled = True\<rparr>\<rparr>"

lemma demo_update_succeeds: "fst (update_upstreams (\<lambda>_. Inr []) demo_io us ctl) = Inr ()"
  by (simp add: update_upstreams_def set_current_config_def demo_io_def split: prod.splits)

lemma demo_ctl_reach: "ctl_reach (\<lambda>_. Inr []) demo_ctl"
  by (rule ctl_reach.start[of None None demo_counters])
    (simp_all add: controller_new_def demo_ctl_def default_config_def)


text \<open>
  C36: A change of the configuration is atomic for the client: every operation that changes the
  configuration either fails, and then the current configuration, its statistics and the
  announcements are as before, or succeeds, and then the new configuration and statistics are
  current, announced as the next item, and the file holds the configuration's text.
\<close>

theorem config_change_atomic:
  assumes "set_config yaml io c rep ctl = (r, ctl') \<or> update_upstreams yaml io us ctl = (r, ctl') \<or>
     delete_upstreams yaml io ns ctl = (r, ctl')"
  shows "if r = Inr () then ctl_broadcast ctl' = ctl_broadcast ctl @ [(ctl_config ctl', ctl_stats ctl')] \<and>
            yaml (ctl_config ctl') = Inr (the (ctl_file ctl')) \<and> ctl_file ctl' \<noteq> None
         else ctl_config ctl' = ctl_config ctl \<and> ctl_stats ctl' = ctl_stats ctl \<and> ctl_broadcast ctl' = ctl_broadcast ctl"
  by (rule config_change_cases[OF assms])

theorem config_change_atomic_witness:
  "ctl_broadcast (snd (delete_upstreams (\<lambda>_. Inl (Err ''yaml'')) demo_io [] demo_ctl)) = ctl_broadcast demo_ctl"
  using config_change_atomic[of "\<lambda>_. Inl (Err ''yaml'')" demo_io undefined undefined demo_ctl _ _ undefined "[]",
      OF disjI2[OF disjI2[OF surjective_pairing]]]
  by (simp add: delete_upstreams_def set_current_config_def)

text \<open>
  Renaming an upstream keeps its counters: an update that names the old upstream and leaves its
  protocol as it is gives the new name the very counters of the old one, so that what running
  connections still count shows under the new name, and the old name is gone.
\<close>

theorem rename_keeps_counters:
  assumes "map_of (cc_upstreams (ctl_config ctl)) old = Some up" and "ctl_stats ctl old = Some s"
    and "uc_protocol up = uc_protocol c" and "old \<noteq> new"
    and "update_upstreams yaml io [\<lparr>uu_old_name = Some old, uu_name = new, uu_config = c\<rparr>] ctl = (Inr (), ctl')"
  shows "ctl_stats ctl' new = Some s \<and> ctl_stats ctl' old = None \<and>
     map_of (cc_upstreams (ctl_config ctl')) new = Some c \<and> map_of (cc_upstreams (ctl_config ctl')) old = None"
proof -
  have "map_of (hm_remove new (hm_remove old us)) old = None" for us :: "(rstr \<times> upstream_config) list"
    by (auto simp: map_of_eq_None_iff hm_remove_def)
  moreover have "set_current_config yaml io
      ((ctl_config ctl)\<lparr>cc_upstreams := hm_insert new c (hm_remove old (cc_upstreams (ctl_config ctl)))\<rparr>)
      ((ctl_stats ctl)(old := None, new \<mapsto> s)) ctl = (Inr (), ctl')"
    using assms by (simp add: update_upstreams_def apply_update_def)
  from set_current_config_cases[OF this] have "ctl_stats ctl' = (ctl_stats ctl)(old := None, new \<mapsto> s)"
      "cc_upstreams (ctl_config ctl') = hm_insert new c (hm_remove old (cc_upstreams (ctl_config ctl)))"
    by auto
  ultimately show ?thesis using assms(4) by (simp add: hm_insert_def)
qed

theorem rename_keeps_counters_witness:
  "ctl_stats (snd (update_upstreams (\<lambda>_. Inr []) demo_io [demo_update\<lparr>uu_old_name := Some (lit ''a''), uu_name := lit ''b''\<rparr>]
     (snd (update_upstreams (\<lambda>_. Inr []) demo_io [demo_update] demo_ctl)))) (lit ''b'') =
   Some \<lparr>us_tx = 0, us_rx = 1, us_last_activity = 2, us_last_latency = 3\<rparr>"
proof -
  let ?ctl = "snd (update_upstreams (\<lambda>_. Inr []) demo_io [demo_update] demo_ctl)"
  let ?c = "\<lparr>uc_protocol = Direct, uc_groups = None, uc_enabled = True\<rparr>"
  have 1: "map_of (cc_upstreams (ctl_config ?ctl)) (lit ''a'') = Some ?c"
      "ctl_stats ?ctl (lit ''a'') = Some \<lparr>us_tx = 0, us_rx = 1, us_last_activity = 2, us_last_latency = 3\<rparr>"
    by (simp_all add: update_upstreams_def apply_update_def demo_update_def demo_ctl_def set_current_config_def demo_io_def
        hm_insert_def stats_default_def counter_default_def demo_counters_def numeral_2_eq_2 numeral_3_eq_3)
  have u: "demo_update\<lparr>uu_old_name := Some (lit ''a''), uu_name := lit ''b''\<rparr> =
      \<lparr>uu_old_name = Some (lit ''a''), uu_name = lit ''b'', uu_config = ?c\<rparr>" by (simp add: demo_update_def)
  obtain ctl' where ctl': "update_upstreams (\<lambda>_. Inr []) demo_io
      [\<lparr>uu_old_name = Some (lit ''a''), uu_name = lit ''b'', uu_config = ?c\<rparr>] ?ctl = (Inr (), ctl')"
    using demo_update_succeeds by (metis prod.collapse)
  have "lit ''a'' \<noteq> lit ''b''" by (simp add: lit_def)
  from rename_keeps_counters[OF 1 refl this ctl'] show ?thesis unfolding u using ctl' by simp
qed

text \<open>
  Replacing all upstreams leaves the statistics of the old ones in place: after a new configuration
  with the query \<open>replace=all\<close>, an upstream that was not configured before has no statistics; its use is
  then never recorded and its idle time always counts as the maximum, so that it is tried before
  every other upstream that was used in the last 18 hours.
\<close>

theorem replaced_upstreams_lack_stats:
  assumes "ctl_reach yaml ctl" and "n \<notin> fst ` set (cc_upstreams (ctl_config ctl))"
    and "(n, c) \<in> set (cc_upstreams cfg)" and "set_config yaml io cfg True ctl = (Inr (), ctl')"
  shows "(n, c) \<in> set (cc_upstreams (ctl_config ctl')) \<and> ctl_stats ctl' n = None \<and>
     update_upstream now (ctl_stats ctl') n latency h = h \<and> calc_last_visit_score now h (ctl_stats ctl') n = 65535"
proof -
  have "dom (ctl_stats ctl) = fst ` set (cc_upstreams (ctl_config ctl))"
    using ctl_reach_inv[OF assms(1)] unfolding ctl_inv_def stats_ok_def by blast
  then have "ctl_stats ctl n = None" using assms(2) by auto
  moreover have "ctl_config ctl' = cfg" "ctl_stats ctl' = ctl_stats ctl"
    using set_current_config_cases[of yaml io cfg "ctl_stats ctl" ctl "Inr ()" ctl'] assms(4) by (auto simp: set_config_def)
  ultimately show ?thesis using assms(3) by (simp add: update_upstream_def calc_last_visit_score_def)
qed

theorem replaced_upstreams_lack_stats_witness:
  "calc_last_visit_score 100 demo_counters (ctl_stats (snd (set_config (\<lambda>_. Inr []) demo_io demo_config True demo_ctl))) (lit ''a'') = 65535"
proof -
  obtain ctl' where s: "set_config (\<lambda>_. Inr []) demo_io demo_config True demo_ctl = (Inr (), ctl')"
    by (simp add: set_config_def set_current_config_def demo_io_def)
  have n: "lit ''a'' \<notin> fst ` set (cc_upstreams (ctl_config demo_ctl))" by (simp add: demo_ctl_def default_config_def)
  have c: "(lit ''a'', \<lparr>uc_protocol = Direct, uc_groups = None, uc_enabled = True\<rparr>) \<in> set (cc_upstreams demo_config)"
    by (simp add: demo_config_def)
  show ?thesis using replaced_upstreams_lack_stats[OF demo_ctl_reach n c s] s by simp
qed

text \<open>
  Only \<open>POST\<close> and \<open>DELETE\<close> requests to the configuration and upstream resources change anything: every other
  request leaves the controller as it was, whatever it is answered; and a request that changes the
  announced configuration is answered by the serialised success value.
\<close>

theorem requests_change_only_by_post:
  assumes "dispatch E io (Inr r) body ctl = Some (Inr (resp, ctl'))"
  shows "ctl' = ctl \<or>
     (\<exists>path. http_path_from_str (ce_decode E) (hr_path r) = Inr path \<and>
        (hr_method r = lit ''POST'' \<and> (hp_path path = lit ''/api/config'' \<or> hp_path path = lit ''/api/upstream'') \<or>
         hr_method r = lit ''DELETE'' \<and> hp_path path = lit ''/api/upstream'') \<and>
        (ctl_broadcast ctl' \<noteq> ctl_broadcast ctl \<longrightarrow> resp = response_mapper E (mime_of r) PUnit))"
proof (cases "ctl' = ctl")
  case False
  then obtain path b where p: "http_path_from_str (ce_decode E) (hr_path r) = Inr path"
    and r: "resp = (case b of Inl e \<Rightarrow> Inl e | Inr _ \<Rightarrow> response_mapper E (mime_of r) PUnit)"
    and op: "(\<exists>c. hr_method r = lit ''POST'' \<and> hp_path path = lit ''/api/config'' \<and>
        set_config (ce_config_yaml E) io c (get_query path (lit ''replace'') = Some (lit ''all'')) ctl = (b, ctl')) \<or>
     (\<exists>us. hr_method r = lit ''POST'' \<and> hp_path path = lit ''/api/upstream'' \<and> update_upstreams (ce_config_yaml E) io us ctl = (b, ctl')) \<or>
     (\<exists>ns. hr_method r = lit ''DELETE'' \<and> hp_path path = lit ''/api/upstream'' \<and> delete_upstreams (ce_config_yaml E) io ns ctl = (b, ctl'))"
    using dispatch_change[OF assms] by blast
  show ?thesis
  proof (cases b)
    case (Inl e)
    then have "ctl_broadcast ctl' = ctl_broadcast ctl" using op failed_change_silent by blast
    then show ?thesis using p op by blast
  next
    case (Inr u)
    then show ?thesis using p op r by auto
  qed
qed simp

definition demo_ctl_env :: controller_env where
  "demo_ctl_env = \<lparr>ce_json = (\<lambda>_. Inr []), ce_yaml = (\<lambda>_. Inr []), ce_config_yaml = (\<lambda>_. Inr []), ce_decode = Inr,
     ce_from_json_config = (\<lambda>_. Inr default_config), ce_from_yaml_config = (\<lambda>_. Inr default_config),
     ce_from_json_updates = (\<lambda>_. Inr []), ce_from_yaml_updates = (\<lambda>_. Inr []),
     ce_from_json_names = (\<lambda>_. Inr []), ce_from_yaml_names = (\<lambda>_. Inr []),
     ce_asset = (\<lambda>_. None), ce_mime = (\<lambda>_. None), ce_engine_updated = (\<lambda>_. Inr None), ce_engine_update = (\<lambda>_ _. Inr 0),
     ce_show = (\<lambda>_. [])\<rparr>"

theorem requests_change_only_by_post_witness:
  "\<exists>resp ctl'. dispatch demo_ctl_env demo_io (Inr \<lparr>hr_headers = [], hr_method = lit ''GET'', hr_path = lit ''/x''\<rparr>) None demo_ctl =
     Some (Inr (resp, ctl')) \<and> ctl' = demo_ctl"
proof -
  let ?r = "\<lparr>hr_headers = [], hr_method = lit ''GET'', hr_path = lit ''/x''\<rparr>"
  have "http_path_from_str Inr (lit ''/x'') = Inr \<lparr>hp_path = lit ''/x'', hp_queries = []\<rparr>" by code_simp
  then have d: "dispatch demo_ctl_env demo_io (Inr ?r) None demo_ctl = Some (Inr (Inl (NotFound (lit ''/x'')), demo_ctl))"
    by (simp add: dispatch_def demo_ctl_env_def dispatch_asset_def lit_def is_cont_def get_or_0_def)
  show ?thesis using requests_change_only_by_post[OF d] d by blast
qed

text \<open>
  The receiver delivers its initial value at most once, only while the channel is still empty, and
  passes on every later item unchanged.
\<close>

fun receiver_run :: "'a polled list \<Rightarrow> 'a option \<Rightarrow> 'a polled list" where
  "receiver_run [] init = []"
| "receiver_run (rx # rxs) init = (case receiver_poll rx init of (r, init') \<Rightarrow> r # receiver_run rxs init')"

lemma receiver_run_none: "receiver_run rxs None = rxs"
proof (induction rxs)
  case (Cons rx rxs)
  then show ?case by (cases rx) auto
qed simp

lemma receiver_initial_once:
  "receiver_run (rx # rxs) (Some v) =
     (case rx of RxPending \<Rightarrow> RxItem v # rxs | RxItem x \<Rightarrow> RxItem x # rxs | RxEnd \<Rightarrow> RxEnd # receiver_run rxs (Some v))"
  by (cases rx) (simp_all add: receiver_run_none)

end
