(* ===== verification/Run_Controller.thy ===== *)
theory Run_Controller
  imports Controller
begin

text \<open>
  The loop of the controller (\<open>run_controller\<close> of src/controller.rs): it accepts one connection at a time and handles it to its
  end before the next. Between two connections the running client moves counters. An accepted connection comes with
  what it sends, the outcomes of the file operations, and the outcome of writing the answer.
\<close>

section \<open>The loop\<close>

datatype ctl_event =
    CtlAccept "(segments \<times> file_io \<times> unit res) res"
  | CtlTraffic counter_ref u64
  | CtlActivity nat rstr nat

datatype ctl_status = CtlServing | CtlWaitsForever | CtlEnded fault

record ctl_loop =
  cl_ctl :: controller
  cl_answers :: "bytes list"
  cl_status :: ctl_status

definition ctl_loop_new :: "controller \<Rightarrow> ctl_loop" where
  "ctl_loop_new ctl = \<lparr>cl_ctl = ctl, cl_answers = [], cl_status = CtlServing\<rparr>"

text \<open>
  An error of \<open>accept\<close> ends the loop, an error of \<open>handle_client\<close> (the answer cannot be written) is logged; a panic of
  the handler is one of the loop, and a body without end keeps the loop at its connection.
\<close>

definition ctl_serve ::
  "controller_env \<Rightarrow> (rstr option \<times> rstr option) tokenizer \<Rightarrow> (bytes \<Rightarrow> ((nat \<times> nat) option) res) \<Rightarrow>
   segments \<Rightarrow> file_io \<Rightarrow> unit res \<Rightarrow> ctl_loop \<Rightarrow> ctl_loop" where
  "ctl_serve E hp pcs ss io written l =
     (case handle_client E hp pcs io ss (cl_ctl l) of
        None \<Rightarrow> l\<lparr>cl_status := CtlWaitsForever\<rparr>
      | Some (Inl e) \<Rightarrow> l\<lparr>cl_status := CtlEnded e\<rparr>
      | Some (Inr (resp, ctl')) \<Rightarrow>
          l\<lparr>cl_ctl := ctl', cl_answers := (case written of Inr _ \<Rightarrow> cl_answers l @ [resp] | Inl _ \<Rightarrow> cl_answers l)\<rparr>)"

fun run_controller_step ::
  "controller_env \<Rightarrow> (rstr option \<times> rstr option) tokenizer \<Rightarrow> (bytes \<Rightarrow> ((nat \<times> nat) option) res) \<Rightarrow>
   ctl_event \<Rightarrow> ctl_loop \<Rightarrow> ctl_loop" where
  "run_controller_step E hp pcs ev l =
     (if cl_status l \<noteq> CtlServing then l
      else case ev of
             CtlAccept (Inl e) \<Rightarrow> l\<lparr>cl_status := CtlEnded e\<rparr>
           | CtlAccept (Inr (ss, io, written)) \<Rightarrow> ctl_serve E hp pcs ss io written l
           | CtlTraffic ref v \<Rightarrow> l\<lparr>cl_ctl := (cl_ctl l)\<lparr>ctl_counters := counter_inc ref v (ctl_counters (cl_ctl l))\<rparr>\<rparr>
           | CtlActivity now name latency \<Rightarrow>
               l\<lparr>cl_ctl := (cl_ctl l)\<lparr>ctl_counters :=
                   update_upstream now (ctl_stats (cl_ctl l)) name latency (ctl_counters (cl_ctl l))\<rparr>\<rparr>)"

definition run_controller ::
  "controller_env \<Rightarrow> (rstr option \<times> rstr option) tokenizer \<Rightarrow> (bytes \<Rightarrow> ((nat \<times> nat) option) res) \<Rightarrow>
   ctl_event list \<Rightarrow> controller \<Rightarrow> ctl_loop" where
  "run_controller E hp pcs evs ctl = fold (run_controller_step E hp pcs) evs (ctl_loop_new ctl)"

section \<open>Its states\<close>

text \<open>A connection whose request does not ask to replace everything.\<close>

definition keeps_stats :: "controller_env \<Rightarrow> (rstr option \<times> rstr option) tokenizer \<Rightarrow> ctl_event \<Rightarrow> bool" where
  "keeps_stats E hp ev =
     (case ev of
        CtlAccept (Inr (ss, _)) \<Rightarrow>
          (case parse_request hp ss (rwb_new (replicate 512 0)) of
             Inl _ \<Rightarrow> True
           | Inr st \<Rightarrow>
               (case http_path_from_str (ce_decode E) (hr_path (st_init st)) of
                  Inl _ \<Rightarrow> True
                | Inr path \<Rightarrow> get_query path (lit ''replace'') \<noteq> Some (lit ''all'')))
      | _ \<Rightarrow> True)"

lemma handle_client_reach:
  assumes "handle_client E hp pcs io ss ctl = Some (Inr (resp, ctl'))" and "keeps_stats E hp (CtlAccept (Inr (ss, io, w)))"
    and "ctl_reach (ce_config_yaml E) ctl"
  shows "ctl_reach (ce_config_yaml E) ctl'"
proof (cases "ctl' = ctl")
  case True
  then show ?thesis using assms(3) by simp
next
  case False
  then obtain st r where st: "parse_request hp ss (rwb_new (replicate 512 0)) = Inr st"
    and d: "dispatch E io (Inr (st_init st))
       (map_option (\<lambda>r. and_then r (\<lambda>(b, _). Inr b)) (http_body pcs (hr_headers (st_init st)) st)) ctl = Some (Inr (r, ctl'))"
    using assms(1) by (auto simp: handle_client_def dispatch_def res_simps and_then_Inr_conv split: sum.splits)
  show ?thesis
    by (rule dispatch_change[OF d False])
      (use assms(2,3) st in \<open>auto simp: keeps_stats_def intro: ctl_reach.config ctl_reach.update ctl_reach.delete\<close>)
qed

lemma run_controller_step_reach:
  assumes "keeps_stats E hp ev" and "ctl_reach (ce_config_yaml E) (cl_ctl l)"
  shows "ctl_reach (ce_config_yaml E) (cl_ctl (run_controller_step E hp pcs ev l))"
  using assms
  by (auto simp: ctl_serve_def intro: ctl_reach.traffic ctl_reach.activity handle_client_reach
      split: ctl_event.split sum.split option.split)

lemma run_controller_reach:
  assumes "list_all (keeps_stats E hp) evs" and "ctl_reach (ce_config_yaml E) ctl"
  shows "ctl_reach (ce_config_yaml E) (cl_ctl (run_controller E hp pcs evs ctl))"
  using assms unfolding run_controller_def
proof (induction evs rule: rev_induct)
  case Nil
  then show ?case by (simp add: ctl_loop_new_def)
next
  case (snoc ev evs)
  then show ?case using run_controller_step_reach by simp
qed

text \<open>A connection that is handled to its end on every state.\<close>

definition handled :: "controller_env \<Rightarrow> (rstr option \<times> rstr option) tokenizer \<Rightarrow> (bytes \<Rightarrow> ((nat \<times> nat) option) res) \<Rightarrow> ctl_event \<Rightarrow> bool" where
  "handled E hp pcs ev \<longleftrightarrow>
     (case ev of
        CtlAccept (Inl _) \<Rightarrow> False
      | CtlAccept (Inr (ss, io, _)) \<Rightarrow> (\<forall>ctl. \<exists>x. handle_client E hp pcs io ss ctl = Some (Inr x))
      | _ \<Rightarrow> True)"

fun answered :: "ctl_event \<Rightarrow> bool" where
  "answered (CtlAccept (Inr (_, _, Inr _))) = True"
| "answered _ = False"

lemma ctl_serve_handled:
  "\<forall>ctl. \<exists>x. handle_client E hp pcs io ss ctl = Some (Inr x) \<Longrightarrow>
   cl_status (ctl_serve E hp pcs ss io w l) = cl_status l \<and>
   length (cl_answers (ctl_serve E hp pcs ss io w l)) = length (cl_answers l) + (case w of Inr _ \<Rightarrow> 1 | Inl _ \<Rightarrow> 0)"
  by (drule spec[of _ "cl_ctl l"]) (auto simp: ctl_serve_def split: sum.split)

lemma run_controller_step_serving:
  assumes "handled E hp pcs ev" and "cl_status l = CtlServing"
  shows "cl_status (run_controller_step E hp pcs ev l) = CtlServing \<and>
     length (cl_answers (run_controller_step E hp pcs ev l)) = length (cl_answers l) + (if answered ev then 1 else 0)"
  using assms
  by (cases ev rule: answered.cases) (auto simp: handled_def ctl_serve_handled)

lemma run_controller_serving:
  assumes "list_all (handled E hp pcs) evs"
  shows "cl_status (run_controller E hp pcs evs ctl) = CtlServing \<and>
     length (cl_answers (run_controller E hp pcs evs ctl)) = length (filter answered evs)"
  using assms unfolding run_controller_def
proof (induction evs rule: rev_induct)
  case Nil
  then show ?case by (simp add: ctl_loop_new_def)
next
  case (snoc ev evs)
  then show ?case using run_controller_step_serving[of E hp pcs ev] by (simp del: run_controller_step.simps)
qed

section \<open>Properties\<close>



text \<open>
  A body whose reading panics (a short chunk that arrives together with the bytes behind it, \<open>short_chunk_panics\<close>) ends the
  controller: the handler runs inside the loop, so that the panic is not confined to its connection, and nothing is
  served afterwards.
\<close>

theorem chunked_request_ends_controller:
  assumes "parse_request hp ss (rwb_new (replicate 512 0)) = Inr st" and "hr_method (st_init st) = lit ''POST''"
    and "http_path_from_str (ce_decode E) (hr_path (st_init st)) = Inr path" and "hp_path path = lit ''/api/upstream''"
    and "get_content_type (hr_headers (st_init st)) = Some (lit ''application/json'')"
    and "get_content_length (hr_headers (st_init st)) = None"
    and "get_header_text (hr_headers (st_init st)) (lit ''transfer-encoding'') = Some (lit ''chunked'')"
    and "http_read 8 st = Inr (out, st1)" and "out \<noteq> []" and "length out \<le> 8"
    and "pcs out = Inr (Some (offset, len))" and "0 < len" and "offset + len < length out"
  shows "run_controller E hp pcs (CtlAccept (Inr (ss, io, w)) # evs) ctl =
     \<lparr>cl_ctl = ctl, cl_answers = [], cl_status = CtlEnded (Panic ''attempt to subtract with overflow'')\<rparr>"
proof -
  have j: "starts_with (map to_lower (lit ''application/json'')) (lit ''application/json'')" by code_simp
  have "handle_client E hp pcs io ss ctl = Some (Inl (Panic ''attempt to subtract with overflow''))"
    using assms(1-5) short_chunk_panics[where pcs = pcs, OF assms(6-13)] j
    by (simp add: handle_client_def dispatch_def body_json_or_yaml_def with_body_def Let_def)
  then have "run_controller_step E hp pcs (CtlAccept (Inr (ss, io, w))) (ctl_loop_new ctl) =
      \<lparr>cl_ctl = ctl, cl_answers = [], cl_status = CtlEnded (Panic ''attempt to subtract with overflow'')\<rparr>" (is "_ = ?l")
    by (simp add: ctl_serve_def ctl_loop_new_def)
  moreover have "fold (run_controller_step E hp pcs) evs ?l = ?l" by (induction evs) simp_all
  ultimately show ?thesis by (simp add: run_controller_def del: run_controller_step.simps)
qed

end
