(* ===== verification/Fire_Tcp.thy ===== *)
theory Fire_Tcp
  imports Cipher_Stream
begin

text \<open>
  The FireTCP protocol: length-prefixed JSON objects (src/utils.rs), the half streams that
  switch from an initial cipher to an established one after a fixed number of bytes
  (src/protocol/firetcp/cipher/read.rs, write.rs), and the requests of client and server
  (proto.rs, server.rs). The program uses ChaCha20 for both ciphers; their key streams are the
  arguments \<open>ki\<close> (initial) and \<open>ke\<close> (established). The JSON library is a parameter.
\<close>

section \<open>Length-prefixed objects\<close>

definition write_lengthed :: "('a \<Rightarrow> bytes res) \<Rightarrow> bytes \<Rightarrow> 'a \<Rightarrow> bytes res" where
  "write_lengthed enc buf x =
     and_then (enc x) (\<lambda>json.
       if 65535 < length json then Inl (Err ''Object is too big'')
       else Inr (buf @ be16 (of_nat (length json)) @ json))"

definition read_lengthed :: "(bytes \<Rightarrow> 'a res) \<Rightarrow> bytes \<Rightarrow> ('a \<times> bytes) res" where
  "read_lengthed dec r =
     and_then (read_exact 2 r) (\<lambda>(l, r1).
     and_then (read_exact (unat (from_be l :: u16)) r1) (\<lambda>(buf, r2).
     and_then (dec buf) (\<lambda>x. Inr (x, r2))))"

section \<open>The half streams\<close>

datatype fire_state = FInit nat chacha20 | FEst "chacha20 option"

record fire_read =
  fr_establish :: "chacha20 option"
  fr_state :: fire_state

record fire_write =
  fw_buf :: nat
  fw_establish :: "chacha20 option"
  fw_state :: fire_state

definition fire_read_new :: "nat \<Rightarrow> chacha20 \<Rightarrow> fire_read" where
  "fire_read_new initial_size c = \<lparr>fr_establish = None, fr_state = FInit initial_size c\<rparr>"

definition fire_write_new :: "nat \<Rightarrow> chacha20 \<Rightarrow> fire_write" where
  "fire_write_new initial_size c =
     \<lparr>fw_buf = max initial_size 512, fw_establish = None, fw_state = FInit initial_size c\<rparr>"

definition fire_read_set_establish :: "chacha20 option \<Rightarrow> fire_read \<Rightarrow> fire_read res" where
  "fire_read_set_establish c s =
     (case fr_state s of
        FEst _ \<Rightarrow> Inl (Err ''Connection already established, too late for cipher change'')
      | FInit _ _ \<Rightarrow> Inr (s\<lparr>fr_establish := c\<rparr>))"

definition fire_write_set_establish :: "chacha20 option \<Rightarrow> fire_write \<Rightarrow> fire_write res" where
  "fire_write_set_establish c s =
     (case fw_state s of
        FEst _ \<Rightarrow> Inl (Err ''Connection already established, too late for cipher change'')
      | FInit _ _ \<Rightarrow> Inr (s\<lparr>fw_establish := c\<rparr>))"

text \<open>The length of the slice that \<open>poll_read\<close> hands to the underlying reader.\<close>

definition fire_read_slice :: "fire_read \<Rightarrow> nat \<Rightarrow> nat" where
  "fire_read_slice s cap = (case fr_state s of FInit left _ \<Rightarrow> min cap left | FEst _ \<Rightarrow> cap)"

definition fire_poll_read ::
  "(nat \<Rightarrow> u8) \<Rightarrow> (nat \<Rightarrow> u8) \<Rightarrow> fire_read \<Rightarrow> nat \<Rightarrow> bytes res poll \<Rightarrow> bytes res poll \<times> fire_read" where
  "fire_poll_read ki ke s cap io =
     (if cap = 0 then (Ready (Inr []), s)
      else case io of
        Ready (Inr data) \<Rightarrow>
          (case fr_state s of
             FInit bytes_left c \<Rightarrow>
               (let (c', out) = chacha_apply ki c data; left = bytes_left - length data
                in (Ready (Inr out),
                    if left = 0 then s\<lparr>fr_state := FEst (fr_establish s), fr_establish := None\<rparr>
                    else s\<lparr>fr_state := FInit left c'\<rparr>))
           | FEst (Some c) \<Rightarrow>
               (let (c', out) = chacha_apply ke c data in (Ready (Inr out), s\<lparr>fr_state := FEst (Some c')\<rparr>))
           | FEst None \<Rightarrow> (io, s))
      | _ \<Rightarrow> (io, s))"

text \<open>The bytes that \<open>poll_write\<close> offers to the underlying writer.\<close>

definition fire_write_offer :: "fire_write \<Rightarrow> bytes \<Rightarrow> nat" where
  "fire_write_offer s buf =
     (case fw_state s of
        FInit left _ \<Rightarrow> min (length buf) left
      | FEst (Some _) \<Rightarrow> min (length buf) (fw_buf s)
      | FEst None \<Rightarrow> length buf)"

text \<open>
  \<open>poll_write\<close>. The cipher is applied before the write; \<open>ready!\<close> and \<open>?\<close> leave the function on a
  pending or failed write with the cipher advanced.
\<close>

definition fire_poll_write ::
  "(nat \<Rightarrow> u8) \<Rightarrow> (nat \<Rightarrow> u8) \<Rightarrow> fire_write \<Rightarrow> bytes \<Rightarrow> nat res poll \<Rightarrow> (nat res poll \<times> bytes \<times> fire_write) res" where
  "fire_poll_write ki ke s buf io =
     (if length buf = 0 then Inr (Ready (Inr 0), [], s)
      else (let len = fire_write_offer s buf
            in case fw_state s of
                 FInit bytes_left c \<Rightarrow>
                   (let (c1, output) = chacha_apply ki c (take len buf)
                    in case io of
                         Ready (Inr written) \<Rightarrow>
                           and_then (if written < len then chacha_rewind c1 (len - written) else Inr c1) (\<lambda>c2.
                             let left = bytes_left - written
                             in Inr (io, take written output,
                                     if left = 0 then s\<lparr>fw_state := FEst (fw_establish s), fw_establish := None\<rparr>
                                     else s\<lparr>fw_state := FInit left c2\<rparr>))
                       | _ \<Rightarrow> Inr (io, [], s\<lparr>fw_state := FInit bytes_left c1\<rparr>))
               | FEst (Some c) \<Rightarrow>
                   (let (c1, output) = chacha_apply ke c (take len buf)
                    in case io of
                         Ready (Inr written) \<Rightarrow>
                           and_then (if written < len then chacha_rewind c1 (len - written) else Inr c1) (\<lambda>c2.
                             Inr (io, take written output, s\<lparr>fw_state := FEst (Some c2)\<rparr>))
                       | _ \<Rightarrow> Inr (io, [], s\<lparr>fw_state := FEst (Some c1)\<rparr>))
               | FEst None \<Rightarrow>
                   (case io of Ready (Inr written) \<Rightarrow> Inr (io, take written buf, s) | _ \<Rightarrow> Inr (io, [], s))))"

text \<open>\<open>read_exact\<close> on the half stream over a connection that delivers all it has.\<close>

function fire_read_exact ::
  "(nat \<Rightarrow> u8) \<Rightarrow> (nat \<Rightarrow> u8) \<Rightarrow> fire_read \<Rightarrow> nat \<Rightarrow> bytes \<Rightarrow> (bytes \<times> fire_read \<times> bytes) res" where
  "fire_read_exact ki ke s n input =
     (if n = 0 then Inr ([], s, input)
      else (let data = take (fire_read_slice s n) input
            in if data = [] then Inl (Err ''UnexpectedEof'')
               else case fire_poll_read ki ke s n (Ready (Inr data)) of
                      (Ready (Inr out), s') \<Rightarrow>
                        and_then (fire_read_exact ki ke s' (n - length data) (drop (length data) input))
                          (\<lambda>(more, s'', rest). Inr (out @ more, s'', rest))
                    | (_, s') \<Rightarrow> Inl (Err ''UnexpectedEof'')))"
  by pat_completeness auto
termination
  by (relation "measure (\<lambda>(ki, ke, s, n, i). n)") (auto simp: Let_def)

declare fire_read_exact.simps [simp del]

section \<open>Client and server\<close>

definition INITIAL_CIPHER_LEN :: nat where
  "INITIAL_CIPHER_LEN = 512"

record fire_request =
  fq_addr :: address
  fq_initial_data_len :: nat
  fq_est_cipher :: "(bytes \<times> bytes) option"

text \<open>
  \<open>FireTcp::new_stream\<close>: the write half, ready to send, and the bytes handed to it: the request
  and the initial data. \<open>key\<close> and \<open>nonce\<close> are the random ones.
\<close>

definition fire_new_stream ::
  "(fire_request \<Rightarrow> bytes res) \<Rightarrow> bytes \<Rightarrow> bytes \<Rightarrow> address \<Rightarrow> bytes option \<Rightarrow> (fire_write \<times> bytes) res" where
  "fire_new_stream enc key nonce dst initial_data =
     (let w = fire_write_new INITIAL_CIPHER_LEN \<lparr>pos = 0\<rparr>;
          est = (if get_port dst = 443 then None else Some (key, nonce))
      in and_then (in_context ''Unable to set establish cipher''
                    (fire_write_set_establish (map_option (\<lambda>_. \<lparr>pos = 0\<rparr>) est) w)) (\<lambda>w.
         and_then (in_context ''Unable to send request''
                    (write_lengthed enc [] \<lparr>fq_addr = dst,
                       fq_initial_data_len = (case initial_data of Some d \<Rightarrow> length d | None \<Rightarrow> 0),
                       fq_est_cipher = est\<rparr>)) (\<lambda>req.
           Inr (w, req @ (case initial_data of Some d \<Rightarrow> d | None \<Rightarrow> [])))))"

text \<open>
  \<open>serve\<close> up to the connection to the upstream: the request, the read half and the bytes still
  on the wire. The key stream of the established cipher only matters once it is set.
\<close>

definition fire_serve ::
  "(bytes \<Rightarrow> fire_request res) \<Rightarrow> (nat \<Rightarrow> u8) \<Rightarrow> (nat \<Rightarrow> u8) \<Rightarrow> bytes \<Rightarrow> (fire_request \<times> fire_read \<times> bytes) res" where
  "fire_serve dec ki ke wire =
     and_then (in_context ''Reading request''
      (and_then (fire_read_exact ki ke (fire_read_new INITIAL_CIPHER_LEN \<lparr>pos = 0\<rparr>) 2 wire) (\<lambda>(l, s1, w1).
       and_then (fire_read_exact ki ke s1 (unat (from_be l :: u16)) w1) (\<lambda>(buf, s2, w2).
       and_then (dec buf) (\<lambda>req. Inr (req, s2, w2)))))
     ) (\<lambda>(req, s2, w2).
       and_then (in_context ''Unable to change est cipher''
                  (fire_read_set_establish (map_option (\<lambda>_. \<lparr>pos = 0\<rparr>) (fq_est_cipher req)) s2)) (\<lambda>s3.
         Inr (req, s3, w2)))"

section \<open>The mask of a half stream\<close>

text \<open>
  The first \<open>N\<close> bytes are under the initial key stream; the others under the established one,
  from its start, when there is one (\<open>est\<close>), and plain otherwise.
\<close>

definition fire_mask :: "nat \<Rightarrow> (nat \<Rightarrow> u8) \<Rightarrow> (nat \<Rightarrow> u8) \<Rightarrow> bool \<Rightarrow> nat \<Rightarrow> u8" where
  "fire_mask N ki ke est i = (if i < N then ki i else if est then ke (i - N) else 0)"

definition fire_at :: "nat \<Rightarrow> bool \<Rightarrow> chacha20 option \<Rightarrow> fire_state \<Rightarrow> nat \<Rightarrow> bool" where
  "fire_at N est estc st p =
     (case st of
        FInit left c \<Rightarrow> p < N \<and> left = N - p \<and> pos c = p \<and> estc = (if est then Some \<lparr>pos = 0\<rparr> else None)
      | FEst (Some c) \<Rightarrow> est \<and> N \<le> p \<and> pos c = p - N
      | FEst None \<Rightarrow> \<not> est \<and> N \<le> p)"

lemma fire_mask_initial:
  "p + length bs \<le> N \<Longrightarrow> xor_at (fire_mask N ki ke est) p bs = xor_at ki p bs"
  by (rule xor_at_cong) (simp add: fire_mask_def)

lemma xor_at_shift: "xor_at m (k + p) bs = xor_at (\<lambda>i. m (k + i)) p bs"
  by (induction bs arbitrary: p) (auto simp flip: add_Suc_right)

lemma fire_mask_established:
  assumes "N \<le> p"
  shows "xor_at (fire_mask N ki ke True) p bs = xor_at ke (p - N) bs"
    and "xor_at (fire_mask N ki ke False) p bs = bs"
proof -
  have "xor_at (fire_mask N ki ke True) (N + (p - N)) bs = xor_at (\<lambda>i. fire_mask N ki ke True (N + i)) (p - N) bs"
    by (rule xor_at_shift)
  moreover have "(\<lambda>i. fire_mask N ki ke True (N + i)) = ke" by (auto simp: fire_mask_def)
  ultimately show "xor_at (fire_mask N ki ke True) p bs = xor_at ke (p - N) bs" using assms by simp
  show "xor_at (fire_mask N ki ke False) p bs = bs"
    using assms by (intro xor_at_zero) (simp add: fire_mask_def)
qed

lemma fire_poll_write_taken:
  assumes at: "fire_at N est (fw_establish s) (fw_state s) p" and k: "k \<le> fire_write_offer s buf" and ne: "buf \<noteq> []"
  shows "\<exists>s'. fire_poll_write ki ke s buf (Ready (Inr k)) =
      Inr (Ready (Inr k), xor_at (fire_mask N ki ke est) p (take k buf), s') \<and>
      fire_at N est (fw_establish s') (fw_state s') (p + k)"
proof (cases "fw_state s")
  case (FInit left c)
  have f: "p < N" "left = N - p" "pos c = p" "fw_establish s = (if est then Some \<lparr>pos = 0\<rparr> else None)"
    "k \<le> length buf" "k \<le> N - p"
    using at k FInit by (auto simp: fire_at_def fire_write_offer_def)
  have "xor_at (fire_mask N ki ke est) p (take k buf) = xor_at ki p (take k buf)"
    using f by (intro fire_mask_initial) simp
  moreover have "min k (fire_write_offer s buf) = k" using k by simp
  ultimately show ?thesis
    using FInit ne f k
    by (cases "p + k = N") (auto simp: fire_poll_write_def Let_def chacha_apply_def chacha_rewind_def take_xor_at
        fire_at_def fire_write_offer_def min_def)
next
  case (FEst e)
  show ?thesis
  proof (cases e)
    case None
    then have "\<not> est" "N \<le> p" using at FEst by (auto simp: fire_at_def)
    then show ?thesis
      using FEst None ne fire_mask_established(2)[of N p ki ke]
      by (auto simp: fire_poll_write_def fire_at_def)
  next
    case (Some c)
    then have f: "est" "N \<le> p" "pos c = p - N" using at FEst by (auto simp: fire_at_def)
    moreover have "min k (fire_write_offer s buf) = k" "k \<le> length buf"
      using k FEst Some by (auto simp: fire_write_offer_def)
    ultimately show ?thesis
      using FEst Some ne k fire_mask_established(1)[OF f(2), of ki ke]
      by (auto simp: fire_poll_write_def Let_def chacha_apply_def chacha_rewind_def take_xor_at fire_at_def
          fire_write_offer_def min_def)
  qed
qed

lemma fire_poll_read_data:
  assumes at: "fire_at N est (fr_establish s) (fr_state s) p" and d: "length data \<le> fire_read_slice s cap" and ne: "data \<noteq> []"
  shows "\<exists>s'. fire_poll_read ki ke s cap (Ready (Inr data)) =
      (Ready (Inr (xor_at (fire_mask N ki ke est) p data)), s') \<and>
      fire_at N est (fr_establish s') (fr_state s') (p + length data)"
proof (cases "fr_state s")
  case (FInit left c)
  have f: "p < N" "left = N - p" "pos c = p" "fr_establish s = (if est then Some \<lparr>pos = 0\<rparr> else None)"
    "length data \<le> N - p" "length data \<le> cap"
    using at d FInit by (auto simp: fire_at_def fire_read_slice_def)
  have "cap \<noteq> 0" using f(6) ne by (metis le_zero_eq length_0_conv)
  moreover have "xor_at (fire_mask N ki ke est) p data = xor_at ki p data"
    using f by (intro fire_mask_initial) simp
  ultimately show ?thesis
    using FInit ne f
    by (cases "p + length data = N") (auto simp: fire_poll_read_def Let_def chacha_apply_def fire_at_def)
next
  case (FEst e)
  then have "cap \<noteq> 0" using d ne by (cases cap) (auto simp: fire_read_slice_def)
  then show ?thesis
    using FEst at fire_mask_established[of N p ki ke data]
    by (cases e) (auto simp: fire_poll_read_def chacha_apply_def fire_at_def)
qed

lemma fire_slice_pos: "fire_at N est (fr_establish s) (fr_state s) p \<Longrightarrow> 0 < n \<Longrightarrow> 0 < fire_read_slice s n \<and> fire_read_slice s n \<le> n"
  by (auto simp: fire_at_def fire_read_slice_def split: fire_state.splits)

lemma fire_read_exact_data:
  assumes "fire_at N est (fr_establish s) (fr_state s) p" and "n \<le> length input"
  shows "\<exists>s'. fire_read_exact ki ke s n input =
      Inr (xor_at (fire_mask N ki ke est) p (take n input), s', drop n input) \<and>
      fire_at N est (fr_establish s') (fr_state s') (p + n)"
  using assms
proof (induction n arbitrary: s p input rule: less_induct)
  case (less n)
  show ?case
  proof (cases "n = 0")
    case True
    then show ?thesis using less.prems by (simp add: fire_read_exact.simps)
  next
    case False
    define k where "k = fire_read_slice s n"
    have k: "0 < k" "k \<le> n" using fire_slice_pos[OF less.prems(1)] False by (auto simp: k_def)
    let ?data = "take k input" and ?m = "fire_mask N ki ke est"
    have data: "?data \<noteq> []" "length ?data = k" using k less.prems(2) by auto
    obtain s1 where s1: "fire_poll_read ki ke s n (Ready (Inr ?data)) = (Ready (Inr (xor_at ?m p ?data)), s1)"
        "fire_at N est (fr_establish s1) (fr_state s1) (p + k)"
      using fire_poll_read_data[OF less.prems(1) _ data(1), of n ki ke] data(2) by (auto simp: k_def)
    obtain s2 where s2: "fire_read_exact ki ke s1 (n - k) (drop k input) =
        Inr (xor_at ?m (p + k) (take (n - k) (drop k input)), s2, drop (n - k) (drop k input))"
        "fire_at N est (fr_establish s2) (fr_state s2) (p + k + (n - k))"
      using less.IH[OF _ s1(2), of "n - k" "drop k input"] k diff_le_mono[OF less.prems(2), of k] by auto
    have "take n input = ?data @ take (n - k) (drop k input)"
      using k(2) by (metis le_add_diff_inverse take_add)
    then have "xor_at ?m p (take n input) = xor_at ?m p ?data @ xor_at ?m (p + k) (take (n - k) (drop k input))"
      using data(2) by (simp add: xor_at_append)
    moreover have "fire_read_exact ki ke s n input =
        Inr (xor_at ?m p ?data @ xor_at ?m (p + k) (take (n - k) (drop k input)), s2, drop n input)"
      using False data s1(1) s2(1) k by (subst fire_read_exact.simps) (simp add: k_def[symmetric] Let_def)
    ultimately show ?thesis using s2(2) k by auto
  qed
qed

text \<open>Writes none of which is pending.\<close>

inductive fire_write_run for ki ke where
  fw_start: "fire_write_run ki ke s [] [] s"
| fw_taken: "fire_write_run ki ke s0 acc wire s \<Longrightarrow> buf \<noteq> [] \<Longrightarrow> k \<le> fire_write_offer s buf \<Longrightarrow>
    fire_poll_write ki ke s buf (Ready (Inr k)) = Inr (r, out, s') \<Longrightarrow>
    fire_write_run ki ke s0 (acc @ take k buf) (wire @ out) s'"

lemma fire_offer_le: "fire_write_offer s buf \<le> length buf"
  by (auto simp: fire_write_offer_def split: fire_state.split option.split)

lemma fire_write_run_wire:
  "fire_write_run ki ke s0 acc wire s \<Longrightarrow> fire_at N est (fw_establish s0) (fw_state s0) 0 \<Longrightarrow>
   wire = xor_at (fire_mask N ki ke est) 0 acc \<and> fire_at N est (fw_establish s) (fw_state s) (length acc)"
proof (induction rule: fire_write_run.induct)
  case (fw_taken s0 acc wire s buf k r out s')
  have "k \<le> length buf" using fw_taken.hyps(3) fire_offer_le le_trans by blast
  then show ?case
    using fw_taken fire_poll_write_taken[of N est s "length acc" k buf ki ke]
    by (auto simp: xor_at_append min_absorb1)
qed simp

lemma fire_new_stream_state:
  assumes "fire_new_stream enc key nonce dst init = Inr (w, sent)"
  obtains est json where
    "fire_at 512 est (fw_establish w) (fw_state w) 0" "est \<longleftrightarrow> get_port dst \<noteq> 443"
    "enc \<lparr>fq_addr = dst, fq_initial_data_len = (case init of Some d \<Rightarrow> length d | None \<Rightarrow> 0),
          fq_est_cipher = (if est then Some (key, nonce) else None)\<rparr> = Inr json"
    "length json < 65536" "sent = be16 (of_nat (length json)) @ json @ (case init of Some d \<Rightarrow> d | None \<Rightarrow> [])"
proof -
  let ?est = "get_port dst \<noteq> 443"
  let ?q = "\<lparr>fq_addr = dst, fq_initial_data_len = (case init of Some d \<Rightarrow> length d | None \<Rightarrow> 0),
      fq_est_cipher = (if ?est then Some (key, nonce) else None)\<rparr>"
  obtain json where "enc ?q = Inr json"
    using assms
    by (cases "get_port dst = 443")
      (auto simp: fire_new_stream_def write_lengthed_def and_then_Inr_conv in_context_Inr_conv Let_def)
  then show thesis
    using assms
    by (intro that[of ?est json])
      (auto simp: fire_new_stream_def fire_write_set_establish_def fire_write_new_def write_lengthed_def
        INITIAL_CIPHER_LEN_def fire_at_def Let_def split: if_splits)
qed

text \<open>The server on the wire of a client: it first decrypts the length, then the request.\<close>

lemma fire_serve_eq:
  assumes "length json < 65536" and "wire = xor_at (fire_mask 512 ki ke est) 0 (be16 (of_nat (length json)) @ json @ later)"
  obtains s2 where
    "fire_at 512 False (fr_establish s2) (fr_state s2) (2 + length json)"
    "fire_serve dec ki ke wire =
       and_then (in_context ''Reading request'' (dec (xor_at (fire_mask 512 ki ke False) 2 (take (length json) (drop 2 wire)))))
         (\<lambda>req. and_then (in_context ''Unable to change est cipher''
            (fire_read_set_establish (map_option (\<lambda>_. \<lparr>pos = 0\<rparr>) (fq_est_cipher req)) s2))
          (\<lambda>s3. Inr (req, s3, drop (2 + length json) wire)))"
proof -
  let ?s0 = "fire_read_new INITIAL_CIPHER_LEN \<lparr>pos = 0\<rparr>" and ?m = "fire_mask 512 ki ke False"
  have at0: "fire_at 512 False (fr_establish ?s0) (fr_state ?s0) 0"
    by (simp add: fire_at_def fire_read_new_def INITIAL_CIPHER_LEN_def)
  have len: "length wire = 2 + length json + length later" by (simp add: assms(2))
  obtain s1 where s1: "fire_read_exact ki ke ?s0 2 wire = Inr (xor_at ?m 0 (take 2 wire), s1, drop 2 wire)"
      "fire_at 512 False (fr_establish s1) (fr_state s1) (0 + 2)"
    using fire_read_exact_data[OF at0, of 2 wire ki ke] len by auto
  have "take 2 wire = xor_at ki 0 (be16 (of_nat (length json)))"
    using fire_mask_initial[of 0 "be16 (of_nat (length json))" 512 ki ke est] by (simp add: assms(2) take_xor_at)
  then have hdr: "xor_at ?m 0 (take 2 wire) = be16 (of_nat (length json))"
    using fire_mask_initial[of 0 "xor_at ki 0 (be16 (of_nat (length json)))" 512 ki ke False] by simp
  obtain s2 where s2: "fire_read_exact ki ke s1 (length json) (drop 2 wire) =
      Inr (xor_at ?m 2 (take (length json) (drop 2 wire)), s2, drop (length json) (drop 2 wire))"
      "fire_at 512 False (fr_establish s2) (fr_state s2) (0 + 2 + length json)"
    using fire_read_exact_data[OF s1(2), of "length json" "drop 2 wire" ki ke] len by (auto simp: numeral_2_eq_2)
  have "unat (from_be (be16 (of_nat (length json))) :: u16) = length json" using assms(1) by (simp add: unat_of_nat)
  then show thesis
    using s1(1) s2 hdr
    by (intro that[of s2])
      (auto simp: fire_serve_def in_context_def and_then_def ac_simps split: sum.splits fault.splits)
qed

text \<open>
  A FireTCP session works for any two key streams the two sides share: for a JSON library that decodes what it encoded and a request that
  encodes to fewer than 510 bytes, whatever short writes the network forces (but no pending
  ones), the server obtains the client's request with the destination and then, reading on
  with the established cipher, exactly the initial data and all further bytes of the client.
\<close>

lemma fire_session_keyed:
  assumes "\<forall>q j. enc q = Inr j \<longrightarrow> dec j = Inr q"
    and "fire_new_stream enc key nonce dst init = Inr (w, sent)"
    and "length sent - (case init of Some d \<Rightarrow> length d | None \<Rightarrow> 0) < 512"
    and "fire_write_run ki ke w (sent @ later) wire w'"
  shows "\<exists>req s rest. fire_serve dec ki ke wire = Inr (req, s, rest) \<and> fq_addr req = dst \<and>
     fq_est_cipher req = (if get_port dst = 443 then None else Some (key, nonce)) \<and>
     (let payload = (case init of Some d \<Rightarrow> d | None \<Rightarrow> []) @ later in
      length rest = length payload \<and>
      (\<forall>n \<le> length payload. \<exists>s'. fire_read_exact ki ke s n rest = Inr (take n payload, s', drop n rest)))"
proof -
  obtain est json where est: "est \<longleftrightarrow> get_port dst \<noteq> 443" and st: "fire_at 512 est (fw_establish w) (fw_state w) 0"
    "enc \<lparr>fq_addr = dst, fq_initial_data_len = (case init of Some d \<Rightarrow> length d | None \<Rightarrow> 0),
          fq_est_cipher = (if est then Some (key, nonce) else None)\<rparr> = Inr json" (is "enc ?q = _")
    "length json < 65536" "sent = be16 (of_nat (length json)) @ json @ (case init of Some d \<Rightarrow> d | None \<Rightarrow> [])"
    by (rule fire_new_stream_state[OF assms(2)])
  define payload where "payload = (case init of Some d \<Rightarrow> d | None \<Rightarrow> []) @ later"
  let ?m = "fire_mask 512 ki ke est"
  have short: "2 + length json < 512" using assms(3) st(4) by (simp split: option.splits)
  have wire: "wire = xor_at ?m 0 (be16 (of_nat (length json)) @ json @ payload)"
    using fire_write_run_wire[OF assms(4) st(1)] st(4) by (simp add: payload_def)
  obtain s2 where s2: "fire_at 512 False (fr_establish s2) (fr_state s2) (2 + length json)"
    "fire_serve dec ki ke wire =
       and_then (in_context ''Reading request'' (dec (xor_at (fire_mask 512 ki ke False) 2 (take (length json) (drop 2 wire)))))
         (\<lambda>req. and_then (in_context ''Unable to change est cipher''
            (fire_read_set_establish (map_option (\<lambda>_. \<lparr>pos = 0\<rparr>) (fq_est_cipher req)) s2))
          (\<lambda>s3. Inr (req, s3, drop (2 + length json) wire)))"
    by (rule fire_serve_eq[OF st(3) wire])
  have "take (length json) (drop 2 wire) = xor_at ki 2 json"
    using fire_mask_initial[of 2 json 512 ki ke est] short by (simp add: wire drop_xor_at take_xor_at numeral_2_eq_2)
  then have json: "xor_at (fire_mask 512 ki ke False) 2 (take (length json) (drop 2 wire)) = json"
    using fire_mask_initial[of 2 "xor_at ki 2 json" 512 ki ke False] short by simp
  have dec: "dec json = Inr ?q" using assms(1) st(2) by blast
  define s3 where "s3 = s2\<lparr>fr_establish := (if est then Some \<lparr>pos = 0\<rparr> else None)\<rparr>"
  have at3: "fire_at 512 est (fr_establish s3) (fr_state s3) (2 + length json)"
    and set: "fire_read_set_establish (map_option (\<lambda>_. \<lparr>pos = 0\<rparr>) (fq_est_cipher ?q)) s2 = Inr s3"
    using s2(1) short
    by (auto simp: fire_at_def s3_def fire_read_set_establish_def split: fire_state.splits option.splits)
  define rest where "rest = drop (2 + length json) wire"
  have rest: "rest = xor_at ?m (2 + length json) payload"
    by (simp add: rest_def wire drop_xor_at)
  have "\<exists>s'. fire_read_exact ki ke s3 n rest = Inr (take n payload, s', drop n rest)" if "n \<le> length payload" for n
    using fire_read_exact_data[OF at3, of n rest ki ke] that by (auto simp: rest take_xor_at)
  moreover have "fire_serve dec ki ke wire = Inr (?q, s3, rest)"
    unfolding s2(2) json dec using set by (simp add: rest_def)
  moreover have "length rest = length payload" by (simp add: rest)
  ultimately show ?thesis by (intro exI[of _ ?q] exI[of _ s3] exI[of _ rest]) (simp add: payload_def est)
qed

section \<open>Properties\<close>

text \<open>A JSON library that satisfies the hypothesis, for requests to one fixed destination.\<close>

definition demo_req :: fire_request where
  "demo_req = \<lparr>fq_addr = IP (SockV4 1 443), fq_initial_data_len = 2, fq_est_cipher = None\<rparr>"

definition demo_req_enc :: "fire_request \<Rightarrow> bytes res" where
  "demo_req_enc q = (if q = demo_req then Inr [7, 8] else Inl (Err ''json''))"

definition demo_req_dec :: "bytes \<Rightarrow> fire_request res" where
  "demo_req_dec b = (if b = [7, 8] then Inr demo_req else Inl (Err ''json''))"

text \<open>
  Requests that encode to 510 bytes or more cannot be served: the server has by then left the
  initial phase and refuses to set the cipher the client uses, whatever the rest of the wire
  and the JSON decoder.
\<close>

theorem fire_long_request_refused:
  assumes "fire_new_stream enc key nonce dst init = Inr (w, sent)"
    and "512 \<le> length sent - (case init of Some d \<Rightarrow> length d | None \<Rightarrow> 0)"
    and "fire_write_run ki ke w (sent @ later) wire w'"
  shows "\<not> is_ok (fire_serve dec ki ke wire)"
proof -
  obtain est json where st: "fire_at 512 est (fw_establish w) (fw_state w) 0"
    "length json < 65536" "sent = be16 (of_nat (length json)) @ json @ (case init of Some d \<Rightarrow> d | None \<Rightarrow> [])"
    by (rule fire_new_stream_state[OF assms(1)])
  have long: "512 \<le> 2 + length json" using assms(2) st(3) by (simp split: option.splits)
  have wire: "wire = xor_at (fire_mask 512 ki ke est) 0
      (be16 (of_nat (length json)) @ json @ (case init of Some d \<Rightarrow> d | None \<Rightarrow> []) @ later)"
    using fire_write_run_wire[OF assms(3) st(1)] st(3) by simp
  obtain s2 where s2: "fire_at 512 False (fr_establish s2) (fr_state s2) (2 + length json)"
    "fire_serve dec ki ke wire =
       and_then (in_context ''Reading request'' (dec (xor_at (fire_mask 512 ki ke False) 2 (take (length json) (drop 2 wire)))))
         (\<lambda>req. and_then (in_context ''Unable to change est cipher''
            (fire_read_set_establish (map_option (\<lambda>_. \<lparr>pos = 0\<rparr>) (fq_est_cipher req)) s2))
          (\<lambda>s3. Inr (req, s3, drop (2 + length json) wire)))"
    by (rule fire_serve_eq[OF st(2) wire])
  have "\<exists>e. fr_state s2 = FEst e" using s2(1) long by (auto simp: fire_at_def split: fire_state.splits)
  then show ?thesis
    unfolding s2(2) by (auto simp: fire_read_set_establish_def and_then_def split: sum.split)
qed

theorem fire_long_request_refused_witness:
  "\<not> is_ok (fire_serve (\<lambda>b. Inr demo_req) (\<lambda>_. 0) (\<lambda>_. 0) ([1, 254] @ replicate 510 7))"
proof -
  let ?w = "fire_write_new INITIAL_CIPHER_LEN \<lparr>pos = 0\<rparr>" and ?buf = "[1, 254] @ replicate 510 7 :: bytes"
  have hdr: "be16 (of_nat 510) = [1, 254]" by code_simp
  have new: "fire_new_stream (\<lambda>q. Inr (replicate 510 7)) [] [] (IP (SockV4 1 443)) None = Inr (?w, ?buf)"
    using hdr by (simp add: fire_new_stream_def fire_write_set_establish_def fire_write_new_def write_lengthed_def Let_def)
  have "fire_poll_write (\<lambda>_. 0) (\<lambda>_. 0) ?w ?buf (Ready (Inr 512)) =
      Inr (Ready (Inr 512), ?buf, ?w\<lparr>fw_state := FEst None\<rparr>)"
    using xor_at_zero[of 0 "\<lambda>_. 0" ?buf]
    by (simp add: fire_poll_write_def fire_write_offer_def fire_write_new_def INITIAL_CIPHER_LEN_def chacha_apply_def Let_def)
  then have "fire_write_run (\<lambda>_. 0) (\<lambda>_. 0) ?w ([] @ take 512 ?buf) ([] @ ?buf) (?w\<lparr>fw_state := FEst None\<rparr>)"
    by (rule fw_taken[OF fw_start, rotated 2])
      (simp_all add: fire_write_offer_def fire_write_new_def INITIAL_CIPHER_LEN_def)
  then show ?thesis using fire_long_request_refused[OF new, of "\<lambda>_. 0" "\<lambda>_. 0" "[]"] by simp
qed

text \<open>
  A pending write breaks the encryption: the cipher stays advanced by what was offered, so that
  the retry of the same buffer goes out under the wrong part of the key stream.
\<close>

theorem fire_pending_desync:
  assumes "fw_state s = FInit left c" and "buf \<noteq> []" and "2 * length buf \<le> left"
    and "fire_poll_write ki ke s buf Pending = Inr (r, out, s')"
  shows "\<exists>s''. fire_poll_write ki ke s' buf (Ready (Inr (length buf))) =
     Inr (Ready (Inr (length buf)), xor_at ki (pos c + length buf) buf, s'')"
proof -
  have "s' = s\<lparr>fw_state := FInit left (c\<lparr>pos := pos c + length buf\<rparr>)\<rparr>"
    using assms by (simp add: fire_poll_write_def fire_write_offer_def chacha_apply_def Let_def)
  then show ?thesis
    using assms(2,3) by (simp add: fire_poll_write_def fire_write_offer_def chacha_apply_def Let_def)
qed

theorem fire_pending_desync_witness:
  "\<exists>s' s''. fire_poll_write of_nat of_nat (fire_write_new 512 \<lparr>pos = 0\<rparr>) [5] Pending = Inr (Pending, [], s') \<and>
     fire_poll_write of_nat of_nat s' [5] (Ready (Inr 1)) = Inr (Ready (Inr 1), [5 XOR 1], s'') \<and>
     [5 XOR 1] \<noteq> xor_at of_nat 0 [5 :: u8]"
proof -
  let ?s = "fire_write_new 512 \<lparr>pos = 0\<rparr>" and ?s' = "fire_write_new 512 \<lparr>pos = 1\<rparr>"
  have p: "fire_poll_write of_nat of_nat ?s [5] Pending = Inr (Pending, [], ?s')"
    by (simp add: fire_poll_write_def fire_write_offer_def fire_write_new_def chacha_apply_def)
  have "\<exists>s''. fire_poll_write of_nat of_nat ?s' [5] (Ready (Inr (length [5 :: u8]))) =
     Inr (Ready (Inr (length [5 :: u8])), xor_at of_nat (pos \<lparr>pos = 0\<rparr> + length [5 :: u8]) [5], s'')"
    by (rule fire_pending_desync[OF _ _ _ p, where left = 512]) (simp_all add: fire_write_new_def)
  then show ?thesis using p by auto
qed

end
