(* ===== verification/Fire_Key.thy ===== *)
theory Fire_Key
  imports Fire_Tcp
begin

text \<open>
  The keys of FireTCP (src/protocol/firetcp/pw.rs) and the sessions under them (proto.rs, server.rs): both
  sides derive the initial cipher from the password; the client chooses the established one and
  sends it in its request. The hash and the key stream of ChaCha20 are parameters.
\<close>

section \<open>Keys from passwords\<close>

definition HASH_CONTEXT_KEY :: bytes where "HASH_CONTEXT_KEY = lit ''key''"
definition HASH_CONTEXT_NONCE :: bytes where "HASH_CONTEXT_NONCE = lit ''nonce''"
definition KEY_LEN :: nat where "KEY_LEN = 32"
definition NONCE_LEN :: nat where "NONCE_LEN = 12"

record passworded_key =
  pk_pw :: rstr
  pk_init_key :: bytes
  pk_init_nonce :: bytes

text \<open>
  \<open>derive_key\<close>: \<open>blake len data\<close> is the \<open>Blake2bVar\<close> digest of \<open>len\<close> bytes; the two updates of the hasher
  append.
\<close>

definition derive_key :: "(nat \<Rightarrow> bytes \<Rightarrow> bytes) \<Rightarrow> bytes \<Rightarrow> bytes \<Rightarrow> nat \<Rightarrow> bytes" where
  "derive_key blake master subkey_id len = blake len (master @ subkey_id)"

definition pk_new :: "(nat \<Rightarrow> bytes \<Rightarrow> bytes) \<Rightarrow> rstr \<Rightarrow> passworded_key" where
  "pk_new blake pw =
     \<lparr>pk_pw = pw, pk_init_key = derive_key blake pw HASH_CONTEXT_KEY KEY_LEN,
      pk_init_nonce = derive_key blake pw HASH_CONTEXT_NONCE NONCE_LEN\<rparr>"

text \<open>A key is stored as its password; reading it derives the rest again. A missing password is the empty one.\<close>

definition pk_serialize :: "passworded_key \<Rightarrow> rstr" where
  "pk_serialize k = pk_pw k"

definition pk_deserialize :: "(nat \<Rightarrow> bytes \<Rightarrow> bytes) \<Rightarrow> rstr res \<Rightarrow> passworded_key res" where
  "pk_deserialize blake text = and_then text (\<lambda>pw. Inr (pk_new blake pw))"

definition default_key :: "(nat \<Rightarrow> bytes \<Rightarrow> bytes) \<Rightarrow> passworded_key" where
  "default_key blake = pk_new blake []"

text \<open>\<open>ChaCha20::new_from_slices(..).unwrap()\<close> accepts keys of 32 and nonces of 12 bytes only.\<close>

definition chacha_from_slices :: "(bytes \<Rightarrow> bytes \<Rightarrow> nat \<Rightarrow> u8) \<Rightarrow> bytes \<Rightarrow> bytes \<Rightarrow> (nat \<Rightarrow> u8) res" where
  "chacha_from_slices chacha key nonce =
     (if length key = 32 \<and> length nonce = 12 then Inr (chacha key nonce) else Inl (Panic ''InvalidLength''))"

section \<open>Sessions\<close>

text \<open>
  The client's \<open>new_stream\<close> after it is connected: the key streams of its two ciphers, the write half and
  what it is given to send. \<open>key\<close> and \<open>nonce\<close> are the random ones.
\<close>

definition fire_open ::
  "(bytes \<Rightarrow> bytes \<Rightarrow> nat \<Rightarrow> u8) \<Rightarrow> (fire_request \<Rightarrow> bytes res) \<Rightarrow> passworded_key \<Rightarrow> bytes \<Rightarrow> bytes \<Rightarrow> address \<Rightarrow> bytes option \<Rightarrow>
   ((nat \<Rightarrow> u8) \<times> (nat \<Rightarrow> u8) \<times> fire_write \<times> bytes) res" where
  "fire_open chacha enc password key nonce dst initial_data =
     and_then (chacha_from_slices chacha (pk_init_key password) (pk_init_nonce password)) (\<lambda>ki.
     and_then (chacha_from_slices chacha key nonce) (\<lambda>ke.
     and_then (fire_new_stream enc key nonce dst initial_data) (\<lambda>(w, sent).
       Inr (ki, ke, w, sent))))"

text \<open>
  The server's \<open>serve\<close> up to the upstream. The established cipher is known only from the
  request, which is read under the initial one; the library's conversion of the request's arrays
  into a key cannot fail.
\<close>

definition fire_accept ::
  "(bytes \<Rightarrow> bytes \<Rightarrow> nat \<Rightarrow> u8) \<Rightarrow> (bytes \<Rightarrow> fire_request res) \<Rightarrow> passworded_key \<Rightarrow> bytes \<Rightarrow>
   ((nat \<Rightarrow> u8) \<times> (nat \<Rightarrow> u8) \<times> fire_request \<times> fire_read \<times> bytes) res" where
  "fire_accept chacha dec password wire =
     and_then (chacha_from_slices chacha (pk_init_key password) (pk_init_nonce password)) (\<lambda>ki.
     and_then (fire_serve dec ki (\<lambda>_. 0) wire) (\<lambda>(req, s, rest).
       Inr (ki, (case fq_est_cipher req of Some (key, nonce) \<Rightarrow> chacha key nonce | None \<Rightarrow> (\<lambda>_. 0)), req, s, rest)))"

section \<open>Lemmas\<close>

text \<open>The documented property of the hash: the digest has the length that is asked for.\<close>

definition digest_lengths :: "(nat \<Rightarrow> bytes \<Rightarrow> bytes) \<Rightarrow> bool" where
  "digest_lengths blake \<longleftrightarrow> (\<forall>n \<le> 64. \<forall>d. length (blake n d) = n)"

lemma pk_lengths:
  assumes "digest_lengths blake"
  shows "length (pk_init_key (pk_new blake pw)) = 32" "length (pk_init_nonce (pk_new blake pw)) = 12"
  using assms by (simp_all add: digest_lengths_def pk_new_def derive_key_def KEY_LEN_def NONCE_LEN_def)

lemma pk_stream:
  "digest_lengths blake \<Longrightarrow>
   chacha_from_slices chacha (pk_init_key (pk_new blake pw)) (pk_init_nonce (pk_new blake pw)) =
     Inr (chacha (pk_init_key (pk_new blake pw)) (pk_init_nonce (pk_new blake pw)))"
  by (simp add: chacha_from_slices_def pk_lengths)

text \<open>Until an established cipher is set, its key stream does not matter.\<close>

definition unset :: "fire_read \<Rightarrow> bool" where
  "unset s \<longleftrightarrow> fr_establish s = None \<and> (\<forall>c. fr_state s \<noteq> FEst (Some c))"

lemma poll_read_unset:
  assumes "unset s"
  shows "fire_poll_read ki ke s cap io = fire_poll_read ki ke' s cap io \<and> unset (snd (fire_poll_read ki ke s cap io))"
  using assms
  by (cases "fr_state s") (auto simp: fire_poll_read_def unset_def Let_def split: poll.splits sum.splits option.splits prod.splits)

lemma read_exact_unset:
  "unset s \<Longrightarrow> fire_read_exact ki ke s n input = fire_read_exact ki ke' s n input \<and>
     (\<forall>out s' rest. fire_read_exact ki ke s n input = Inr (out, s', rest) \<longrightarrow> unset s')"
proof (induction n arbitrary: s input rule: less_induct)
  case (less n)
  define data where "data = take (fire_read_slice s n) input"
  show ?case
  proof (cases "n = 0 \<or> data = []")
    case True
    then show ?thesis using less.prems by (auto simp: fire_read_exact.simps[of _ _ s] data_def[symmetric] Let_def)
  next
    case False
    obtain r s1 where r: "fire_poll_read ki ke s n (Ready (Inr data)) = (r, s1)" by force
    have u: "unset s1" "fire_poll_read ki ke' s n (Ready (Inr data)) = (r, s1)"
      using poll_read_unset[OF less.prems, of ki ke n "Ready (Inr data)" ke'] r by auto
    have "n - length data < n" using False by (cases data) auto
    from less.IH[OF this u(1), of "drop (length data) input"] False r u(2)
    show ?thesis
      by (auto simp: fire_read_exact.simps[of _ _ s] data_def[symmetric] Let_def res_simps split: poll.splits sum.splits)
  qed
qed

lemma fire_serve_unset: "fire_serve dec ki ke wire = fire_serve dec ki ke' wire"
proof -
  let ?s = "fire_read_new INITIAL_CIPHER_LEN \<lparr>pos = 0\<rparr>"
  have "unset ?s" by (simp add: unset_def fire_read_new_def)
  note first = read_exact_unset[OF this, of ki ke 2 wire ke']
  show ?thesis
  proof (cases "fire_read_exact ki ke ?s 2 wire")
    case (Inr x)
    obtain l s1 w1 where x: "x = (l, s1, w1)" by (cases x)
    then have "unset s1" using first Inr by simp
    moreover have "fire_read_exact ki ke' ?s 2 wire = Inr (l, s1, w1)" using first Inr x by metis
    ultimately show ?thesis using Inr x read_exact_unset[of s1 ki ke "unat (from_be l :: u16)" w1 ke'] by (simp add: fire_serve_def)
  qed (use first in \<open>simp add: fire_serve_def\<close>)
qed

text \<open>A client without an established cipher does not use its key stream either.\<close>

lemma fire_write_run_unset:
  assumes "fire_new_stream enc key nonce dst init = Inr (w, sent)" and "fire_write_run ki ke w data wire w'" and "get_port dst = 443"
  shows "fire_write_run ki ke' w data wire w'"
proof -
  have "fw_establish w = None \<and> (\<forall>c. fw_state w \<noteq> FEst (Some c))"
    using assms(1,3)
    by (auto simp: fire_new_stream_def fire_write_set_establish_def fire_write_new_def Let_def res_simps)
  with assms(2) have "fire_write_run ki ke' w data wire w' \<and> fw_establish w' = None \<and> (\<forall>c. fw_state w' \<noteq> FEst (Some c))"
  proof (induction rule: fire_write_run.induct)
    case (fw_taken s0 acc wire s buf k r out s')
    then have i: "fire_write_run ki ke' s0 acc wire s" "fw_establish s = None" "\<forall>c. fw_state s \<noteq> FEst (Some c)" by auto
    have "fire_poll_write ki ke' s buf (Ready (Inr k)) = Inr (r, out, s') \<and> fw_establish s' = None \<and> (\<forall>c. fw_state s' \<noteq> FEst (Some c))"
      using fw_taken.hyps(4) i(2,3)
      by (cases "fw_state s") (auto simp: fire_poll_write_def Let_def res_simps split: if_splits option.splits prod.splits)
    then show ?case using fire_write_run.fw_taken[OF i(1) fw_taken.hyps(2,3)] by blast
  qed (simp add: fire_write_run.fw_start)
  then show ?thesis by blast
qed

lemma xor_at_nth: "i < length bs \<Longrightarrow> xor_at m p bs ! i = bs ! i XOR m (p + i)"
  by (induction bs arbitrary: p i) (auto simp: nth_Cons split: nat.splits)

section \<open>Properties\<close>



text \<open>
  A key survives being stored: reading back the text of a key made from a password gives the same key,
  and the text does not depend on the derived bytes.
\<close>

theorem key_roundtrip: "pk_deserialize blake (Inr (pk_serialize (pk_new blake pw))) = Inr (pk_new blake pw)"
  by (simp add: pk_deserialize_def pk_serialize_def pk_new_def)

text \<open>
  The initial key stream is the same in every session of a password: for any two streams opened with it, to any destinations, with any
  random keys, the difference of the first 512 bytes on their wires is the difference of the two plain texts.
\<close>

theorem initial_key_stream_reused:
  assumes "fire_open chacha enc (pk_new blake pw) key1 nonce1 dst1 init1 = Inr (ki1, ke1, w1, sent1)"
    and "fire_open chacha enc (pk_new blake pw) key2 nonce2 dst2 init2 = Inr (ki2, ke2, w2, sent2)"
    and "fire_write_run ki1 ke1 w1 plain1 wire1 w1'" and "fire_write_run ki2 ke2 w2 plain2 wire2 w2'"
    and "i < 512" and "i < length plain1" and "i < length plain2"
  shows "wire1 ! i XOR wire2 ! i = plain1 ! i XOR plain2 ! i"
proof -
  have k: "ki1 = ki2" "fire_new_stream enc key1 nonce1 dst1 init1 = Inr (w1, sent1)" "fire_new_stream enc key2 nonce2 dst2 init2 = Inr (w2, sent2)"
    using assms(1,2) by (auto simp: fire_open_def chacha_from_slices_def res_simps split: if_splits)
  obtain est1 est2 where "fire_at 512 est1 (fw_establish w1) (fw_state w1) 0" "fire_at 512 est2 (fw_establish w2) (fw_state w2) 0"
    using fire_new_stream_state[OF k(2)] fire_new_stream_state[OF k(3)] by metis
  then have "wire1 = xor_at (fire_mask 512 ki1 ke1 est1) 0 plain1" "wire2 = xor_at (fire_mask 512 ki1 ke2 est2) 0 plain2"
    using fire_write_run_wire[OF assms(3)] fire_write_run_wire[OF assms(4)] k(1) by auto
  then show ?thesis using assms(5-7) by (simp add: xor_at_nth fire_mask_def xor.left_commute xor.commute)
qed

end
