(* ===== verification/Udp_Assoc.thy ===== *)
theory Udp_Assoc
  imports Protocols
begin

text \<open>
  Serving a SOCKS5 UDP association (src/client/udp.rs): the relay socket is announced, the client's
  first packet decides the upstream, and then packets go both ways until a direction ends, the
  association is idle for a minute, or the client's TCP connection closes.
\<close>

section \<open>Finding an upstream\<close>

text \<open>
  The loop over the upstreams, from the end of the vector: the names tried, and the first datagrams
  that could be opened, or the last error, if there was one.
\<close>

fun try_datagrams ::
  "(rstr \<Rightarrow> upstream_config \<Rightarrow> 'u res) \<Rightarrow> (rstr \<times> upstream_config) list \<Rightarrow> fault option \<Rightarrow> rstr list \<times> (fault option + 'u)" where
  "try_datagrams attempt [] last_error = ([], Inl last_error)"
| "try_datagrams attempt ((name, c) # us) last_error =
     (case attempt name c of
        Inr u \<Rightarrow> ([name], Inr u)
      | Inl (Panic p) \<Rightarrow> ([name], Inl (Some (Panic p)))
      | Inl e \<Rightarrow> (case try_datagrams attempt us (Some e) of (tried, r) \<Rightarrow> (name # tried, r)))"

section \<open>The association\<close>

text \<open>The answer to the client: \<open>relay\<close> is the outcome of \<open>new_udp_relay\<close>.\<close>

definition announce_relay :: "handshake_type \<Rightarrow> socket_addr res \<Rightarrow> bytes \<times> unit res" where
  "announce_relay hs relay =
     (case relay of
        Inl e \<Rightarrow> (case respond_err hs of Inr w \<Rightarrow> (w, Inl e) | Inl e' \<Rightarrow> ([], Inl e'))
      | Inr relay_addr \<Rightarrow> (case respond_ok hs (Some relay_addr) of Inr w \<Rightarrow> (w, Inr ()) | Inl e \<Rightarrow> ([], Inl e)))"

datatype 'u association = OneOffReply udp_packet | Relaying 'u

text \<open>The one reply of a one-off query: \<open>None\<close> is the timeout, \<open>Some None\<close> the end of the upstream's stream.\<close>

definition one_off_reply :: "(bytes \<times> address) res option option \<Rightarrow> udp_packet res" where
  "one_off_reply reply =
     (case reply of
        None \<Rightarrow> Inl (Err ''Timeout waiting for response'')
      | Some None \<Rightarrow> Inl (Err ''Unexpected EOF while waiting for response'')
      | Some (Some (Inr (data, addr))) \<Rightarrow> udp_to_packet \<lparr>repr_addr = addr, repr_payload = data, repr_frag_no = 0\<rparr>
      | Some (Some (Inl e)) \<Rightarrow> Inl e)"

text \<open>
  From the first packet on. \<open>open_dgram\<close> is the outcome of \<open>new_datagram\<close>, \<open>first\<close> what an upstream's stream
  delivers within the timeout.
\<close>

definition serve_association ::
  "routing_env \<Rightarrow> nat \<Rightarrow> counters \<Rightarrow> (rstr \<Rightarrow> upstream_config \<Rightarrow> address \<Rightarrow> bytes \<Rightarrow> 'u res) \<Rightarrow>
   ('u \<Rightarrow> (bytes \<times> address) res option option) \<Rightarrow> client_config \<Rightarrow> client_statistics \<Rightarrow> udp_packet \<Rightarrow>
   rstr list \<times> 'u association res" where
  "serve_association R now h open_dgram first cfg stats pkt =
     (case (udp_addr pkt, udp_payload pkt) of
        (Inl e, _) \<Rightarrow> ([], Inl e)
      | (Inr addr, Inl e) \<Rightarrow> ([], Inl e)
      | (Inr addr, Inr payload) \<Rightarrow>
          (case try_datagrams (\<lambda>n c. open_dgram n c addr payload)
                  (rev (find_best_upstream R now h cfg Datagram stats addr (Some payload))) None of
             (tried, Inl None) \<Rightarrow> (tried, Inl (Err ''No upstreams available''))
           | (tried, Inl (Some e)) \<Rightarrow> (tried, Inl e)
           | (tried, Inr u) \<Rightarrow>
               (tried,
                case get_one_off_udp_query_timeout addr of
                  Some _ \<Rightarrow> and_then (one_off_reply (first u)) (\<lambda>p. Inr (OneOffReply p))
                | None \<Rightarrow> Inr (Relaying u))))"

text \<open>What the two tasks make of a packet, and which events end the association.\<close>

definition assoc_upload :: "udp_packet \<Rightarrow> (bytes \<times> address) res" where
  "assoc_upload pkt = and_then (udp_payload pkt) (\<lambda>d. and_then (udp_addr pkt) (\<lambda>a. Inr (d, a)))"

definition assoc_download :: "(bytes \<times> address) res \<Rightarrow> udp_packet res" where
  "assoc_download item = and_then item (\<lambda>(data, addr). udp_to_packet \<lparr>repr_addr = addr, repr_payload = data, repr_frag_no = 0\<rparr>)"

datatype assoc_end = UploadEnded | DownloadEnded | IdleTimeout | Drained "unit res"

fun assoc_result :: "assoc_end \<Rightarrow> unit res" where
  "assoc_result (Drained v) = v"
| "assoc_result _ = Inr ()"

text \<open>\<open>drain_socks\<close> reads and ignores what the client's connection delivers, until it ends.\<close>

function drain_socks :: "segments \<Rightarrow> unit res" where
  "drain_socks ss = (case read_some 24 ss of (d, ss') \<Rightarrow> if 0 < length d then drain_socks ss' else Inr ())"
  by pat_completeness auto

termination drain_socks
  by (relation "measure (\<lambda>ss. length (concat ss))") (auto dest: read_some_shrinks[OF sym])

section \<open>Lemmas\<close>

definition opened :: "rstr list \<times> (fault option + 'u) \<Rightarrow> 'u option" where
  "opened = (\<lambda>(_, r). case r of Inr u \<Rightarrow> Some u | Inl _ \<Rightarrow> None)"

interpretation datagrams: upstream_loop try_datagrams fst opened "\<lambda>_ u. u"
proof unfold_locales
  fix f :: "rstr \<Rightarrow> upstream_config \<Rightarrow> 'a res" and n c m us le
  assume "f n c = Inl (Err m)"
  then show "\<exists>le'. fst (try_datagrams f ((n, c) # us) le) = n # fst (try_datagrams f us le') \<and>
      opened (try_datagrams f ((n, c) # us) le) = opened (try_datagrams f us le')"
    by (intro exI[of _ "Some (Err m)"]) (simp add: opened_def split: prod.splits)
qed (auto simp: opened_def split: prod.splits)

section \<open>Properties\<close>

text \<open>
  A UDP association is served whenever an admitted upstream opens datagrams: the first packet's
  destination and payload, exactly as the client sent them, are offered to the upstreams the rules
  admit, the longest idle first; if no attempt panics, the association relays on the first one that
  accepts (for every destination but port 53), and otherwise all were tried and the error is returned.
\<close>

theorem association_served:
  assumes "distinct (map fst (cc_upstreams cfg))" and "\<And>n c a b p. open_dgram n c a b \<noteq> Inl (Panic p)"
    and "wire_addr_strict dst" and "get_port dst \<noteq> 53"
    and "udp_to_packet \<lparr>repr_addr = dst, repr_payload = d, repr_frag_no = f\<rparr> = Inr pkt"
    and "serve_association R now h open_dgram first cfg stats pkt = (tried, r)"
  shows "let adm = {(n, c). (n, c) \<in> set (cc_upstreams cfg) \<and> eligible Datagram (verdict R cfg Datagram dst (Some d)) n c} in
     if \<exists>(n, c) \<in> adm. is_ok (open_dgram n c dst d)
     then \<exists>(n, c) \<in> adm. \<exists>u. open_dgram n c dst d = Inr u \<and> r = Inr (Relaying u) \<and>
            (\<forall>(m, b) \<in> adm. calc_last_visit_score now h stats m > calc_last_visit_score now h stats n \<longrightarrow>
               m \<in> set tried \<and> \<not> is_ok (open_dgram m b dst d))
     else (\<exists>e. r = Inl e) \<and> set tried = fst ` adm"
proof -
  define adm where "adm = {(n, c). (n, c) \<in> set (cc_upstreams cfg) \<and> eligible Datagram (verdict R cfg Datagram dst (Some d)) n c}"
  have pkt: "udp_addr pkt = Inr dst" "udp_payload pkt = Inr d"
    using udp_packet_reads[of "\<lparr>repr_addr = dst, repr_payload = d, repr_frag_no = f\<rparr>"] assms(3,5) by auto
  obtain t q where run: "try_datagrams (\<lambda>n c. open_dgram n c dst d)
      (rev (find_best_upstream R now h cfg Datagram stats dst (Some d))) None = (t, q)" by force
  have r: "tried = t" "r = (case q of Inl None \<Rightarrow> Inl (Err ''No upstreams available'') | Inl (Some e) \<Rightarrow> Inl e | Inr u \<Rightarrow> Inr (Relaying u))"
    using assms(4,6) pkt run
    by (auto simp: serve_association_def get_one_off_udp_query_timeout_def split: sum.splits option.splits)
  note f = datagrams.finds_admitted[OF assms(1) assms(2) adm_def run[symmetric]]
  show ?thesis
  proof (cases "\<exists>(n, c) \<in> adm. is_ok (open_dgram n c dst d)")
    case True
    then show ?thesis using f r unfolding Let_def adm_def[symmetric]
      by (simp only: if_True) (fastforce simp: opened_def split: sum.splits)
  next
    case False
    then have "\<exists>e. r = Inl e" "set tried = fst ` adm" using f r by (auto simp: opened_def split: sum.splits option.splits)
    then show ?thesis using False unfolding Let_def adm_def[symmetric] by simp
  qed
qed

lemma demo_udp_eligible:
  "{(n, c). (n, c) \<in> set (cc_upstreams demo_config) \<and> eligible Datagram None n c} = set (cc_upstreams demo_config)"
  by (auto simp: demo_config_def default_config_def eligible_def)

theorem association_served_witness:
  "\<exists>pkt tried u. udp_to_packet \<lparr>repr_addr = IP (SockV4 1 99), repr_payload = [7], repr_frag_no = 0\<rparr> = Inr pkt \<and>
     serve_association demo_routing 100 demo_counters (\<lambda>n c a b. Inr (a, b)) (\<lambda>_. None) demo_config Map.empty pkt =
       (tried, Inr (Relaying (IP (SockV4 1 99), [7])))"
proof -
  obtain pkt where pkt: "udp_to_packet \<lparr>repr_addr = IP (SockV4 1 99), repr_payload = [7], repr_frag_no = 0\<rparr> = Inr pkt"
    using udp_packet_reads[of "\<lparr>repr_addr = IP (SockV4 1 99), repr_payload = [7], repr_frag_no = 0\<rparr>"] by auto
  obtain tried r where run: "serve_association demo_routing 100 demo_counters (\<lambda>n c a b. Inr (a, b)) (\<lambda>_. None) demo_config
      Map.empty pkt = (tried, r)" by force
  obtain n c where "(n, c) \<in> set (cc_upstreams demo_config)" by (auto simp: demo_config_def)
  then show ?thesis
    using association_served[OF demo_distinct _ _ _ pkt run] pkt run unfolding demo_verdict demo_udp_eligible
    by (auto simp: Let_def split: if_splits)
qed

text \<open>
  The datagrams of an association as the two ends see them, and as events of the relay's socket and of the
  upstream.
\<close>

datatype exchange = Sends bytes address socket_addr | Answers bytes address

datatype assoc_event = FromClient bytes socket_addr | FromUpstream bytes address

fun assoc_run :: "assoc_event list \<Rightarrow> udp_relay \<Rightarrow> (bytes \<times> address) res list \<times> (bytes \<times> socket_addr) res list" where
  "assoc_run [] s = ([], [])"
| "assoc_run (FromClient buf src # es) s =
     (case relay_recv s (Inr (buf, src)) of
        (s', r) \<Rightarrow> (case assoc_run es s' of
          (ups, downs) \<Rightarrow> ((case r of None \<Rightarrow> [] | Some p \<Rightarrow> [and_then p assoc_upload]) @ ups, downs)))"
| "assoc_run (FromUpstream d a # es) s =
     (case assoc_run es s of
        (ups, downs) \<Rightarrow> (ups, and_then (assoc_download (Inr (d, a))) (relay_send s) # downs))"

definition packet_bytes :: "bytes \<Rightarrow> address \<Rightarrow> bytes" where
  "packet_bytes d a = (case udp_to_packet \<lparr>repr_addr = a, repr_payload = d, repr_frag_no = 0\<rparr> of Inr p \<Rightarrow> pkt_buf p | Inl _ \<Rightarrow> [])"

fun exchange_event :: "exchange \<Rightarrow> assoc_event" where
  "exchange_event (Sends d a src) = FromClient (packet_bytes d a) src"
| "exchange_event (Answers d a) = FromUpstream d a"

fun exchange_ok :: "exchange \<Rightarrow> bool" where
  "exchange_ok (Sends d a src) = wire_addr_strict a"
| "exchange_ok (Answers d a) = wire_addr_strict a"

fun uploads :: "exchange list \<Rightarrow> (bytes \<times> address) list" where
  "uploads [] = []"
| "uploads (Sends d a src # xs) = (d, a) # uploads xs"
| "uploads (Answers d a # xs) = uploads xs"

fun downloads :: "socket_addr \<Rightarrow> exchange list \<Rightarrow> (bytes \<times> socket_addr) list" where
  "downloads client [] = []"
| "downloads client (Sends d a src # xs) = downloads src xs"
| "downloads client (Answers d a # xs) = (packet_bytes d a, client) # downloads client xs"

lemma packet_of_exchange:
  assumes "wire_addr_strict a"
  shows "\<exists>p. udp_to_packet \<lparr>repr_addr = a, repr_payload = d, repr_frag_no = 0\<rparr> = Inr p \<and> packet_bytes d a = pkt_buf p \<and>
     udp_new_checked (packet_bytes d a) = Inr p \<and> assoc_upload p = Inr (d, a)"
proof -
  obtain p where p: "udp_to_packet \<lparr>repr_addr = a, repr_payload = d, repr_frag_no = 0\<rparr> = Inr p" "udp_addr p = Inr a" "udp_payload p = Inr d"
    using udp_packet_reads[of "\<lparr>repr_addr = a, repr_payload = d, repr_frag_no = 0\<rparr>"] assms by auto
  then show ?thesis using udp_to_packet_checked[OF p(1)] by (simp add: packet_bytes_def assoc_upload_def)
qed

text \<open>
  C16: A UDP association relays without loss, in order and with the right addresses: whatever mixture of
  the client's packets and the upstream's datagrams arrives, the upstream is given exactly the
  payloads and destinations the client sent, and every datagram of the upstream reaches the address
  the client's latest packet came from, as a packet with its payload and the replying address.
\<close>

theorem association_relays:
  assumes "list_all exchange_ok xs" and "relay_last_addr s = Some client"
  shows "assoc_run (map exchange_event xs) s = (map Inr (uploads xs), map Inr (downloads client xs))"
  using assms
proof (induction client xs arbitrary: s rule: downloads.induct)
  case (2 client d a src xs)
  obtain p where p: "udp_new_checked (packet_bytes d a) = Inr p" "assoc_upload p = Inr (d, a)"
    using packet_of_exchange[of a d] 2(2) by auto
  then show ?case using 2 by (simp add: relay_recv_def)
next
  case (3 client d a xs)
  obtain p where p: "udp_to_packet \<lparr>repr_addr = a, repr_payload = d, repr_frag_no = 0\<rparr> = Inr p" "packet_bytes d a = pkt_buf p"
    using packet_of_exchange[of a d] 3(2) by auto
  then show ?case using 3 by (simp add: assoc_download_def relay_send_def)
qed simp

theorem association_relays_witness:
  "assoc_run (map exchange_event [Answers [1] (IP (SockV4 9 9)), Sends [2] (IP (SockV4 8 8)) (SockV4 7 7), Answers [3] (IP (SockV4 8 8))])
     \<lparr>relay_last_addr = Some (SockV4 5 5)\<rparr> =
   ([Inr ([2], IP (SockV4 8 8))],
    [Inr (packet_bytes [1] (IP (SockV4 9 9)), SockV4 5 5), Inr (packet_bytes [3] (IP (SockV4 8 8)), SockV4 7 7)])"
  using association_relays[of "[Answers [1] (IP (SockV4 9 9)), Sends [2] (IP (SockV4 8 8)) (SockV4 7 7), Answers [3] (IP (SockV4 8 8))]"
      "\<lparr>relay_last_addr = Some (SockV4 5 5)\<rparr>" "SockV4 5 5"] by simp

end
