(* ===== verification/Upstream_Open.thy ===== *)
theory Upstream_Open
  imports Tcpman Fire_Key Udpman_Client Udp_Assoc
begin

text \<open>
  The upstream protocols behind one interface (src/protocol/mod.rs and the \<open>Protocol\<close> implementations of src/config.rs,
  tcpman/mod.rs, firetcp/proto.rs and udpman/client.rs): a configured upstream opens a stream or a
  datagram exchange with the operations of its own protocol. The outcomes of the network, the random numbers and the libraries are those of one attempt.
\<close>

section \<open>The surroundings of an attempt\<close>

record proto_env =
  pe_net :: net
  pe_lookup :: "rstr \<Rightarrow> u16 \<Rightarrow> socket_addr list res"
  pe_bind :: "bool \<Rightarrow> unit res"
  pe_send :: "bytes \<times> socket_addr \<Rightarrow> unit res"
  pe_chacha :: "bytes \<Rightarrow> bytes \<Rightarrow> nat \<Rightarrow> u8"
  pe_blake :: "nat \<Rightarrow> bytes \<Rightarrow> bytes"
  pe_url64 :: "bytes \<Rightarrow> rstr"
  pe_base64 :: "rstr \<Rightarrow> rstr"
  pe_response :: "u16 option tokenizer"
  pe_chunk :: "bytes \<Rightarrow> (nat \<times> nat) option res"
  pe_json :: "fire_request \<Rightarrow> bytes res"
  pe_key :: bytes
  pe_iv :: bytes
  pe_uuid :: rstr
  pe_answer :: segments

section \<open>Streams\<close>

text \<open>An open stream of each protocol: what was sent to open it, and the state both sides go on with.\<close>

datatype opened_stream =
    OsDirect "segments opened"
  | OsSocks5 "bytes opened"
  | OsHttp "http_response http_stream opened"
  | OsTcpMan bytes "(tunnel_cipher, tunnel_cipher) cipher_stream" "http_response http_stream"
  | OsFire "nat \<Rightarrow> u8" "nat \<Rightarrow> u8" fire_write bytes

text \<open>
  \<open>TcpMan::send_request\<close> from the connection on; reading the body of a refusal may not end (\<open>None\<close>).
\<close>

definition tcpman_open ::
  "proto_env \<Rightarrow> address \<Rightarrow> bool \<Rightarrow> credentials option \<Rightarrow> address \<Rightarrow> tcpman_request \<Rightarrow> u32 option \<Rightarrow>
   (bytes \<times> (tunnel_cipher, tunnel_cipher) cipher_stream \<times> http_response http_stream) res option" where
  "tcpman_open E server ssl cred dst req fwmark =
     (case and_then (in_context ''Connect to TCPMan server'' (connect_tcp_marked (pe_net E) server fwmark))
             (\<lambda>_. in_context ''Connect to TLS stream'' (connect_http_stream (pe_net E) ssl server)) of
        Inl e \<Rightarrow> Some (Inl e)
      | Inr _ \<Rightarrow>
          (case tcpman_send_request (pe_chacha E) (pe_url64 E) (pe_response E) (pe_chunk E) (pe_key E) (pe_iv E) server ssl
                  (map_option (\<lambda>c. credentials_header (pe_base64 E) (cr_username c) (cr_password c)) cred) dst req (pe_answer E) of
             (sent, r) \<Rightarrow> map_option (\<lambda>x. and_then x (\<lambda>(cs, st). Inr (sent, cs, st))) r))"

definition firetcp_open :: "proto_env \<Rightarrow> address \<Rightarrow> rstr \<Rightarrow> address \<Rightarrow> bytes option \<Rightarrow> u32 option \<Rightarrow> opened_stream res" where
  "firetcp_open E server pw dst initial_data fwmark =
     and_then (in_context ''Connecting to firetcp server'' (connect_tcp_marked (pe_net E) server fwmark)) (\<lambda>_.
     and_then (fire_open (pe_chacha E) (pe_json E) (pk_new (pe_blake E) pw) (pe_key E) (pe_iv E) dst initial_data) (\<lambda>(ki, ke, w, sent).
       Inr (OsFire ki ke w sent)))"

text \<open>\<open>new_stream\<close>; UDP upstreams have the one of the trait, which fails.\<close>

fun new_stream :: "proto_env \<Rightarrow> upstream_protocol \<Rightarrow> address \<Rightarrow> bytes option \<Rightarrow> u32 option \<Rightarrow> opened_stream res option" where
  "new_stream E (UdpMan server) dst d fwmark = Some (Inl (Err ''Stream unsupported''))"
| "new_stream E (TcpMan server ssl udp cred) dst d fwmark =
     map_option (\<lambda>r. and_then r (\<lambda>(sent, cs, st). Inr (OsTcpMan sent cs st)))
       (tcpman_open E server ssl cred dst (tcpman_stream_request dst d) fwmark)"
| "new_stream E Direct dst d fwmark =
     Some (and_then (direct_new_stream (pe_net E) dst d fwmark (pe_answer E)) (\<lambda>s. Inr (OsDirect s)))"
| "new_stream E (Socks5Proxy server udp) dst d fwmark =
     Some (and_then (socks5_new_stream (pe_net E) server dst d fwmark (concat (pe_answer E))) (\<lambda>s. Inr (OsSocks5 s)))"
| "new_stream E (FireTcp server pw) dst d fwmark = Some (firetcp_open E server pw dst d fwmark)"
| "new_stream E (HttpProxy server ssl auth) dst d fwmark =
     Some (and_then (snd (http_new_stream (pe_response E) (pe_net E) server ssl auth dst d fwmark (pe_answer E))) (\<lambda>s. Inr (OsHttp s)))"

section \<open>Datagrams\<close>

datatype opened_dgram =
    OdDirect "(bytes \<times> socket_addr) list"
  | OdSocks5 socket_addr bytes
  | OdTcpMan bytes "(tunnel_cipher, tunnel_cipher) cipher_stream" "http_response http_stream"
  | OdUdpMan "bytes \<times> socket_addr" udpman_client

text \<open>\<open>UdpMan::new_datagram\<close> with the binding and marking of its socket; the \<open>Connect\<close> message is counted before it is sent.\<close>

definition udpman_open ::
  "proto_env \<Rightarrow> address \<Rightarrow> address \<Rightarrow> bytes \<Rightarrow> u32 option \<Rightarrow> counter_ref \<Rightarrow> counters \<Rightarrow> opened_dgram res \<times> counters" where
  "udpman_open E server dst d fwmark tx h =
     (case and_then (pe_bind E (case server of IP (SockV4 _ _) \<Rightarrow> True | _ \<Rightarrow> False)) (\<lambda>_. set_mark (pe_net E) fwmark) of
        Inl e \<Rightarrow> (Inl e, h)
      | Inr _ \<Rightarrow>
          (case udpman_new_datagram (pe_lookup E) (pe_uuid E) server dst d (Inr ()) of
             Inl e \<Rightarrow> (Inl e, h)
           | Inr (packet, c) \<Rightarrow>
               (and_then (in_context ''Sending connect message'' (pe_send E packet)) (\<lambda>_. Inr (OdUdpMan packet c)),
                counter_inc tx (of_nat (length (fst packet))) h)))"

fun new_datagram ::
  "proto_env \<Rightarrow> upstream_protocol \<Rightarrow> address \<Rightarrow> bytes \<Rightarrow> u32 option \<Rightarrow> counter_ref \<Rightarrow> counters \<Rightarrow> opened_dgram res option \<times> counters" where
  "new_datagram E (UdpMan server) dst d fwmark tx h =
     (case udpman_open E server dst d fwmark tx h of (r, h') \<Rightarrow> (Some r, h'))"
| "new_datagram E (TcpMan server ssl udp cred) dst d fwmark tx h =
     (map_option (\<lambda>r. and_then r (\<lambda>(sent, cs, st). Inr (OdTcpMan sent cs st)))
        (tcpman_open E server ssl cred dst (tcpman_datagram_request dst d) fwmark), h)"
| "new_datagram E Direct dst d fwmark tx h =
     (Some (and_then (direct_new_datagram (pe_lookup E) (pe_net E) (pe_bind E) (pe_send E) dst d fwmark) (\<lambda>s. Inr (OdDirect s))), h)"
| "new_datagram E (Socks5Proxy server udp) dst d fwmark tx h =
     (case socks5_new_datagram (pe_lookup E) (pe_net E) (pe_bind E) (pe_send E) tx server dst d fwmark (concat (pe_answer E)) h of
        (_, r, h') \<Rightarrow> (Some (and_then r (\<lambda>(relay, p). Inr (OdSocks5 relay p))), h'))"
| "new_datagram E (FireTcp server pw) dst d fwmark tx h = (Some (Inl (Err ''Datagram unsupported'')), h)"
| "new_datagram E (HttpProxy server ssl auth) dst d fwmark tx h = (Some (Inl (Err ''Datagram unsupported'')), h)"

section \<open>Datagrams through a tunnel\<close>

text \<open>
  The two tasks of the tunnel server for a UDP request, on a direct upstream: the packets of the client go to the upstream's sink, the
  upstream's datagrams are written as packets. \<open>forward\<close> of the \<open>futures\<close> library ends at the first error of either side.
\<close>

fun forward_up ::
  "(rstr \<Rightarrow> u16 \<Rightarrow> socket_addr list res) \<Rightarrow> counter_ref \<Rightarrow> (bytes \<times> address) res list \<Rightarrow> counters \<Rightarrow>
   (bytes \<times> socket_addr) list \<times> unit res \<times> counters" where
  "forward_up lookup tx [] h = ([], Inr (), h)"
| "forward_up lookup tx (Inl e # xs) h = ([], Inl e, h)"
| "forward_up lookup tx (Inr x # xs) h =
     (case direct_sink lookup tx x h of
        (Inl e, h') \<Rightarrow> ([], Inl e, h')
      | (Inr p, h') \<Rightarrow> (case forward_up lookup tx xs h' of (ps, r, h2) \<Rightarrow> (p # ps, r, h2)))"

fun forward_down :: "counter_ref \<Rightarrow> (bytes \<times> socket_addr) res list \<Rightarrow> counters \<Rightarrow> (bytes \<times> address) list \<times> unit res \<times> counters" where
  "forward_down rx [] h = ([], Inr (), h)"
| "forward_down rx (x # xs) h =
     (case direct_stream rx x h of
        (Inl e, h') \<Rightarrow> ([], Inl e, h')
      | (Inr p, h') \<Rightarrow> (case forward_down rx xs h' of (ps, r, h2) \<Rightarrow> (p # ps, r, h2)))"

section \<open>Lemmas\<close>

text \<open>
  What an upstream was told: the destination in the request of its protocol, followed by the
  initial data; a direct stream has only the initial data.
\<close>

definition announces :: "proto_env \<Rightarrow> address \<Rightarrow> bytes option \<Rightarrow> opened_stream \<Rightarrow> bool" where
  "announces E dst d s =
     (case s of
        OsDirect v \<Rightarrow> net_connect (pe_net E) dst = Inr () \<and> op_plain v = initial_bytes d \<and> op_counted v = []
      | OsSocks5 v \<Rightarrow>
          (\<exists>q. conn_request_write \<lparr>conn_cmd = CONNECT_TCP, conn_address = dst\<rparr> = Inr q \<and> op_plain v = [5, 1, 0] @ q \<and>
             op_counted v = initial_bytes d)
      | OsHttp v \<Rightarrow> (\<exists>auth. op_counted v = connect_request dst auth @ initial_bytes d)
      | OsTcpMan sent cs st \<Rightarrow>
          (\<exists>bs server ssl auth path data rc wc. request_to_vec (ReqTCP dst (case d of Some x \<Rightarrow> x | None \<Rightarrow> [])) = Inr bs \<and>
             cipher_connect (pe_chacha E) (pe_url64 E) (pe_key E) (pe_iv E) (strategy_new_send True (get_port dst) ssl)
               (strategy_new_receive True (get_port dst)) bs = Inr (path, data, rc, wc) \<and>
             sent = ws_request (tunnel_builder server auth path data) \<and> cs = cipher_stream_new rc wc)
      | OsFire ki ke w sent \<Rightarrow>
          (\<exists>q json. pe_json E q = Inr json \<and> fq_addr q = dst \<and>
             sent = be16 (of_nat (length json)) @ json @ (case d of Some x \<Rightarrow> x | None \<Rightarrow> [])))"

lemma initial_bytes_eq: "initial_bytes d = (case d of Some x \<Rightarrow> x | None \<Rightarrow> [])"
  by (cases d) simp_all

lemma direct_announces: "direct_new_stream (pe_net E) dst d fwmark r = Inr s \<Longrightarrow> announces E dst d (OsDirect s)"
  by (auto simp: announces_def direct_new_stream_def res_simps)

lemma request_socks5_sent: "request_socks5 req r = (sent, Inr x) \<Longrightarrow> \<exists>q. conn_request_write req = Inr q \<and> sent = [5, 1, 0] @ q"
  by (auto simp: request_socks5_def greeting_bytes res_simps in_context_def split: sum.splits if_splits fault.splits)

lemma socks5_announces: "socks5_new_stream N server dst d fwmark r = Inr s \<Longrightarrow> announces E dst d (OsSocks5 s)"
  by (auto simp: announces_def socks5_new_stream_def res_simps split: prod.splits dest!: request_socks5_sent)

lemma http_announces: "snd (http_new_stream hp N server ssl auth dst d fwmark ss) = Inr s \<Longrightarrow> announces E dst d (OsHttp s)"
  by (auto simp: announces_def http_new_stream_def res_simps Let_def split: sum.splits if_splits)

lemma tcpman_announces:
  assumes "tcpman_open E server ssl cred dst (tcpman_stream_request dst d) fwmark = Some (Inr (sent, cs, st))"
  shows "announces E dst d (OsTcpMan sent cs st)"
  using assms
  by (auto simp: announces_def tcpman_open_def tcpman_send_request_def tunnel_connect_def tcpman_stream_request_def
      negotiate_websocket_def res_simps split: sum.splits prod.splits if_splits option.splits fault.splits) blast+

lemma firetcp_announces:
  assumes "firetcp_open E server pw dst d fwmark = Inr s"
  shows "announces E dst d s"
proof -
  obtain ki ke w sent where o: "fire_new_stream (pe_json E) (pe_key E) (pe_iv E) dst d = Inr (w, sent)" "s = OsFire ki ke w sent"
    using assms by (auto simp: firetcp_open_def fire_open_def res_simps)
  obtain est json where "pe_json E \<lparr>fq_addr = dst, fq_initial_data_len = (case d of Some d \<Rightarrow> length d | None \<Rightarrow> 0),
          fq_est_cipher = (if est then Some (pe_key E, pe_iv E) else None)\<rparr> = Inr json"
      "sent = be16 (of_nat (length json)) @ json @ (case d of Some d \<Rightarrow> d | None \<Rightarrow> [])"
    by (rule fire_new_stream_state[OF o(1)])
  then show ?thesis unfolding o(2) announces_def by auto
qed

lemma new_stream_announces:
  assumes "new_stream E p dst d fwmark = Some (Inr s)"
  shows "announces E dst d s \<and> supports p Stream"
  using assms
  by (cases p)
    (auto simp: res_simps firetcp_announces intro: direct_announces socks5_announces http_announces tcpman_announces split: option.splits)

text \<open>Only configured upstreams are tried, so only their attempts matter.\<close>

lemma try_upstreams_cong:
  "\<forall>(n, c) \<in> set us. f n c = g n c \<Longrightarrow> try_upstreams now stats f us le h = try_upstreams now stats g us le h"
  by (induction now stats f us le h rule: try_upstreams.induct) (auto split: sum.splits fault.splits)

lemma find_and_connect_configured:
  assumes "distinct (map fst (cc_upstreams cfg))" and "\<And>n c p. (n, c) \<in> set (cc_upstreams cfg) \<Longrightarrow> attempt n c \<noteq> Inl (Panic p)"
    and "find_and_connect_stream R now attempt dst d cfg stats h = (tried, Inr s, h')"
  shows "\<exists>(n, c) \<in> set (cc_upstreams cfg). eligible Stream (verdict R cfg Stream dst d) n c \<and> (\<exists>l. attempt n c = Inr (s, l))"
proof -
  define g where "g n c = (if (n, c) \<in> set (cc_upstreams cfg) then attempt n c else Inl (Err ''x''))" for n c
  have "set (find_best_upstream R now h cfg Stream stats dst d) \<subseteq> set (cc_upstreams cfg)"
    using find_best_upstream_laws(1)[OF assms(1) refl] by auto
  then have e: "find_and_connect_stream R now attempt dst d cfg stats h = find_and_connect_stream R now g dst d cfg stats h"
    unfolding find_and_connect_stream_def by (intro try_upstreams_cong) (auto simp: g_def)
  have "\<And>n c p. g n c \<noteq> Inl (Panic p)" using assms(2) by (simp add: g_def)
  from find_and_connect_sound[OF assms(1) this assms(3)[unfolded e]] show ?thesis
    by (auto simp: g_def split: if_splits)
qed

section \<open>Properties\<close>

text \<open>
  C18: A connected stream belongs to an upstream that carries streams and knows the destination:
  when \<open>find_and_connect_stream\<close>, with the protocols' own ways to open a stream, succeeds, the stream was opened by a configured upstream that the
  rules admit and whose protocol carries streams (also when a rule names the upstream, which is not checked before),
  and that upstream was told exactly the destination and received exactly the initial data.
\<close>

theorem connected_stream_announced:
  assumes "distinct (map fst (cc_upstreams cfg))"
    and "\<And>n c. (n, c) \<in> set (cc_upstreams cfg) \<Longrightarrow>
           \<exists>r. new_stream (E n) (uc_protocol c) dst d (cc_fwmark cfg) = Some r \<and> (\<forall>p. r \<noteq> Inl (Panic p)) \<and>
           attempt n c = and_then r (\<lambda>s. Inr (s, latency n))"
    and "find_and_connect_stream R now attempt dst d cfg stats h = (tried, Inr s, h')"
  shows "\<exists>(n, c) \<in> set (cc_upstreams cfg). eligible Stream (verdict R cfg Stream dst d) n c \<and> supports (uc_protocol c) Stream \<and>
     new_stream (E n) (uc_protocol c) dst d (cc_fwmark cfg) = Some (Inr s) \<and> announces (E n) dst d s"
proof -
  have "attempt n c \<noteq> Inl (Panic p)" if m: "(n, c) \<in> set (cc_upstreams cfg)" for n c p
  proof -
    obtain r where "\<forall>p. r \<noteq> Inl (Panic p)" "attempt n c = and_then r (\<lambda>s. Inr (s, latency n))" using assms(2)[OF m] by blast
    then show ?thesis by (cases r) auto
  qed
  from find_and_connect_configured[OF assms(1) this assms(3)] obtain n c l where
    nc: "(n, c) \<in> set (cc_upstreams cfg)" "eligible Stream (verdict R cfg Stream dst d) n c" "attempt n c = Inr (s, l)"
    by blast
  then have o: "new_stream (E n) (uc_protocol c) dst d (cc_fwmark cfg) = Some (Inr s)"
  proof -
    obtain r where r: "new_stream (E n) (uc_protocol c) dst d (cc_fwmark cfg) = Some r" "attempt n c = and_then r (\<lambda>s. Inr (s, latency n))"
      using assms(2)[OF nc(1)] by blast
    then show ?thesis using nc(3) by (cases r) auto
  qed
  show ?thesis using nc(1,2) o new_stream_announces[OF o] by auto
qed

definition demo_proto :: proto_env where
  "demo_proto = \<lparr>pe_net = demo_net, pe_lookup = \<lambda>_ _. Inr [], pe_bind = \<lambda>_. Inr (), pe_send = \<lambda>_. Inr (), pe_chacha = \<lambda>_ _ _. 0,
     pe_blake = \<lambda>n _. replicate n 0, pe_url64 = \<lambda>b. b, pe_base64 = \<lambda>b. b, pe_response = \<lambda>_. Inr None, pe_chunk = \<lambda>_. Inr None,
     pe_json = \<lambda>_. Inr [], pe_key = [], pe_iv = [], pe_uuid = [], pe_answer = [[9]]\<rparr>"

theorem connected_stream_announced_witness:
  "\<exists>attempt :: rstr \<Rightarrow> upstream_config \<Rightarrow> (opened_stream \<times> nat) res. \<exists>tried s h'.
     find_and_connect_stream demo_routing 100 attempt (Name (lit ''x'') 80) (Some [1]) demo_config Map.empty demo_counters = (tried, Inr s, h') \<and>
     announces demo_proto (Name (lit ''x'') 80) (Some [1]) s"
proof -
  let ?dst = "Name (lit ''x'') 80" and ?d = "Some [1] :: bytes option"
  let ?attempt = "\<lambda>n c. and_then (the (new_stream demo_proto (uc_protocol c) ?dst ?d (cc_fwmark demo_config))) (\<lambda>s. Inr (s, 5 :: nat))"
  have conf: "(n, c) \<in> set (cc_upstreams demo_config) \<Longrightarrow> uc_protocol c = Direct \<or> uc_protocol c = UdpMan (Name (lit ''h'') 1)" for n c
    by (auto simp: demo_config_def default_config_def)
  have dir: "new_stream demo_proto Direct ?dst ?d (cc_fwmark demo_config) =
      Some (Inr (OsDirect \<lparr>op_plain = [1], op_counted = [], op_in = [[9]]\<rparr>))"
    by (simp add: demo_proto_def direct_new_stream_def demo_net_def set_mark_def demo_config_def default_config_def)
  have a: "\<exists>r. new_stream demo_proto (uc_protocol c) ?dst ?d (cc_fwmark demo_config) = Some r \<and> (\<forall>p. r \<noteq> Inl (Panic p)) \<and>
      ?attempt n c = and_then r (\<lambda>s. Inr (s, 5))" if m: "(n, c) \<in> set (cc_upstreams demo_config)" for n c
    using conf[OF m] dir by auto
  have best: "find_best_upstream demo_routing 100 demo_counters demo_config Stream Map.empty ?dst ?d =
      [(lit ''a'', \<lparr>uc_protocol = Direct, uc_groups = None, uc_enabled = True\<rparr>)]"
    using demo_verdict[where t = Stream and a = ?dst and d = ?d]
    by (simp add: find_best_upstream_def scored_upstreams_def demo_config_def default_config_def Let_def)
  obtain tried s h' where f: "find_and_connect_stream demo_routing 100 ?attempt ?dst ?d demo_config Map.empty demo_counters = (tried, Inr s, h')"
    using best dir by (simp add: find_and_connect_stream_def)
  have "\<exists>(n, c) \<in> set (cc_upstreams demo_config). eligible Stream (verdict demo_routing demo_config Stream ?dst ?d) n c \<and>
      supports (uc_protocol c) Stream \<and> new_stream demo_proto (uc_protocol c) ?dst ?d (cc_fwmark demo_config) = Some (Inr s) \<and>
      announces demo_proto ?dst ?d s"
    by (rule connected_stream_announced[where E = "\<lambda>_. demo_proto" and latency = "\<lambda>_. 5", OF demo_distinct _ f]) (rule a)
  then show ?thesis using f by blast
qed

text \<open>An upstream that is asked for traffic it does not implement refuses at once, without a connection.\<close>

theorem unsupported_refused:
  "(\<not> supports p Stream \<longrightarrow> new_stream E p dst d fwmark = Some (Inl (Err ''Stream unsupported''))) \<and>
   ((\<exists>server pw. p = FireTcp server pw) \<or> (\<exists>server ssl auth. p = HttpProxy server ssl auth) \<longrightarrow>
      \<not> supports p Datagram \<and> new_datagram E p dst d' fwmark tx h = (Some (Inl (Err ''Datagram unsupported'')), h))"
  by (cases p) (auto split: traffic_type.splits bool.splits)

text \<open>
  A rule that names an upstream sends it every kind of traffic: a stream for a named, enabled UDP upstream always fails, and no
  other upstream is tried.
\<close>

theorem named_udp_upstream_fails:
  assumes "distinct (map fst (cc_upstreams cfg))" and "verdict R cfg Stream dst d = Some (RProxy name)"
    and "map_of (cc_upstreams cfg) name = Some c" and "uc_protocol c = UdpMan server" and "uc_enabled c"
    and "new_stream E (uc_protocol c) dst d (cc_fwmark cfg) = Some r" and "attempt name c = and_then r (\<lambda>s. Inr (s, latency))"
  shows "\<exists>e h'. find_and_connect_stream R now attempt dst d cfg stats h = ([name], Inl e, h')"
proof -
  have "find_best_upstream R now h cfg Stream stats dst d = [(name, c)]"
    using assms(2,3,5) by (simp add: find_best_upstream_def scored_upstreams_def Let_def)
  moreover have "attempt name c = Inl (Err ''Stream unsupported'')" using assms(4,6,7) by auto
  ultimately show ?thesis by (simp add: find_and_connect_stream_def)
qed

lemma forward_up_all:
  assumes "\<forall>(d, a) \<in> set items. resolve_first lookup a = Inr (f a)"
  shows "forward_up lookup tx (map Inr items @ [Inl e]) h =
    (map (\<lambda>(d, a). (d, f a)) items, Inl e, counter_inc tx (of_nat (sum_list (map (length \<circ> fst) items))) h)"
  using assms
proof (induction items arbitrary: h)
  case Nil
  then show ?case by (simp add: counter_inc_0)
next
  case (Cons x items)
  then show ?case by (cases x) (auto simp: direct_sink_def counter_inc_add)
qed

lemma forward_down_all:
  "forward_down rx (map Inr items) h =
    (map (\<lambda>(d, a). (d, IP a)) items, Inr (), counter_inc rx (of_nat (sum_list (map (length \<circ> fst) items))) h)"
proof (induction items arbitrary: h)
  case Nil
  then show ?case by (simp add: counter_inc_0)
next
  case (Cons x items)
  then show ?case by (cases x) (auto simp: direct_stream_def counter_inc_add)
qed



end
