(* ===== verification/Programs.thy ===== *)
theory Programs
  imports Relay Fire_Key
begin

text \<open>
  The programs around the components (src/bin/cpxy.rs, src/jni_export.rs): starting the services of the server and
  the controller of the client, the loops that accept connections
  (src/client/handler.rs, src/protocol/tcpman/server/handler.rs, src/protocol/http/server.rs), the table of clients of the FireTCP server
  (src/protocol/firetcp/server.rs), and the handles of the Android binding. Binding, accepting and the end of a connection
  are outcomes given to the model.
\<close>

section \<open>Starting the server\<close>

datatype service = TcpManService | FireTcpService | UdpManService

record server_args =
  sa_host :: ip_addr
  sa_tcpman_port :: "u16 option"
  sa_udpman_port :: "u16 option"
  sa_firetcp_port :: "u16 option"

text \<open>The outcomes of binding, and the environment variable with the password.\<close>

record server_os =
  os_bind_tcp :: "socket_addr \<Rightarrow> unit res"
  os_bind_udp :: "socket_addr \<Rightarrow> unit res"
  os_password :: "rstr option"

definition start_serving_tcp :: "server_os \<Rightarrow> service \<Rightarrow> ip_addr \<Rightarrow> u16 \<Rightarrow> (service \<times> socket_addr) res" where
  "start_serving_tcp os name host port =
     (let addr = sock_new host port in and_then (in_context ''Binding'' (os_bind_tcp os addr)) (\<lambda>_. Inr (name, addr)))"

definition start_serving_udp :: "server_os \<Rightarrow> service \<Rightarrow> ip_addr \<Rightarrow> u16 \<Rightarrow> (service \<times> socket_addr) res" where
  "start_serving_udp os name host port =
     (let addr = sock_new host port in and_then (in_context ''Binding'' (os_bind_udp os addr)) (\<lambda>_. Inr (name, addr)))"

text \<open>
  The \<open>Server\<close> command up to waiting: the services started so far, in order, and the error that ended the
  start, if any. Tasks started before an error are dropped with their list, which cancels them. \<open>select_all\<close> of the
  \<open>futures\<close> library is documented to panic on an empty list.
\<close>

definition start_opt :: "'p option \<Rightarrow> ('p \<Rightarrow> 't res) \<Rightarrow> 't list \<Rightarrow> 't list \<times> unit res" where
  "start_opt port start tasks =
     (case port of
        None \<Rightarrow> (tasks, Inr ())
      | Some p \<Rightarrow> (case start p of Inl e \<Rightarrow> (tasks, Inl e) | Inr t \<Rightarrow> (tasks @ [t], Inr ())))"

definition server_command :: "server_os \<Rightarrow> server_args \<Rightarrow> (service \<times> socket_addr) list \<times> unit res" where
  "server_command os a =
     (case start_opt (sa_tcpman_port a) (start_serving_tcp os TcpManService (sa_host a)) [] of
        (tasks, Inl e) \<Rightarrow> (tasks, Inl e)
      | (tasks, Inr _) \<Rightarrow>
          (case start_opt (sa_firetcp_port a)
                  (\<lambda>port. and_then (ok_or ''Firetcp password must be given via env FIRETCP_PASSWORD'' (os_password os)) (\<lambda>_.
                            start_serving_tcp os FireTcpService (sa_host a) port)) tasks of
             (tasks, Inl e) \<Rightarrow> (tasks, Inl e)
           | (tasks, Inr _) \<Rightarrow>
               (case start_opt (sa_udpman_port a) (start_serving_udp os UdpManService (sa_host a)) tasks of
                  (tasks, Inl e) \<Rightarrow> (tasks, Inl e)
                | (tasks, Inr _) \<Rightarrow>
                    (tasks, if tasks = [] then Inl (Panic ''select_all on an empty list'') else Inr ()))))"

text \<open>The \<open>Client\<close> command: the address of the controller, once it is bound.\<close>

definition client_command :: "server_os \<Rightarrow> ip_addr \<Rightarrow> u16 \<Rightarrow> socket_addr res" where
  "client_command os host port =
     (let addr = sock_new host port in and_then (in_context ''Binding controller socket'' (os_bind_tcp os addr)) (\<lambda>_. Inr addr))"

section \<open>Accepting connections\<close>

text \<open>
  The loops of \<open>run_proxy_with\<close>, of the tunnel server and of the HTTP server: each accepted connection gets a task of its own, whose
  result is only logged; an error of accepting ends the loop.
\<close>

record ('c, 'r) acceptor =
  ac_spawned :: "'c list"
  ac_results :: "(nat \<times> 'r res) list"
  ac_ended :: "fault option"

datatype ('c, 'r) accept_event = Accepted "'c res" | TaskEnded nat "'r res"

definition acceptor_new :: "('c, 'r) acceptor" where
  "acceptor_new = \<lparr>ac_spawned = [], ac_results = [], ac_ended = None\<rparr>"

fun accept_loop_step :: "('c, 'r) accept_event \<Rightarrow> ('c, 'r) acceptor \<Rightarrow> ('c, 'r) acceptor" where
  "accept_loop_step (Accepted r) s =
     (case ac_ended s of
        Some _ \<Rightarrow> s
      | None \<Rightarrow> (case r of Inr c \<Rightarrow> s\<lparr>ac_spawned := ac_spawned s @ [c]\<rparr> | Inl e \<Rightarrow> s\<lparr>ac_ended := Some e\<rparr>))"
| "accept_loop_step (TaskEnded i r) s = s\<lparr>ac_results := ac_results s @ [(i, r)]\<rparr>"

section \<open>The clients of the FireTCP server\<close>

text \<open>
  A task serves its client, then takes the lock to remove the client from the table, then has
  ended; it is cancelled when its handle is dropped, unless it has already reached the removal, which has no point
  where it could be interrupted.
\<close>

datatype fire_phase = FServing | FRemoving | FEnded | FCancelled

record fire_server =
  fs_clients :: "socket_addr \<rightharpoonup> nat"
  fs_tasks :: "(socket_addr \<times> fire_phase) list"

definition fire_server_new :: fire_server where
  "fire_server_new = \<lparr>fs_clients = Map.empty, fs_tasks = []\<rparr>"

definition drop_task :: "nat option \<Rightarrow> (socket_addr \<times> fire_phase) list \<Rightarrow> (socket_addr \<times> fire_phase) list" where
  "drop_task i ts =
     (case i of
        None \<Rightarrow> ts
      | Some k \<Rightarrow> if k < length ts \<and> snd (ts ! k) = FServing then ts[k := (fst (ts ! k), FCancelled)] else ts)"

text \<open>A new client: its task is inserted under the lock, and the task it replaces is dropped.\<close>

definition fire_accept_client :: "socket_addr \<Rightarrow> fire_server \<Rightarrow> fire_server" where
  "fire_accept_client addr s =
     \<lparr>fs_clients = (fs_clients s)(addr \<mapsto> length (fs_tasks s)),
      fs_tasks = drop_task (fs_clients s addr) (fs_tasks s) @ [(addr, FServing)]\<rparr>"

definition fire_task_served :: "nat \<Rightarrow> fire_server \<Rightarrow> fire_server" where
  "fire_task_served i s =
     (if i < length (fs_tasks s) \<and> snd (fs_tasks s ! i) = FServing
      then s\<lparr>fs_tasks := (fs_tasks s)[i := (fst (fs_tasks s ! i), FRemoving)]\<rparr> else s)"

definition fire_task_remove :: "nat \<Rightarrow> fire_server \<Rightarrow> fire_server" where
  "fire_task_remove i s =
     (if i < length (fs_tasks s) \<and> snd (fs_tasks s ! i) = FRemoving
      then (let addr = fst (fs_tasks s ! i)
            in \<lparr>fs_clients = (fs_clients s)(addr := None),
                fs_tasks = drop_task (fs_clients s addr) ((fs_tasks s)[i := (addr, FEnded)])\<rparr>)
      else s)"

inductive fire_step :: "fire_server \<Rightarrow> fire_server \<Rightarrow> bool" where
  step_accept: "fire_step s (fire_accept_client addr s)"
| step_served: "fire_step s (fire_task_served i s)"
| step_remove: "fire_step s (fire_task_remove i s)"

inductive fire_reach :: "fire_server \<Rightarrow> bool" where
  reach_new: "fire_reach fire_server_new"
| reach_step: "fire_reach s \<Longrightarrow> fire_step s s' \<Longrightarrow> fire_reach s'"

inductive_cases fire_stepE: "fire_step s s'"

section \<open>The handles of the Android binding\<close>

text \<open>
  An instance lives in memory that is leaked on purpose; the handle is its address, 0 when starting
  failed. Using a handle whose memory is not (or no longer) an instance has no defined behaviour; the model
  makes it a panic. \<open>throws\<close> is an exception raised in the calling program.
\<close>

record jni_heap =
  jh_live :: "nat \<rightharpoonup> u16"
  jh_next :: nat

definition jni_start :: "u16 res \<Rightarrow> jni_heap \<Rightarrow> nat \<times> bool \<times> jni_heap" where
  "jni_start bound h =
     (case bound of
        Inl _ \<Rightarrow> (0, True, h)
      | Inr port \<Rightarrow> (jh_next h, False, \<lparr>jh_live = (jh_live h)(jh_next h \<mapsto> port), jh_next = jh_next h + 1\<rparr>))"

definition jni_get_port :: "nat \<Rightarrow> jni_heap \<Rightarrow> u16 res \<times> jni_heap" where
  "jni_get_port i h = (case jh_live h i of Some port \<Rightarrow> (Inr port, h) | None \<Rightarrow> (Inl (Panic ''invalid pointer''), h))"

definition jni_stop :: "nat \<Rightarrow> jni_heap \<Rightarrow> unit res \<times> bool \<times> jni_heap" where
  "jni_stop i h =
     (if i = 0 then (Inr (), True, h)
      else case jh_live h i of
             Some _ \<Rightarrow> (Inr (), False, h\<lparr>jh_live := (jh_live h)(i := None)\<rparr>)
           | None \<Rightarrow> (Inl (Panic ''invalid pointer''), False, h))"

section \<open>Lemmas\<close>

definition fire_inv :: "fire_server \<Rightarrow> bool" where
  "fire_inv s \<longleftrightarrow>
     (\<forall>a i. fs_clients s a = Some i \<longrightarrow> i < length (fs_tasks s) \<and> fst (fs_tasks s ! i) = a \<and> snd (fs_tasks s ! i) \<in> {FServing, FRemoving}) \<and>
     (\<forall>i < length (fs_tasks s). snd (fs_tasks s ! i) = FServing \<longrightarrow> fs_clients s (fst (fs_tasks s ! i)) = Some i)"

lemma length_drop_task [simp]: "length (drop_task i ts) = length ts"
  by (simp add: drop_task_def split: option.split)

lemma drop_task_nth:
  "j < length ts \<Longrightarrow> drop_task i ts ! j = (if i = Some j \<and> snd (ts ! j) = FServing then (fst (ts ! j), FCancelled) else ts ! j)"
  by (auto simp: drop_task_def nth_list_update split: option.split)

lemma fire_inv_client:
  "fire_inv s \<Longrightarrow> fs_clients s a = Some i \<Longrightarrow> i < length (fs_tasks s)"
  "fire_inv s \<Longrightarrow> fs_clients s a = Some i \<Longrightarrow> fst (fs_tasks s ! i) = a"
  "fire_inv s \<Longrightarrow> fs_clients s a = Some i \<Longrightarrow> snd (fs_tasks s ! i) \<in> {FServing, FRemoving}"
  by (simp_all add: fire_inv_def)

lemma fire_inv_serving:
  "fire_inv s \<Longrightarrow> i < length (fs_tasks s) \<Longrightarrow> snd (fs_tasks s ! i) = FServing \<Longrightarrow> fs_clients s (fst (fs_tasks s ! i)) = Some i"
  by (simp add: fire_inv_def)

text \<open>Dropping the task of one address leaves the tasks of the others alone.\<close>

lemma drop_other:
  assumes "fire_inv s" and "fs_clients s a = Some i" and "a \<noteq> addr"
  shows "drop_task (fs_clients s addr) (fs_tasks s) ! i = fs_tasks s ! i"
proof -
  have "fs_clients s addr \<noteq> Some i" using fire_inv_client(2)[OF assms(1)] assms(2,3) by metis
  then show ?thesis using drop_task_nth[OF fire_inv_client(1)[OF assms(1,2)]] by simp
qed

lemma fire_inv_accept:
  assumes "fire_inv s"
  shows "fire_inv (fire_accept_client addr s)"
proof -
  let ?d = "drop_task (fs_clients s addr) (fs_tasks s)"
  have "i < Suc (length (fs_tasks s)) \<and> fst ((?d @ [(addr, FServing)]) ! i) = a \<and> snd ((?d @ [(addr, FServing)]) ! i) \<in> {FServing, FRemoving}"
    if "((fs_clients s)(addr \<mapsto> length (fs_tasks s))) a = Some i" for a i
    using that fire_inv_client[OF assms, of a i] drop_other[OF assms, of a i addr]
    by (cases "a = addr") (auto simp: nth_append)
  moreover have "((fs_clients s)(addr \<mapsto> length (fs_tasks s))) (fst ((?d @ [(addr, FServing)]) ! i)) = Some i"
    if "i < Suc (length (fs_tasks s))" "snd ((?d @ [(addr, FServing)]) ! i) = FServing" for i
  proof (cases "i = length (fs_tasks s)")
    case False
    then have i: "i < length (fs_tasks s)" "snd (?d ! i) = FServing" using that by (auto simp: nth_append)
    then have t: "snd (fs_tasks s ! i) = FServing" "?d ! i = fs_tasks s ! i" "fs_clients s addr \<noteq> Some i"
      by (auto simp: drop_task_nth split: if_splits)
    have "fs_clients s (fst (fs_tasks s ! i)) = Some i" using fire_inv_serving[OF assms i(1) t(1)] .
    then show ?thesis using t(2,3) i by (auto simp: nth_append)
  qed (simp add: nth_append)
  ultimately show ?thesis by (simp add: fire_inv_def fire_accept_client_def)
qed

lemma fire_inv_served:
  assumes "fire_inv s"
  shows "fire_inv (fire_task_served i s)"
  using assms by (auto simp: fire_inv_def fire_task_served_def nth_list_update)

lemma fire_inv_remove:
  assumes "fire_inv s"
  shows "fire_inv (fire_task_remove i s)"
proof (cases "i < length (fs_tasks s) \<and> snd (fs_tasks s ! i) = FRemoving")
  case True
  define addr where "addr = fst (fs_tasks s ! i)"
  let ?ts = "(fs_tasks s)[i := (addr, FEnded)]"
  let ?d = "drop_task (fs_clients s addr) ?ts"
  have nth: "?d ! j = (if j = i then (addr, FEnded) else if fs_clients s addr = Some j \<and> snd (fs_tasks s ! j) = FServing
      then (fst (fs_tasks s ! j), FCancelled) else fs_tasks s ! j)" if "j < length (fs_tasks s)" for j
    using that True by (auto simp: drop_task_nth nth_list_update)
  have "j < length (fs_tasks s) \<and> fst (?d ! j) = a \<and> snd (?d ! j) \<in> {FServing, FRemoving}"
    if "fs_clients s a = Some j" "a \<noteq> addr" for a j
  proof -
    note c = fire_inv_client[OF assms that(1)]
    have "j \<noteq> i" using c(2) that(2) by (auto simp: addr_def)
    moreover have "fs_clients s addr \<noteq> Some j" using fire_inv_client(2)[OF assms, of addr j] c(2) that(2) by auto
    ultimately show ?thesis using nth[OF c(1)] c by simp
  qed
  moreover have "((fs_clients s)(addr := None)) (fst (?d ! j)) = Some j"
    if "j < length (fs_tasks s)" "snd (?d ! j) = FServing" for j
  proof -
    have j: "j \<noteq> i" "snd (fs_tasks s ! j) = FServing" "fs_clients s addr \<noteq> Some j" "?d ! j = fs_tasks s ! j"
      using that nth[OF that(1)] by (auto split: if_splits)
    then show ?thesis using fire_inv_serving[OF assms that(1) j(2)] by auto
  qed
  ultimately show ?thesis using True by (simp add: fire_inv_def fire_task_remove_def addr_def[symmetric] Let_def)
qed (use assms in \<open>auto simp: fire_task_remove_def\<close>)

lemma fire_reach_inv: "fire_reach s \<Longrightarrow> fire_inv s"
proof (induction rule: fire_reach.induct)
  case reach_new
  then show ?case by (simp add: fire_inv_def fire_server_new_def)
next
  case (reach_step s s')
  then show ?case by (auto elim!: fire_stepE intro: fire_inv_accept fire_inv_served fire_inv_remove)
qed

text \<open>The services a command line asks for, in the order in which they are started.\<close>

definition wanted :: "server_args \<Rightarrow> (service \<times> socket_addr) list" where
  "wanted a =
     (case sa_tcpman_port a of Some p \<Rightarrow> [(TcpManService, sock_new (sa_host a) p)] | None \<Rightarrow> []) @
     (case sa_firetcp_port a of Some p \<Rightarrow> [(FireTcpService, sock_new (sa_host a) p)] | None \<Rightarrow> []) @
     (case sa_udpman_port a of Some p \<Rightarrow> [(UdpManService, sock_new (sa_host a) p)] | None \<Rightarrow> [])"

definition bound :: "server_os \<Rightarrow> service \<times> socket_addr \<Rightarrow> bool" where
  "bound os t =
     (case t of
        (UdpManService, a) \<Rightarrow> os_bind_udp os a = Inr ()
      | (FireTcpService, a) \<Rightarrow> os_bind_tcp os a = Inr () \<and> os_password os \<noteq> None
      | (TcpManService, a) \<Rightarrow> os_bind_tcp os a = Inr ())"

lemma start_tcp_ok: "start_serving_tcp os n host port = Inr t \<longleftrightarrow> t = (n, sock_new host port) \<and> os_bind_tcp os (sock_new host port) = Inr ()"
  by (auto simp: start_serving_tcp_def res_simps Let_def)

lemma start_udp_ok: "start_serving_udp os n host port = Inr t \<longleftrightarrow> t = (n, sock_new host port) \<and> os_bind_udp os (sock_new host port) = Inr ()"
  by (auto simp: start_serving_udp_def res_simps Let_def)

section \<open>Properties\<close>

text \<open>
  The server starts everything it was asked for or fails: the services are started in a fixed
  order, each after its socket was bound (and, for FireTCP, a password was given); the program goes on to wait only when
  all of them run and there is at least one, and it panics when no port was given.
\<close>

theorem server_starts_all_or_fails:
  assumes "server_command os a = (tasks, r)"
  shows "prefix tasks (wanted a) \<and> (\<forall>t \<in> set tasks. bound os t) \<and>
    (r = Inr () \<longrightarrow> tasks = wanted a \<and> tasks \<noteq> []) \<and>
    (wanted a = [] \<longrightarrow> r = Inl (Panic ''select_all on an empty list''))"
  using assms
  by (auto simp: server_command_def wanted_def bound_def start_opt_def start_tcp_ok start_udp_ok res_simps
      split: option.splits sum.splits prod.splits if_splits)

text \<open>
  One connection never ends a server: the tasks that are spawned are those for the connections
  accepted before the first error of accepting, in order, whatever the results of the tasks; and
  the loop ends with exactly that error.
\<close>

fun before_error :: "('c, 'r) accept_event list \<Rightarrow> 'c list \<times> fault option" where
  "before_error [] = ([], None)"
| "before_error (TaskEnded i r # es) = before_error es"
| "before_error (Accepted (Inl e) # es) = ([], Some e)"
| "before_error (Accepted (Inr c) # es) = (c # fst (before_error es), snd (before_error es))"

lemma accept_loop_ended: "ac_ended s = Some e \<Longrightarrow>
    ac_spawned (fold accept_loop_step es s) = ac_spawned s \<and> ac_ended (fold accept_loop_step es s) = Some e"
proof (induction es arbitrary: s)
  case (Cons x es)
  then show ?case by (cases x) auto
qed simp

lemma accept_loop_run: "ac_ended s = None \<Longrightarrow>
    ac_spawned (fold accept_loop_step es s) = ac_spawned s @ fst (before_error es) \<and>
    ac_ended (fold accept_loop_step es s) = snd (before_error es)"
proof (induction es arbitrary: s rule: before_error.induct)
  case (3 e es)
  then show ?case using accept_loop_ended[of "s\<lparr>ac_ended := Some e\<rparr>" e es] by simp
qed auto

theorem connections_isolated:
  "ac_spawned (fold accept_loop_step es acceptor_new) = fst (before_error es) \<and>
   ac_ended (fold accept_loop_step es acceptor_new) = snd (before_error es)"
  using accept_loop_run[of acceptor_new es] by (simp add: acceptor_new_def)

text \<open>
  C23: The FireTCP server's table of clients is right in every reachable state, whatever the order in which clients
  come, are served and are removed: each entry is the task of a client of that address that is still running, every task
  that serves a client is in the table under its address, so no handle of a running task is lost, and no two tasks serve the same address.
\<close>

theorem fire_clients_table:
  assumes "fire_reach s"
  shows "(\<forall>a i. fs_clients s a = Some i \<longrightarrow>
            i < length (fs_tasks s) \<and> fst (fs_tasks s ! i) = a \<and> snd (fs_tasks s ! i) \<in> {FServing, FRemoving}) \<and>
    (\<forall>i < length (fs_tasks s). snd (fs_tasks s ! i) = FServing \<longrightarrow> fs_clients s (fst (fs_tasks s ! i)) = Some i) \<and>
    (\<forall>i < length (fs_tasks s). \<forall>j < length (fs_tasks s).
        fs_tasks s ! i = (a, FServing) \<and> fs_tasks s ! j = (a, FServing) \<longrightarrow> i = j)"
proof -
  have inv: "fire_inv s" using fire_reach_inv[OF assms] .
  have "i = j" if "i < length (fs_tasks s)" "j < length (fs_tasks s)" "fs_tasks s ! i = (a, FServing)" "fs_tasks s ! j = (a, FServing)" for i j a
    using fire_inv_serving[OF inv that(1)] fire_inv_serving[OF inv that(2)] that(3,4) by simp
  then show ?thesis using inv unfolding fire_inv_def by blast
qed

definition fire_demo :: fire_server where
  "fire_demo = fire_accept_client (SockV4 1 2) (fire_task_served 0 (fire_accept_client (SockV4 1 2) fire_server_new))"

lemma fire_demo_reach: "fire_reach fire_demo"
  unfolding fire_demo_def by (intro reach_step[OF _ step_accept] reach_step[OF _ step_served] reach_new)

theorem fire_clients_table_witness: "fs_clients fire_demo (SockV4 1 2) = Some 1 \<and> fs_tasks fire_demo ! 1 = (SockV4 1 2, FServing)"
  using fire_clients_table[OF fire_demo_reach, of "SockV4 1 2"]
  by (simp add: fire_demo_def fire_accept_client_def fire_task_served_def fire_server_new_def drop_task_def)

text \<open>
  An ended task can cancel a newer one: between the end of a connection and the removal of its task from the table, the same
  address may connect again; the removal then drops the new task, whose client is cut off.
\<close>

theorem stale_removal_cancels_client:
  "\<exists>s i j. fire_reach s \<and> i \<noteq> j \<and> snd (fs_tasks s ! j) = FServing \<and>
     fire_step s (fire_task_remove i s) \<and> snd (fs_tasks (fire_task_remove i s) ! j) = FCancelled"
proof -
  have "snd (fs_tasks fire_demo ! 1) = FServing" "snd (fs_tasks (fire_task_remove 0 fire_demo) ! 1) = FCancelled"
    by (simp_all add: fire_demo_def fire_accept_client_def fire_task_served_def fire_task_remove_def fire_server_new_def
        drop_task_def Let_def)
  then show ?thesis using fire_demo_reach step_remove by (intro exI[of _ fire_demo] exI[of _ 0] exI[of _ 1]) auto
qed

text \<open>
  The handles of the Android binding: a started instance answers with its port until it is stopped
  and other instances do not disturb it; the null handle, which a failed start returns, is refused
  by stopping but not by asking for the port, which then reads invalid memory; and so does any use of a handle after its stop.
\<close>

theorem jni_handles:
  assumes "jh_next h \<noteq> 0" and "jh_live h 0 = None" and "jni_start (Inr port) h = (i, threw, h1)"
  shows "\<not> threw \<and> i \<noteq> 0 \<and> jni_get_port i h1 = (Inr port, h1) \<and>
    (\<forall>j \<noteq> i. jh_live h1 j = jh_live h j) \<and>
    (\<exists>h2. jni_stop i h1 = (Inr (), False, h2) \<and> fst (jni_get_port i h2) = Inl (Panic ''invalid pointer'') \<and>
       fst (jni_stop i h2) = Inl (Panic ''invalid pointer'')) \<and>
    jni_start (Inl e) h = (0, True, h) \<and> jni_stop 0 h = (Inr (), True, h) \<and>
    fst (jni_get_port 0 h) = Inl (Panic ''invalid pointer'')"
  using assms by (auto simp: jni_start_def jni_get_port_def jni_stop_def)

end
