(* ===== verification/Streams.thy ===== *)
theory Streams
  imports Relay
begin

text \<open>
  Streams made of other streams: the union of a reader and a writer (src/io/stream.rs), which FireTCP uses to join the
  plain reading half and the encrypting writing half of a connection, and the stream that is plain or
  runs over TLS (src/fetch.rs). An \<open>AsyncRead\<close> with an \<open>AsyncWrite\<close> is the record of its operations on a state.
\<close>

section \<open>Operations\<close>

record 's stream_ops =
  io_read :: "nat \<Rightarrow> 's \<Rightarrow> bytes res poll \<times> 's"
  io_read_vectored :: "nat list \<Rightarrow> 's \<Rightarrow> bytes res poll \<times> 's"
  io_write :: "bytes \<Rightarrow> 's \<Rightarrow> nat res poll \<times> 's"
  io_write_vectored :: "bytes list \<Rightarrow> 's \<Rightarrow> nat res poll \<times> 's"
  io_flush :: "'s \<Rightarrow> unit res poll \<times> 's"
  io_close :: "'s \<Rightarrow> unit res poll \<times> 's"

text \<open>A connected socket: the segments that arrive, what was written, and whether its sending half is closed.\<close>

definition socket_ops :: "(segments \<times> bytes \<times> bool) stream_ops" where
  "socket_ops = \<lparr>
     io_read = \<lambda>n (ss, out, c). (case read_some n ss of (d, ss') \<Rightarrow> (Ready (Inr d), (ss', out, c))),
     io_read_vectored = \<lambda>ns (ss, out, c). (case read_some (sum_list ns) ss of (d, ss') \<Rightarrow> (Ready (Inr d), (ss', out, c))),
     io_write = \<lambda>b (ss, out, c).
       if c then (Ready (Inl (Err ''EPIPE'')), (ss, out, c)) else (Ready (Inr (length b)), (ss, out @ b, c)),
     io_write_vectored = \<lambda>bs (ss, out, c).
       if c then (Ready (Inl (Err ''EPIPE'')), (ss, out, c)) else (Ready (Inr (length (concat bs))), (ss, out @ concat bs, c)),
     io_flush = \<lambda>s. (Ready (Inr ()), s),
     io_close = \<lambda>(ss, out, c). (Ready (Inr ()), (ss, out, True))\<rparr>"

section \<open>The union of two streams\<close>

definition on_fst :: "('a \<Rightarrow> 'x \<times> 'a) \<Rightarrow> 'a \<times> 'b \<Rightarrow> 'x \<times> ('a \<times> 'b)" where
  "on_fst f s = (case f (fst s) of (x, a) \<Rightarrow> (x, (a, snd s)))"

definition on_snd :: "('b \<Rightarrow> 'x \<times> 'b) \<Rightarrow> 'a \<times> 'b \<Rightarrow> 'x \<times> ('a \<times> 'b)" where
  "on_snd f s = (case f (snd s) of (x, b) \<Rightarrow> (x, (fst s, b)))"

definition union_ops :: "'r stream_ops \<Rightarrow> 'w stream_ops \<Rightarrow> ('r \<times> 'w) stream_ops" where
  "union_ops R W = \<lparr>
     io_read = \<lambda>n. on_fst (io_read R n),
     io_read_vectored = \<lambda>ns. on_fst (io_read_vectored R ns),
     io_write = \<lambda>b. on_snd (io_write W b),
     io_write_vectored = \<lambda>bs. on_snd (io_write_vectored W bs),
     io_flush = on_snd (io_flush W),
     io_close = on_snd (io_close W)\<rparr>"

section \<open>Plain or TLS\<close>

datatype ('p, 't) http_conn = Plain 'p | SSL 't

fun on_conn :: "('p \<Rightarrow> 'x \<times> 'p) \<Rightarrow> ('t \<Rightarrow> 'x \<times> 't) \<Rightarrow> ('p, 't) http_conn \<Rightarrow> 'x \<times> ('p, 't) http_conn" where
  "on_conn f g (Plain p) = (case f p of (x, p') \<Rightarrow> (x, Plain p'))"
| "on_conn f g (SSL t) = (case g t of (x, t') \<Rightarrow> (x, SSL t'))"

text \<open>\<open>HttpStream\<close> passes every call on, except that \<open>poll_close\<close> flushes.\<close>

definition http_conn_ops :: "'p stream_ops \<Rightarrow> 't stream_ops \<Rightarrow> ('p, 't) http_conn stream_ops" where
  "http_conn_ops P T = \<lparr>
     io_read = \<lambda>n. on_conn (io_read P n) (io_read T n),
     io_read_vectored = \<lambda>ns. on_conn (io_read_vectored P ns) (io_read_vectored T ns),
     io_write = \<lambda>b. on_conn (io_write P b) (io_write T b),
     io_write_vectored = \<lambda>bs. on_conn (io_write_vectored P bs) (io_write_vectored T bs),
     io_flush = on_conn (io_flush P) (io_flush T),
     io_close = on_conn (io_flush P) (io_flush T)\<rparr>"

section \<open>What is left of a message head\<close>

text \<open>
  \<open>AsyncHttpStream\<close> of src/http.rs as a stream: bytes that were read together with the head come first, then the connection; the
  other half is the connection's. Its \<open>poll_read_vectored\<close> is the library's default, which reads into the first buffer that is
  not empty.
\<close>

definition http_poll_read :: "'s stream_ops \<Rightarrow> nat \<Rightarrow> rw_buffer option \<times> 's \<Rightarrow> bytes res poll \<times> (rw_buffer option \<times> 's)" where
  "http_poll_read P n s =
     (case fst s of
        Some existing \<Rightarrow>
          (let copy_len = min n (remaining_read existing)
           in case advance_read copy_len existing of
                Inl e \<Rightarrow> (Ready (Inl e), s)
              | Inr existing' \<Rightarrow>
                  (Ready (Inr (take copy_len (read_buf existing))),
                   (if remaining_read existing' = 0 then None else Some existing', snd s)))
      | None \<Rightarrow> on_snd (io_read P n) s)"

definition first_nonempty :: "nat list \<Rightarrow> nat" where
  "first_nonempty ns = (case find (\<lambda>n. 0 < n) ns of Some n \<Rightarrow> n | None \<Rightarrow> 0)"

definition http_stream_ops :: "'s stream_ops \<Rightarrow> (rw_buffer option \<times> 's) stream_ops" where
  "http_stream_ops P = \<lparr>
     io_read = http_poll_read P,
     io_read_vectored = (\<lambda>ns. http_poll_read P (first_nonempty ns)),
     io_write = (\<lambda>b. on_snd (io_write P b)),
     io_write_vectored = (\<lambda>bs. on_snd (io_write_vectored P bs)),
     io_flush = on_snd (io_flush P),
     io_close = on_snd (io_close P)\<rparr>"

section \<open>Counting\<close>

text \<open>\<open>AsyncStreamCounter\<close> of src/io/utils.rs as a stream, on the connection's state and the counters.\<close>

definition counter_ops :: "counter_ref \<Rightarrow> counter_ref \<Rightarrow> 's stream_ops \<Rightarrow> ('s \<times> counters) stream_ops" where
  "counter_ops rx tx P = \<lparr>
     io_read = (\<lambda>n (s, h). case io_read P n s of (rc, s') \<Rightarrow> (case acs_poll_read rx rc h of (rc', h') \<Rightarrow> (rc', (s', h')))),
     io_read_vectored = (\<lambda>ns (s, h). case io_read_vectored P ns s of (rc, s') \<Rightarrow> (case acs_poll_read rx rc h of (rc', h') \<Rightarrow> (rc', (s', h')))),
     io_write = (\<lambda>b (s, h). case io_write P b s of (rc, s') \<Rightarrow> (case acs_poll_write tx rc h of (rc', h') \<Rightarrow> (rc', (s', h')))),
     io_write_vectored = (\<lambda>bs (s, h). case io_write_vectored P bs s of (rc, s') \<Rightarrow> (case acs_poll_write tx rc h of (rc', h') \<Rightarrow> (rc', (s', h')))),
     io_flush = on_fst (io_flush P),
     io_close = on_fst (io_close P)\<rparr>"

section \<open>Calls\<close>

datatype io_call = CallRead nat | CallReadV "nat list" | CallWrite bytes | CallWriteV "bytes list" | CallFlush | CallClose

datatype io_result = GotData "bytes res poll" | TookBytes "nat res poll" | DoneCall "unit res poll"

fun perform :: "'s stream_ops \<Rightarrow> io_call \<Rightarrow> 's \<Rightarrow> io_result \<times> 's" where
  "perform ops (CallRead n) s = apfst GotData (io_read ops n s)"
| "perform ops (CallReadV ns) s = apfst GotData (io_read_vectored ops ns s)"
| "perform ops (CallWrite b) s = apfst TookBytes (io_write ops b s)"
| "perform ops (CallWriteV bs) s = apfst TookBytes (io_write_vectored ops bs s)"
| "perform ops CallFlush s = apfst DoneCall (io_flush ops s)"
| "perform ops CallClose s = apfst DoneCall (io_close ops s)"

fun is_read :: "io_call \<Rightarrow> bool" where
  "is_read (CallRead n) = True"
| "is_read (CallReadV ns) = True"
| "is_read _ = False"

text \<open>The calls of a program with their results, and the state afterwards.\<close>

fun perform_all :: "'s stream_ops \<Rightarrow> io_call list \<Rightarrow> 's \<Rightarrow> (io_call \<times> io_result) list \<times> 's" where
  "perform_all ops [] s = ([], s)"
| "perform_all ops (c # cs) s =
     (case perform ops c s of (r, s1) \<Rightarrow> (case perform_all ops cs s1 of (rs, s2) \<Rightarrow> ((c, r) # rs, s2)))"

section \<open>Independent halves\<close>

text \<open>
  A stream whose two halves do not interfere: \<open>inp\<close> and \<open>outp\<close> are the parts of its state the reading and the other
  calls work on. Then what a program reads does not depend on what it writes in between, and the other way
  round, which is what splitting a stream for two tasks relies on.
\<close>

locale stream_halves =
  fixes ops :: "'s stream_ops" and inp :: "'s \<Rightarrow> 'i" and outp :: "'s \<Rightarrow> 'o"
  assumes read_keeps: "is_read c \<Longrightarrow> outp (snd (perform ops c s)) = outp s"
    and write_keeps: "\<not> is_read c \<Longrightarrow> inp (snd (perform ops c s)) = inp s"
    and read_local: "is_read c \<Longrightarrow> inp s = inp s' \<Longrightarrow>
      fst (perform ops c s) = fst (perform ops c s') \<and> inp (snd (perform ops c s)) = inp (snd (perform ops c s'))"
    and write_local: "\<not> is_read c \<Longrightarrow> outp s = outp s' \<Longrightarrow>
      fst (perform ops c s) = fst (perform ops c s') \<and> outp (snd (perform ops c s)) = outp (snd (perform ops c s'))"
begin

lemma reads_alone:
  "inp s = inp s' \<Longrightarrow>
   filter (is_read \<circ> fst) (fst (perform_all ops cs s)) = fst (perform_all ops (filter is_read cs) s') \<and>
   inp (snd (perform_all ops cs s)) = inp (snd (perform_all ops (filter is_read cs) s'))"
proof (induction cs arbitrary: s s')
  case (Cons c cs)
  show ?case
  proof (cases "is_read c")
    case True
    note l = read_local[OF True Cons.prems]
    show ?thesis using True l Cons.IH[OF conjunct2[OF l]] by (auto simp: split_def)
  next
    case False
    have "inp (snd (perform ops c s)) = inp s'" using write_keeps[OF False] Cons.prems by simp
    from Cons.IH[OF this] False show ?thesis by (auto simp: split_def)
  qed
qed simp

lemma writes_alone:
  "outp s = outp s' \<Longrightarrow>
   filter (\<lambda>x. \<not> is_read (fst x)) (fst (perform_all ops cs s)) = fst (perform_all ops (filter (\<lambda>c. \<not> is_read c) cs) s') \<and>
   outp (snd (perform_all ops cs s)) = outp (snd (perform_all ops (filter (\<lambda>c. \<not> is_read c) cs) s'))"
proof (induction cs arbitrary: s s')
  case (Cons c cs)
  show ?case
  proof (cases "is_read c")
    case False
    note l = write_local[OF False Cons.prems]
    show ?thesis using False l Cons.IH[OF conjunct2[OF l]] by (auto simp: split_def)
  next
    case True
    have "outp (snd (perform ops c s)) = outp s'" using read_keeps[OF True] Cons.prems by simp
    from Cons.IH[OF this] True show ?thesis by (auto simp: split_def)
  qed
qed simp

text \<open>A buffer in front of the reading half leaves the halves independent.\<close>

lemma http_halves: "stream_halves (http_stream_ops ops) (\<lambda>s. (fst s, inp (snd s))) (\<lambda>s. outp (snd s))"
proof
  fix c :: io_call and s s' :: "rw_buffer option \<times> 's"
  show "is_read c \<Longrightarrow> outp (snd (snd (perform (http_stream_ops ops) c s))) = outp (snd s)"
    using read_keeps[of "CallRead n" for n]
    by (cases c) (auto simp: http_stream_ops_def http_poll_read_def on_snd_def Let_def split_def split: option.split sum.split)
  show "\<not> is_read c \<Longrightarrow> (fst (snd (perform (http_stream_ops ops) c s)), inp (snd (snd (perform (http_stream_ops ops) c s)))) = (fst s, inp (snd s))"
    using write_keeps[of c] by (cases c) (auto simp: http_stream_ops_def on_snd_def split_def)
  show "is_read c \<Longrightarrow> (fst s, inp (snd s)) = (fst s', inp (snd s')) \<Longrightarrow>
      fst (perform (http_stream_ops ops) c s) = fst (perform (http_stream_ops ops) c s') \<and>
      (fst (snd (perform (http_stream_ops ops) c s)), inp (snd (snd (perform (http_stream_ops ops) c s)))) =
      (fst (snd (perform (http_stream_ops ops) c s')), inp (snd (snd (perform (http_stream_ops ops) c s'))))"
    using read_local[of "CallRead n" "snd s" "snd s'" for n]
    by (cases c) (auto simp: http_stream_ops_def http_poll_read_def on_snd_def Let_def split_def split: option.split sum.split)
  show "\<not> is_read c \<Longrightarrow> outp (snd s) = outp (snd s') \<Longrightarrow>
      fst (perform (http_stream_ops ops) c s) = fst (perform (http_stream_ops ops) c s') \<and>
      outp (snd (snd (perform (http_stream_ops ops) c s))) = outp (snd (snd (perform (http_stream_ops ops) c s')))"
    using write_local[of c "snd s" "snd s'"] by (cases c) (auto simp: http_stream_ops_def on_snd_def split_def)
qed

end

lemma perform_union:
  "perform (union_ops R W) c s =
     (if is_read c then (case perform R c (fst s) of (x, r) \<Rightarrow> (x, (r, snd s))) else (case perform W c (snd s) of (x, w) \<Rightarrow> (x, (fst s, w))))"
  by (cases c) (simp_all add: union_ops_def on_fst_def on_snd_def split_def)

text \<open>The union of any reader and any writer has independent halves; a socket has, too.\<close>

interpretation union_halves: stream_halves "union_ops R W" fst snd for R W
  by unfold_locales (auto simp: perform_union split_def)

interpretation socket_halves: stream_halves socket_ops fst snd
proof unfold_locales
  fix c :: io_call and s s' :: "segments \<times> bytes \<times> bool"
  show "is_read c \<Longrightarrow> snd (snd (perform socket_ops c s)) = snd s"
    by (cases c; cases s) (auto simp: socket_ops_def split_def)
  show "\<not> is_read c \<Longrightarrow> fst (snd (perform socket_ops c s)) = fst s"
    by (cases c; cases s) (auto simp: socket_ops_def split_def)
  show "is_read c \<Longrightarrow> fst s = fst s' \<Longrightarrow> fst (perform socket_ops c s) = fst (perform socket_ops c s') \<and>
      fst (snd (perform socket_ops c s)) = fst (snd (perform socket_ops c s'))"
    by (cases c; cases s; cases s') (auto simp: socket_ops_def split_def)
  show "\<not> is_read c \<Longrightarrow> snd s = snd s' \<Longrightarrow> fst (perform socket_ops c s) = fst (perform socket_ops c s') \<and>
      snd (snd (perform socket_ops c s)) = snd (snd (perform socket_ops c s'))"
    by (cases c; cases s; cases s') (auto simp: socket_ops_def split_def)
qed

interpretation http_socket_halves: stream_halves "http_stream_ops socket_ops" "\<lambda>s. (fst s, fst (snd s))" "\<lambda>s. snd (snd s)"
  by (rule socket_halves.http_halves)

section \<open>Properties\<close>

text \<open>The reading calls of a program on a union see only the reader.\<close>

lemma union_reads: "\<forall>c \<in> set cs. is_read c \<Longrightarrow>
   perform_all (union_ops R W) cs (r, w) = (fst (perform_all R cs r), (snd (perform_all R cs r), w))"
proof (induction cs arbitrary: r)
  case (Cons c cs)
  then show ?case by (auto simp: perform_union split_def)
qed simp

lemma union_writes: "\<forall>c \<in> set cs. \<not> is_read c \<Longrightarrow>
   perform_all (union_ops R W) cs (r, w) = (fst (perform_all W cs w), (r, snd (perform_all W cs w)))"
proof (induction cs arbitrary: w)
  case (Cons c cs)
  then show ?case by (auto simp: perform_union split_def)
qed simp

text \<open>
  A union behaves as its two parts on their own: whatever a program does with it and in whatever order, the reading calls give what the reader
  gives for those calls alone, all other calls give what the writer gives for those alone,
  and both are left in the states those calls leave them in.
\<close>

theorem union_is_both_halves:
  "let (results, s) = perform_all (union_ops R W) cs (r, w);
       (reads, r') = perform_all R (filter is_read cs) r;
       (writes, w') = perform_all W (filter (\<lambda>c. \<not> is_read c) cs) w
   in filter (is_read \<circ> fst) results = reads \<and> filter (\<lambda>x. \<not> is_read (fst x)) results = writes \<and> s = (r', w')"
proof -
  have "\<forall>c \<in> set (filter is_read cs). is_read c" "\<forall>c \<in> set (filter (\<lambda>c. \<not> is_read c) cs). \<not> is_read c" by auto
  note p = union_reads[OF this(1), of R W r w] union_writes[OF this(2), of R W r w]
  have "filter (is_read \<circ> fst) (fst (perform_all (union_ops R W) cs (r, w))) = fst (perform_all R (filter is_read cs) r) \<and>
     fst (snd (perform_all (union_ops R W) cs (r, w))) = snd (perform_all R (filter is_read cs) r)"
    using union_halves.reads_alone[of "(r, w)" "(r, w)" R W cs] p(1) by simp
  moreover have "filter (\<lambda>x. \<not> is_read (fst x)) (fst (perform_all (union_ops R W) cs (r, w))) =
       fst (perform_all W (filter (\<lambda>c. \<not> is_read c) cs) w) \<and>
     snd (snd (perform_all (union_ops R W) cs (r, w))) = snd (perform_all W (filter (\<lambda>c. \<not> is_read c) cs) w)"
    using union_halves.writes_alone[of "(r, w)" "(r, w)" R W cs] p(2) by simp
  ultimately show ?thesis by (auto simp: split_def prod_eq_iff)
qed

text \<open>
  A plain or TLS stream never closes its connection: closing it only flushes, so after any calls on a
  socket wrapped this way its sending half is still open and the peer sees no end.
\<close>

lemma http_conn_open_step:
  assumes "perform (http_conn_ops socket_ops T) c (Plain (ss, out, False)) = (x, s')"
  shows "\<exists>ss' out'. s' = Plain (ss', out', False)"
  using assms by (cases c) (auto simp: http_conn_ops_def socket_ops_def split_def)

theorem http_stream_never_closes:
  "\<exists>ss' out'. snd (perform_all (http_conn_ops socket_ops T) cs (Plain (ss, out, False))) = Plain (ss', out', False)"
proof (induction cs arbitrary: ss out)
  case (Cons c cs)
  obtain x s1 where p: "perform (http_conn_ops socket_ops T) c (Plain (ss, out, False)) = (x, s1)" by force
  obtain ss1 out1 where "s1 = Plain (ss1, out1, False)" using http_conn_open_step[OF p] by blast
  then show ?case using p Cons.IH[of ss1 out1] by (auto simp: split_def)
qed simp

text \<open>The bytes a program got out of its calls, and how many it got rid of.\<close>

fun data_of :: "io_call \<times> io_result \<Rightarrow> bytes" where
  "data_of (c, GotData (Ready (Inr d))) = d"
| "data_of _ = []"

fun taken_of :: "io_call \<times> io_result \<Rightarrow> nat" where
  "taken_of (c, TookBytes (Ready (Inr n))) = n"
| "taken_of _ = 0"

definition unread :: "rw_buffer option \<times> segments \<times> 'w \<Rightarrow> bytes" where
  "unread s = (case fst s of Some e \<Rightarrow> read_buf e | None \<Rightarrow> []) @ concat (fst (snd s))"

definition buffer_ok :: "rw_buffer option \<Rightarrow> bool" where
  "buffer_ok b = (case b of Some e \<Rightarrow> rwb_inv e | None \<Rightarrow> True)"

lemma http_poll_read_unread:
  assumes "buffer_ok (fst s)" and "http_poll_read socket_ops n s = (x, s')"
  shows "\<exists>d. x = Ready (Inr d) \<and> d @ unread s' = unread s \<and> buffer_ok (fst s')"
proof (cases "fst s")
  case None
  then show ?thesis using assms(2) read_some_concat[OF surjective_pairing[of "read_some n (fst (snd s))"]]
    by (auto simp: http_poll_read_def on_snd_def socket_ops_def unread_def buffer_ok_def split_def)
next
  case (Some e)
  have inv: "rwb_inv e" using assms(1) Some by (simp add: buffer_ok_def)
  let ?n = "min n (remaining_read e)"
  obtain e' where e': "advance_read ?n e = Inr e'" "rwb_inv e'" "read_buf e' = drop ?n (read_buf e)"
    using advance_read_spec[OF inv, of ?n] length_read_buf[OF inv] by auto
  have "remaining_read e' = 0 \<Longrightarrow> read_buf e' = []" using length_read_buf[OF e'(2)] by simp
  then show ?thesis using assms(2) Some e' append_take_drop_id[of ?n "read_buf e"]
    by (auto simp: http_poll_read_def unread_def buffer_ok_def Let_def)
qed

lemma no_data: "\<not> is_read c \<Longrightarrow> data_of (c, fst (perform ops c s)) = []"
  by (cases c) (simp_all add: apfst_def map_prod_def split_def)

lemma http_perform_unread:
  assumes "buffer_ok (fst s)" and "perform (http_stream_ops socket_ops) c s = (x, s')"
  shows "data_of (c, x) @ unread s' = unread s \<and> buffer_ok (fst s')"
proof (cases "is_read c")
  case True
  then obtain n where "perform (http_stream_ops socket_ops) c s = apfst GotData (http_poll_read socket_ops n s)"
    by (cases c) (auto simp: http_stream_ops_def)
  moreover obtain y t where y: "http_poll_read socket_ops n s = (y, t)" by (metis prod.exhaust)
  ultimately show ?thesis using assms(2) http_poll_read_unread[OF assms(1) y] by auto
next
  case False
  then show ?thesis using http_socket_halves.write_keeps[OF False, of s] no_data[OF False, of "http_stream_ops socket_ops" s] assms
    by (simp add: unread_def)
qed

lemma http_writes: "\<forall>c \<in> set cs. \<not> is_read c \<Longrightarrow>
   perform_all (http_stream_ops P) cs (b, s) = (fst (perform_all P cs s), (b, snd (perform_all P cs s)))"
proof (induction cs arbitrary: s)
  case (Cons c cs)
  then show ?case by (cases c) (auto simp: http_stream_ops_def on_snd_def split_def)
qed simp

text \<open>
  Wrapping a connection after its message head was parsed loses nothing and holds nothing back: whatever a program
  does with the wrapped stream and in whatever order, what it has read is exactly what was buffered and then what the connection
  delivers, with the rest still to come, and every other call gives what the connection gives for those calls alone.
\<close>

theorem http_stream_transparent:
  assumes "buffer_ok b"
  shows "let (rs, s') = perform_all (http_stream_ops socket_ops) cs (b, s) in
     concat (map data_of rs) @ unread s' = unread (b, s) \<and>
     filter (\<lambda>x. \<not> is_read (fst x)) rs = fst (perform_all socket_ops (filter (\<lambda>c. \<not> is_read c) cs) s)"
proof -
  have "concat (map data_of (fst (perform_all (http_stream_ops socket_ops) cs t))) @
      unread (snd (perform_all (http_stream_ops socket_ops) cs t)) = unread t" if "buffer_ok (fst t)" for t
    using that
  proof (induction cs arbitrary: t)
    case (Cons c cs)
    obtain x t' where p: "perform (http_stream_ops socket_ops) c t = (x, t')" by (metis prod.exhaust)
    show ?case using p http_perform_unread[OF Cons.prems p] Cons.IH[of t'] by (auto simp: split_def)
  qed simp
  moreover have "\<forall>c \<in> set (filter (\<lambda>c. \<not> is_read c) cs). \<not> is_read c" by simp
  note http_writes[OF this, of socket_ops b s]
  ultimately show ?thesis
    using http_socket_halves.writes_alone[of "(b, s)" "(b, s)" cs] assms by (simp add: split_def)
qed

theorem http_stream_transparent_witness:
  "let (rs, s') = perform_all (http_stream_ops socket_ops) [CallRead 9, CallWrite [7], CallRead 9] (None, ([[1, 2], [3]], [], False)) in
     concat (map data_of rs) @ unread s' = [1, 2, 3]"
  using http_stream_transparent[of None "[CallRead 9, CallWrite [7], CallRead 9]" "([[1, 2], [3]], [], False)"]
  by (simp add: buffer_ok_def unread_def split_def)

text \<open>
  A counted stream behaves as the stream it counts, and its two counters grow by what was read and written.
\<close>

lemma acs_results:
  "acs_poll_read rx rc h = (rc, counter_inc rx (of_nat (length (data_of (c, GotData rc)))) h)"
  "acs_poll_write tx wc h = (wc, counter_inc tx (of_nat (taken_of (c, TookBytes wc))) h)"
  by (auto simp: acs_poll_read_def acs_poll_write_def counter_inc_0 split: poll.split sum.split)

lemma counter_perform:
  "perform (counter_ops rx tx P) c (s, h) =
     (let (x, s') = perform P c s
      in (x, (s', counter_inc rx (of_nat (length (data_of (c, x)))) (counter_inc tx (of_nat (taken_of (c, x))) h))))"
  by (cases c) (simp_all add: counter_ops_def acs_results[where c = c] on_fst_def counter_inc_0 split_def Let_def)

theorem counted_stream_transparent:
  assumes "rx \<noteq> tx"
  shows "let (rs, s', h') = perform_all (counter_ops rx tx P) cs (s, h) in
     perform_all P cs s = (rs, s') \<and>
     counter_get rx h' = counter_get rx h + of_nat (length (concat (map data_of rs))) \<and>
     counter_get tx h' = counter_get tx h + of_nat (sum_list (map taken_of rs))"
proof (induction cs arbitrary: s h)
  case (Cons c cs)
  obtain x s1 where p: "perform P c s = (x, s1)" by (metis prod.exhaust)
  let ?h = "counter_inc rx (of_nat (length (data_of (c, x)))) (counter_inc tx (of_nat (taken_of (c, x))) h)"
  show ?case using Cons.IH[of s1 ?h] p assms by (auto simp: counter_perform counter_get_inc split_def Let_def)
qed simp

end
