(* ===== verification/Transparent.thy ===== *)
theory Transparent
  imports Udp_Assoc
begin

text \<open>
  The transparent UDP proxy (src/client/transparent/handler.rs and udp_proxy.rs): a table of
  sessions, one per client and original destination, each of which opens datagrams on an upstream and
  relays in both directions.
\<close>

section \<open>The session table\<close>

type_synonym session_key = "socket_addr \<times> socket_addr"

text \<open>
  A session as the table sees it: its key, its first datagram, the queue of its channel (ten slots),
  whether its task still holds the receiving end, and whether the task, done with its work, is still
  to announce its key for clean-up.
\<close>

record udp_session =
  se_key :: session_key
  se_initial :: bytes
  se_queue :: "bytes list"
  se_open :: bool
  se_announces :: bool

record tproxy =
  tp_table :: "session_key \<rightharpoonup> nat"
  tp_sessions :: "udp_session list"
  tp_cleanup :: "session_key list"

definition tproxy_new :: tproxy where
  "tproxy_new = \<lparr>tp_table = Map.empty, tp_sessions = [], tp_cleanup = []\<rparr>"

definition session_new :: "session_key \<Rightarrow> bytes \<Rightarrow> udp_session" where
  "session_new key initial_data = \<lparr>se_key = key, se_initial = initial_data, se_queue = [], se_open = True, se_announces = False\<rparr>"

text \<open>Removing a session drops its task, which cancels it.\<close>

definition table_remove :: "session_key \<Rightarrow> tproxy \<Rightarrow> tproxy" where
  "table_remove key s =
     (case tp_table s key of
        None \<Rightarrow> s
      | Some i \<Rightarrow>
          s\<lparr>tp_table := (tp_table s)(key := None),
            tp_sessions := (tp_sessions s)[i := (tp_sessions s ! i)\<lparr>se_open := False, se_announces := False\<rparr>]\<rparr>)"

text \<open>One datagram from a client, with its original destination.\<close>

definition tproxy_datagram :: "bytes \<Rightarrow> socket_addr \<Rightarrow> socket_addr \<Rightarrow> tproxy \<Rightarrow> tproxy" where
  "tproxy_datagram buf src dst s =
     (let key = (src, dst)
      in case tp_table s key of
           Some i \<Rightarrow>
             (let se = tp_sessions s ! i
              in if \<not> se_open se then table_remove key s
                 else if length (se_queue se) < 10
                 then s\<lparr>tp_sessions := (tp_sessions s)[i := se\<lparr>se_queue := se_queue se @ [buf]\<rparr>]\<rparr>
                 else s)
         | None \<Rightarrow>
             s\<lparr>tp_table := (tp_table s)(key \<mapsto> length (tp_sessions s)),
               tp_sessions := tp_sessions s @ [session_new key buf]\<rparr>)"

text \<open>The clean-up branch of the loop; nothing happens while the channel is empty.\<close>

definition tproxy_cleanup :: "tproxy \<Rightarrow> tproxy" where
  "tproxy_cleanup s = (case tp_cleanup s of [] \<Rightarrow> s | k # ks \<Rightarrow> table_remove k (s\<lparr>tp_cleanup := ks\<rparr>))"

text \<open>
  A session's task takes the next datagram of its queue; it stops relaying, which drops the receiver,
  or finds no upstream, which does not; it announces its key on the clean-up channel, which has two
  slots, and ends.
\<close>

definition session_take :: "nat \<Rightarrow> tproxy \<Rightarrow> tproxy" where
  "session_take i s =
     (if i < length (tp_sessions s)
      then s\<lparr>tp_sessions := (tp_sessions s)[i := (tp_sessions s ! i)\<lparr>se_queue := tl (se_queue (tp_sessions s ! i))\<rparr>]\<rparr>
      else s)"

definition session_stop :: "nat \<Rightarrow> tproxy \<Rightarrow> tproxy" where
  "session_stop i s =
     (if i < length (tp_sessions s) \<and> se_open (tp_sessions s ! i)
      then s\<lparr>tp_sessions := (tp_sessions s)[i := (tp_sessions s ! i)\<lparr>se_open := False, se_announces := True\<rparr>]\<rparr>
      else s)"

definition session_fail :: "nat \<Rightarrow> tproxy \<Rightarrow> tproxy" where
  "session_fail i s =
     (if i < length (tp_sessions s) \<and> se_open (tp_sessions s ! i)
      then s\<lparr>tp_sessions := (tp_sessions s)[i := (tp_sessions s ! i)\<lparr>se_announces := True\<rparr>]\<rparr>
      else s)"

definition session_announce :: "nat \<Rightarrow> tproxy \<Rightarrow> tproxy" where
  "session_announce i s =
     (if i < length (tp_sessions s) \<and> se_announces (tp_sessions s ! i) \<and> length (tp_cleanup s) < 2
      then s\<lparr>tp_sessions := (tp_sessions s)[i := (tp_sessions s ! i)\<lparr>se_open := False, se_announces := False\<rparr>],
             tp_cleanup := tp_cleanup s @ [se_key (tp_sessions s ! i)]\<rparr>
      else s)"

section \<open>One session\<close>

text \<open>
  \<open>serve_udp_on_dgram\<close>: what went into the upstream's sink, what was sent back (with the address the
  sending socket is bound to), the last sender, and the DNS cache.
\<close>

record dgram_proxy =
  dp_last :: "socket_addr option"
  dp_up :: "(bytes \<times> socket_addr) list"
  dp_down :: "(bytes \<times> socket_addr \<times> socket_addr) list"
  dp_dns :: dns_cache

definition dgram_start :: "bytes \<Rightarrow> socket_addr \<Rightarrow> dns_cache \<Rightarrow> dgram_proxy" where
  "dgram_start initial_data dst cache =
     \<lparr>dp_last = None, dp_up = [(initial_data, dst)], dp_down = [], dp_dns = cache\<rparr>"

definition dgram_cache :: "(bytes \<Rightarrow> dns_packet option) \<Rightarrow> nat \<Rightarrow> socket_addr \<Rightarrow> bytes \<Rightarrow> dns_cache \<Rightarrow> dns_cache" where
  "dgram_cache parse now from_addr buf m =
     (if sock_port from_addr = 53
      then (case dns_cache_response parse now buf m of Inr m' \<Rightarrow> m' | Inl _ \<Rightarrow> m)
      else m)"

text \<open>The answer to a one-off query: \<open>None\<close> is the timeout, \<open>Some None\<close> the end of the stream.\<close>

definition dgram_one_off ::
  "(bytes \<Rightarrow> dns_packet option) \<Rightarrow> nat \<Rightarrow> socket_addr \<Rightarrow> socket_addr \<Rightarrow> (bytes \<times> socket_addr) res option option \<Rightarrow>
   dgram_proxy \<Rightarrow> unit res \<times> dgram_proxy" where
  "dgram_one_off parse now src dst reply p =
     (case reply of
        None \<Rightarrow> (Inl (Err ''Timeout waiting for one off query response''), p)
      | Some None \<Rightarrow> (Inl (Err ''Unexpected EOF from upstream''), p)
      | Some (Some (Inl e)) \<Rightarrow> (Inl e, p)
      | Some (Some (Inr (data, _))) \<Rightarrow>
          (Inr (), p\<lparr>dp_dns := dgram_cache parse now dst data (dp_dns p), dp_down := dp_down p @ [(data, dst, src)]\<rparr>))"

definition dgram_upload :: "bytes \<Rightarrow> dgram_proxy \<Rightarrow> dgram_proxy" where
  "dgram_upload data p =
     (case dp_last p of None \<Rightarrow> p | Some addr \<Rightarrow> p\<lparr>dp_up := dp_up p @ [(data, addr)]\<rparr>)"

definition dgram_download ::
  "(bytes \<Rightarrow> dns_packet option) \<Rightarrow> nat \<Rightarrow> socket_addr \<Rightarrow> bytes \<Rightarrow> socket_addr \<Rightarrow> dgram_proxy \<Rightarrow> dgram_proxy" where
  "dgram_download parse now src buf from_addr p =
     p\<lparr>dp_last := Some from_addr, dp_dns := dgram_cache parse now from_addr buf (dp_dns p),
       dp_down := dp_down p @ [(buf, from_addr, src)]\<rparr>"

section \<open>The task of a session\<close>

text \<open>
  The task of \<open>UdpSession::new\<close>: the upstreams the rules admit are tried like those of an association; the
  result when none opened datagrams; and the datagrams of an upstream's stream, which must name an IP
  address.
\<close>

definition session_upstream ::
  "routing_env \<Rightarrow> nat \<Rightarrow> counters \<Rightarrow> (rstr \<Rightarrow> upstream_config \<Rightarrow> address \<Rightarrow> bytes \<Rightarrow> 'u res) \<Rightarrow> client_config \<Rightarrow>
   client_statistics \<Rightarrow> socket_addr \<Rightarrow> bytes \<Rightarrow> rstr list \<times> (fault option + 'u)" where
  "session_upstream R now h open_dgram cfg stats dst initial_data =
     try_datagrams (\<lambda>n c. in_context ''Creating upstream dgram'' (open_dgram n c (IP dst) initial_data))
       (rev (find_best_upstream R now h cfg Datagram stats (IP dst) (Some initial_data))) None"

definition session_result :: "fault option + unit res \<Rightarrow> unit res" where
  "session_result r =
     (case r of Inl None \<Rightarrow> Inr () | Inl (Some e) \<Rightarrow> Inl e | Inr served \<Rightarrow> in_context ''serving UDP'' served)"

definition session_item :: "(bytes \<times> address) res \<Rightarrow> (bytes \<times> socket_addr) res" where
  "session_item item =
     and_then item (\<lambda>(buf, a). case a of IP addr \<Rightarrow> Inr (buf, addr) | Name _ _ \<Rightarrow> Inl (Err ''Unsupported address type''))"

text \<open>
  The start of a session on a direct upstream: the datagrams on the wire after \<open>new_datagram\<close> and after
  the first send of \<open>serve_udp_on_dgram\<close>, and the counters.
\<close>

definition direct_session_start ::
  "(rstr \<Rightarrow> u16 \<Rightarrow> socket_addr list res) \<Rightarrow> net \<Rightarrow> (bool \<Rightarrow> unit res) \<Rightarrow> (bytes \<times> socket_addr \<Rightarrow> unit res) \<Rightarrow> counter_ref \<Rightarrow>
   u32 option \<Rightarrow> dns_cache \<Rightarrow> socket_addr \<Rightarrow> bytes \<Rightarrow> counters \<Rightarrow> ((bytes \<times> socket_addr) list \<times> dgram_proxy \<times> counters) res" where
  "direct_session_start lookup N bind_ok send_ok tx fwmark cache dst initial_data h =
     and_then (direct_new_datagram lookup N bind_ok send_ok (IP dst) initial_data fwmark) (\<lambda>sent.
       let p = dgram_start initial_data dst cache; (data, addr) = hd (dp_up p)
       in case direct_sink lookup tx (data, IP addr) h of (r, h') \<Rightarrow> and_then r (\<lambda>x. Inr (sent @ [x], p, h')))"

section \<open>Lemmas\<close>

inductive tproxy_reach :: "tproxy \<Rightarrow> bool" where
  "tproxy_reach tproxy_new"
| "tproxy_reach s \<Longrightarrow> tproxy_reach (tproxy_datagram buf src dst s)"
| "tproxy_reach s \<Longrightarrow> tproxy_reach (tproxy_cleanup s)"
| "tproxy_reach s \<Longrightarrow> tproxy_reach (session_take i s)"
| "tproxy_reach s \<Longrightarrow> tproxy_reach (session_stop i s)"
| "tproxy_reach s \<Longrightarrow> tproxy_reach (session_fail i s)"
| "tproxy_reach s \<Longrightarrow> tproxy_reach (session_announce i s)"

definition tproxy_inv :: "tproxy \<Rightarrow> bool" where
  "tproxy_inv s \<longleftrightarrow>
     (\<forall>k i. tp_table s k = Some i \<longrightarrow> i < length (tp_sessions s) \<and> se_key (tp_sessions s ! i) = k) \<and>
     (\<forall>se \<in> set (tp_sessions s). length (se_queue se) \<le> 10) \<and> length (tp_cleanup s) \<le> 2"

lemma set_update_all: "\<forall>x \<in> set xs. P x \<Longrightarrow> P y \<Longrightarrow> \<forall>x \<in> set (xs[i := y]). P x"
  using set_update_subset_insert[of xs i y] by blast

text \<open>Changing the state of one session, not its key, keeps the invariant.\<close>

lemma tproxy_inv_session:
  assumes "tproxy_inv s" and "i < length (tp_sessions s)" and "se_key se = se_key (tp_sessions s ! i)"
    and "length (se_queue se) \<le> 10"
  shows "tproxy_inv (s\<lparr>tp_sessions := (tp_sessions s)[i := se]\<rparr>)"
  using assms set_update_all[of "tp_sessions s" "\<lambda>x. length (se_queue x) \<le> 10" se i]
  by (auto simp: tproxy_inv_def nth_list_update)

lemma tproxy_inv_queue: "tproxy_inv s \<Longrightarrow> i < length (tp_sessions s) \<Longrightarrow> length (se_queue (tp_sessions s ! i)) \<le> 10"
  by (simp add: tproxy_inv_def)

lemma table_remove_inv:
  assumes "tproxy_inv s"
  shows "tproxy_inv (table_remove key s)"
proof (cases "tp_table s key")
  case (Some i)
  then have i: "i < length (tp_sessions s)" using assms unfolding tproxy_inv_def by blast
  let ?t = "s\<lparr>tp_sessions := (tp_sessions s)[i := (tp_sessions s ! i)\<lparr>se_open := False, se_announces := False\<rparr>]\<rparr>"
  have "tproxy_inv ?t" using tproxy_inv_session[OF assms i] tproxy_inv_queue[OF assms i] by simp
  then have "tproxy_inv (?t\<lparr>tp_table := (tp_table s)(key := None)\<rparr>)" by (auto simp: tproxy_inv_def)
  then show ?thesis using Some by (simp add: table_remove_def tproxy_inv_def)
qed (use assms in \<open>simp add: table_remove_def\<close>)

lemma tproxy_datagram_inv:
  assumes "tproxy_inv s"
  shows "tproxy_inv (tproxy_datagram buf src dst s)"
proof (cases "tp_table s (src, dst)")
  case None
  then show ?thesis using assms by (auto simp: tproxy_datagram_def tproxy_inv_def session_new_def nth_append Let_def split: if_splits) force+
next
  case (Some i)
  then have i: "i < length (tp_sessions s)" using assms by (simp add: tproxy_inv_def)
  show ?thesis
    using Some table_remove_inv[OF assms] tproxy_inv_session[OF assms i] assms
    by (simp add: tproxy_datagram_def Let_def)
qed

lemma tproxy_reach_inv: "tproxy_reach s \<Longrightarrow> tproxy_inv s"
proof (induction rule: tproxy_reach.induct)
  case 1
  then show ?case by (simp add: tproxy_new_def tproxy_inv_def)
next
  case (2 s buf src dst)
  then show ?case by (intro tproxy_datagram_inv)
next
  case (3 s)
  have "tproxy_inv (s\<lparr>tp_cleanup := ks\<rparr>)" if "tp_cleanup s = k # ks" for k ks using 3 that by (auto simp: tproxy_inv_def)
  then show ?case using 3 table_remove_inv by (auto simp: tproxy_cleanup_def split: list.splits)
next
  case (4 s i)
  then show ?case using tproxy_inv_queue[OF 4(2), of i] tproxy_inv_session[OF 4(2), of i] by (auto simp: session_take_def)
next
  case (5 s i)
  then show ?case using tproxy_inv_queue[OF 5(2), of i] tproxy_inv_session[OF 5(2), of i] by (auto simp: session_stop_def)
next
  case (6 s i)
  then show ?case using tproxy_inv_queue[OF 6(2), of i] tproxy_inv_session[OF 6(2), of i] by (auto simp: session_fail_def)
next
  case (7 s i)
  let ?t = "s\<lparr>tp_sessions := (tp_sessions s)[i := (tp_sessions s ! i)\<lparr>se_open := False, se_announces := False\<rparr>]\<rparr>"
  have "tproxy_inv ?t" if "i < length (tp_sessions s)"
    using tproxy_inv_session[OF 7(2) that] tproxy_inv_queue[OF 7(2) that] by simp
  then show ?case using 7(2) by (auto simp: session_announce_def tproxy_inv_def)
qed

section \<open>Properties\<close>

text \<open>
  C35: Datagrams reach their own session: in every reachable state of the transparent UDP proxy, a
  datagram of a client to a destination that has a live session with room is appended to the queue of
  that session, which was created for the same client and destination, and to no other; no
  queue ever holds more than ten datagrams.
\<close>

theorem tproxy_datagram_delivery:
  assumes "tproxy_reach s" and "tp_table s (src, dst) = Some i" and "se_open (tp_sessions s ! i)"
    and "length (se_queue (tp_sessions s ! i)) < 10"
  shows "let s' = tproxy_datagram buf src dst s in
     i < length (tp_sessions s) \<and> se_key (tp_sessions s' ! i) = (src, dst) \<and>
     se_queue (tp_sessions s' ! i) = se_queue (tp_sessions s ! i) @ [buf] \<and>
     (\<forall>j < length (tp_sessions s). j \<noteq> i \<longrightarrow> tp_sessions s' ! j = tp_sessions s ! j) \<and>
     (\<forall>se \<in> set (tp_sessions s'). length (se_queue se) \<le> 10)"
proof -
  have inv: "tproxy_inv s" using tproxy_reach_inv[OF assms(1)] .
  then have i: "i < length (tp_sessions s)" "se_key (tp_sessions s ! i) = (src, dst)" using assms(2) by (auto simp: tproxy_inv_def)
  have "\<forall>se \<in> set (tp_sessions (tproxy_datagram buf src dst s)). length (se_queue se) \<le> 10"
    using tproxy_datagram_inv[OF inv] by (simp add: tproxy_inv_def)
  then show ?thesis using i assms(2-4) by (simp add: tproxy_datagram_def Let_def)
qed

theorem tproxy_datagram_delivery_witness:
  "se_queue (tp_sessions (tproxy_datagram [2] (SockV4 1 1) (SockV4 2 2) (tproxy_datagram [1] (SockV4 1 1) (SockV4 2 2) tproxy_new)) ! 0) = [[2]]"
proof -
  let ?s = "tproxy_datagram [1] (SockV4 1 1) (SockV4 2 2) tproxy_new"
  have "tproxy_reach ?s" by (intro tproxy_reach.intros)
  from tproxy_datagram_delivery[OF this, of "SockV4 1 1" "SockV4 2 2" 0 "[2]"] show ?thesis
    by (simp add: tproxy_datagram_def tproxy_new_def session_new_def Let_def)
qed

text \<open>
  A clean-up message can end a newer session: when a session has announced its key, the next datagram
  finds it closed, is dropped and removes it; the one after starts a new session for the same key,
  and the announcement, handled only now, cancels that one. Both datagrams are lost.
\<close>

theorem stale_cleanup_ends_new_session:
  "let s1 = session_announce 0 (session_stop 0 (tproxy_datagram d1 src dst tproxy_new));
       s2 = tproxy_datagram d3 src dst (tproxy_datagram d2 src dst s1);
       s3 = tproxy_cleanup s2
   in tp_table s2 (src, dst) = Some 1 \<and> se_open (tp_sessions s2 ! 1) \<and> se_initial (tp_sessions s2 ! 1) = d3 \<and>
      tp_table s3 (src, dst) = None \<and> \<not> se_open (tp_sessions s3 ! 1) \<and>
      (\<forall>se \<in> set (tp_sessions s3). se_initial se \<noteq> d2 \<or> d2 = d1 \<or> d2 = d3) \<and> (\<forall>se \<in> set (tp_sessions s3). se_queue se = [])"
  by (simp add: session_announce_def session_stop_def tproxy_datagram_def tproxy_new_def session_new_def
      tproxy_cleanup_def table_remove_def Let_def)

text \<open>The events of a session, and what they are relayed to.\<close>

datatype dgram_event = Up bytes | Down bytes socket_addr

fun dgram_run :: "(bytes \<Rightarrow> dns_packet option) \<Rightarrow> nat \<Rightarrow> socket_addr \<Rightarrow> dgram_event list \<Rightarrow> dgram_proxy \<Rightarrow> dgram_proxy" where
  "dgram_run parse now src [] p = p"
| "dgram_run parse now src (Up d # es) p = dgram_run parse now src es (dgram_upload d p)"
| "dgram_run parse now src (Down d a # es) p = dgram_run parse now src es (dgram_download parse now src d a p)"

fun relayed_up :: "socket_addr option \<Rightarrow> dgram_event list \<Rightarrow> (bytes \<times> socket_addr) list" where
  "relayed_up la [] = []"
| "relayed_up la (Up d # es) = (case la of None \<Rightarrow> [] | Some a \<Rightarrow> [(d, a)]) @ relayed_up la es"
| "relayed_up la (Down d a # es) = relayed_up (Some a) es"

fun relayed_down :: "socket_addr \<Rightarrow> dgram_event list \<Rightarrow> (bytes \<times> socket_addr \<times> socket_addr) list" where
  "relayed_down src [] = []"
| "relayed_down src (Up d # es) = relayed_down src es"
| "relayed_down src (Down d a # es) = (d, a, src) # relayed_down src es"

lemma dgram_run_relays:
  "dp_up (dgram_run parse now src es p) = dp_up p @ relayed_up (dp_last p) es \<and>
   dp_down (dgram_run parse now src es p) = dp_down p @ relayed_down src es"
proof (induction parse now src es p rule: dgram_run.induct)
  case (2 parse now src d es p)
  then show ?case by (cases "dp_last p") (simp_all add: dgram_upload_def)
qed (simp_all add: dgram_download_def)

lemma relayed_up_before_reply: "relayed_up None (map Up ds @ es) = relayed_up None es"
  by (induction ds) simp_all

text \<open>
  What a session relays: every datagram from the upstream goes to the client from a socket bound to
  its sender's address, in order; the client's datagrams go to the sender of the latest reply, and
  those that arrive before the first reply are dropped.
\<close>

theorem session_relays:
  "dp_up (dgram_run parse now src (map Up early @ es) (dgram_start initial_data dst cache)) =
     (initial_data, dst) # relayed_up None es \<and>
   dp_down (dgram_run parse now src (map Up early @ es) (dgram_start initial_data dst cache)) = relayed_down src es"
proof -
  have "relayed_down src (map Up ds @ es) = relayed_down src es" for ds by (induction ds) simp_all
  then show ?thesis
    using dgram_run_relays[of parse now src "map Up early @ es" "dgram_start initial_data dst cache"]
    by (simp add: dgram_start_def relayed_up_before_reply)
qed

text \<open>
  On a direct upstream the first datagram of a transparent session is sent twice and counted
  once: when the upstream's datagrams are opened, and again when the session starts to relay. And the socket's
  address family is the opposite of the destination's: an IPv6 destination gets an IPv4 socket.
\<close>

theorem direct_first_datagram_twice:
  assumes "bind_ok (direct_bind_v4 (IP dst)) = Inr ()" and "set_mark N fwmark = Inr ()" and "send_ok (d, dst) = Inr ()"
  shows "\<exists>p. direct_session_start lookup N bind_ok send_ok tx fwmark cache dst d h =
       Inr ([(d, dst), (d, dst)], p, counter_inc tx (of_nat (length d)) h) \<and>
    (direct_bind_v4 (IP dst) \<longleftrightarrow> \<not> is_v4 dst)"
  using assms
  by (cases dst) (simp_all add: direct_session_start_def direct_new_datagram_def dgram_start_def direct_sink_def
      resolve_first_def direct_bind_v4_def Let_def)

theorem direct_first_datagram_twice_witness:
  "\<exists>p h. direct_session_start (\<lambda>_ _. Inr []) demo_net (\<lambda>_. Inr ()) (\<lambda>_. Inr ()) 0 None Map.empty (SockV4 1 2) [7] demo_counters =
     Inr ([([7], SockV4 1 2), ([7], SockV4 1 2)], p, h)"
  using direct_first_datagram_twice[of "\<lambda>_. Inr ()" "SockV4 1 2" demo_net None "\<lambda>_. Inr ()" "[7]" "\<lambda>_ _. Inr []" 0 Map.empty demo_counters]
  by (auto simp: set_mark_def)

end
