(* ===== verification/Tsock.thy ===== *)
theory Tsock
  imports Transparent
begin

text \<open>
  The sockets of the transparent proxy (src/client/transparent/utils.rs, utils.c and
  \<open>get_original_dst\<close> of src/io/tcp.rs): opening a transparent datagram socket, receiving a datagram with the destination it was
  sent to before it was redirected, reading an address out of the memory the kernel filled in,
  and the original destination of a redirected connection. The kernel is given by the outcomes of the system calls;
  the layout of addresses and control messages is the one of Linux on a 64-bit little-endian machine.
\<close>

section \<open>Addresses in memory\<close>

definition AF_INET :: u16 where "AF_INET = 2"
definition AF_INET6 :: u16 where "AF_INET6 = 10"

definition mem_field :: "nat \<Rightarrow> nat \<Rightarrow> bytes \<Rightarrow> bytes" where
  "mem_field off n buf = take n (drop off buf)"

text \<open>
  \<open>buf_to_addr\<close>: the family is loaded in the machine's byte order; \<open>from_be\<close> of a loaded field is the
  big-endian value of its bytes. Family 0, port 2; then the IPv4 address 4, or flow 4, IPv6 address 8 and scope 24.
\<close>

definition buf_to_addr :: "bytes \<Rightarrow> socket_addr option" where
  "buf_to_addr buf =
     (let family = from_be (rev (mem_field 0 2 buf))
      in if family = AF_INET then Some (SockV4 (from_be (mem_field 4 4 buf)) (from_be (mem_field 2 2 buf)))
         else if family = AF_INET6
         then Some (SockV6 (from_be (mem_field 8 16 buf)) (from_be (mem_field 2 2 buf)) (from_be (mem_field 4 4 buf)) (from_be (mem_field 24 4 buf)))
         else None)"

text \<open>
  How the kernel stores an address: \<open>sockaddr_in\<close> of 16 bytes, \<open>sockaddr_in6\<close> of 28 bytes. Ports, addresses
  and flow labels are in network order, the scope (an interface index) in the machine's order.
\<close>

fun os_sockaddr :: "socket_addr \<Rightarrow> bytes" where
  "os_sockaddr (SockV4 a p) = [2, 0] @ be16 p @ be32 a @ replicate 8 0"
| "os_sockaddr (SockV6 a p f s) = [10, 0] @ be16 p @ be32 f @ be128 a @ rev (be32 s)"

definition swap_bytes :: "u32 \<Rightarrow> u32" where
  "swap_bytes w = from_be (rev (be32 w))"

fun decoded :: "socket_addr \<Rightarrow> socket_addr" where
  "decoded (SockV4 a p) = SockV4 a p"
| "decoded (SockV6 a p f s) = SockV6 a p f (swap_bytes s)"

section \<open>Receiving with the original destination\<close>

text \<open>
  A control message and what \<open>recvmsg\<close> delivers: the data, the sender's address as stored in the buffer and the
  control messages.
\<close>

record cmsg =
  cm_level :: nat
  cm_type :: nat
  cm_data :: bytes

record recv_msg =
  rm_data :: bytes
  rm_name :: bytes
  rm_control :: "cmsg list"

definition SOL_IP :: nat where "SOL_IP = 0"
definition SOL_IPV6 :: nat where "SOL_IPV6 = 41"
definition IP_ORIGDSTADDR :: nat where "IP_ORIGDSTADDR = 20"
definition IPV6_ORIGDSTADDR :: nat where "IPV6_ORIGDSTADDR = 74"

definition V6_ADDR_LEN :: nat where "V6_ADDR_LEN = 28"
definition CMSG_HDR :: nat where "CMSG_HDR = 16"

text \<open>\<open>cmsg_len\<close> is the length of a control message with its header.\<close>

definition cmsg_len :: "cmsg \<Rightarrow> nat" where
  "cmsg_len m = CMSG_HDR + length (cm_data m)"

definition is_orig_dst :: "cmsg \<Rightarrow> bool" where
  "is_orig_dst m \<longleftrightarrow>
     cm_level m = SOL_IP \<and> cm_type m = IP_ORIGDSTADDR \<or> cm_level m = SOL_IPV6 \<and> cm_type m = IPV6_ORIGDSTADDR"

text \<open>
  \<open>do_recv_with_orig_dst\<close> with the buffers of its caller, of \<open>V6_ADDR_LEN\<close> bytes each. The sender's address is
  followed by the bytes the buffer held before, \<open>uninit\<close>. The copy of the destination takes \<open>cmsg_len\<close> bytes, starting with the message's
  data; \<open>beyond\<close> is the memory behind that data. \<open>rd_src\<close> and \<open>rd_dst\<close> are the contents of the buffers afterwards,
  \<open>rd_overrun\<close> is the number of bytes written behind the second one.
\<close>

record recv_done =
  rd_data :: bytes
  rd_src :: bytes
  rd_src_len :: nat
  rd_dst :: bytes
  rd_dst_len :: nat
  rd_overrun :: nat

definition do_recv_with_orig_dst :: "bytes \<Rightarrow> bytes \<Rightarrow> recv_msg res \<Rightarrow> recv_done res" where
  "do_recv_with_orig_dst uninit beyond rc =
     and_then rc (\<lambda>m.
       let d = \<lparr>rd_data = rm_data m, rd_src = take V6_ADDR_LEN (rm_name m @ uninit), rd_src_len = length (rm_name m),
                rd_dst = take V6_ADDR_LEN uninit, rd_dst_len = 0, rd_overrun = 0\<rparr>
       in Inr (case List.find is_orig_dst (rm_control m) of
              None \<Rightarrow> d
            | Some c \<Rightarrow>
                d\<lparr>rd_dst := take V6_ADDR_LEN (take (cmsg_len c) (cm_data c @ beyond) @ uninit), rd_dst_len := cmsg_len c,
                  rd_overrun := cmsg_len c - V6_ADDR_LEN\<rparr>))"

definition recv_with_orig_dst :: "bytes \<Rightarrow> bytes \<Rightarrow> recv_msg res \<Rightarrow> (bytes \<times> socket_addr \<times> socket_addr) res" where
  "recv_with_orig_dst uninit beyond rc =
     and_then (do_recv_with_orig_dst uninit beyond rc) (\<lambda>d.
       if rd_src_len d = 0 \<or> rd_dst_len d = 0 then Inl (Err ''SRC or DST addr unavailable'')
       else and_then (ok_or ''SRC addr unavailable'' (buf_to_addr (rd_src d))) (\<lambda>src.
            and_then (ok_or ''DST addr unavailable'' (buf_to_addr (rd_dst d))) (\<lambda>dst.
              Inr (rd_data d, src, dst))))"

text \<open>
  \<open>TransparentUdpStream::poll_next\<close>: \<open>readable\<close> is the outcome of waiting for the socket. Every error ends the stream.
\<close>

definition tus_poll_next ::
  "bytes \<Rightarrow> bytes \<Rightarrow> unit res poll \<Rightarrow> recv_msg res \<Rightarrow> (bytes \<times> socket_addr \<times> socket_addr) option poll" where
  "tus_poll_next uninit beyond readable rc =
     (case readable of
        Pending \<Rightarrow> Pending
      | Ready (Inl _) \<Rightarrow> Ready None
      | Ready (Inr _) \<Rightarrow>
          (case recv_with_orig_dst uninit beyond rc of Inr item \<Rightarrow> Ready (Some item) | Inl _ \<Rightarrow> Ready None))"

text \<open>
  The loop of \<open>serve_udp_transparent_proxy\<close> on the next item of that stream: the state goes on, or the loop
  has returned.
\<close>

definition tproxy_next :: "(bytes \<times> socket_addr \<times> socket_addr) option poll \<Rightarrow> tproxy \<Rightarrow> tproxy option" where
  "tproxy_next item s =
     (case item of
        Pending \<Rightarrow> Some s
      | Ready None \<Rightarrow> None
      | Ready (Some (buf, src, dst)) \<Rightarrow> Some (tproxy_datagram buf src dst s))"

fun tproxy_loop :: "(bytes \<times> socket_addr \<times> socket_addr) option poll list \<Rightarrow> tproxy \<Rightarrow> tproxy option" where
  "tproxy_loop [] s = Some s"
| "tproxy_loop (item # items) s = Option.bind (tproxy_next item s) (tproxy_loop items)"

section \<open>Opening a socket\<close>

text \<open>The outcomes of the system calls on a socket, and the calls that are made.\<close>

record sock_os =
  so_socket :: "bool \<Rightarrow> nat res"
  so_transparent :: "nat \<Rightarrow> unit res"
  so_recv_orig :: "nat \<Rightarrow> bool \<Rightarrow> unit res"
  so_bind :: "nat \<Rightarrow> socket_addr \<Rightarrow> unit res"
  so_register :: "nat \<Rightarrow> unit res"

datatype sys_call =
    SysSocket bool nat
  | SysTransparent nat
  | SysRecvOrigDst nat bool
  | SysBind nat socket_addr
  | SysClose nat

text \<open>
  \<open>new_tsock\<close>. The last step hands the descriptor to the asynchronous socket, which registers it with the
  reactor; when that fails the socket is dropped, which closes it.
\<close>

definition new_tsock :: "sock_os \<Rightarrow> socket_addr \<Rightarrow> sys_call list \<times> nat res" where
  "new_tsock os addr =
     (case in_context ''Creating Unix Datagram socket'' (so_socket os (is_v4 addr)) of
        Inl e \<Rightarrow> ([], Inl e)
      | Inr fd \<Rightarrow>
          (let opened = [SysSocket (is_v4 addr) fd, SysTransparent fd]
           in case in_context ''Setting IP_TRANSPARNET on UdpSocket'' (so_transparent os fd) of
                Inl e \<Rightarrow> (opened @ [SysClose fd], Inl e)
              | Inr _ \<Rightarrow>
                  (let opened = opened @ [SysRecvOrigDst fd (is_v4 addr)]
                   in case in_context ''Setting RECV_ORIG_DST_ADDR'' (so_recv_orig os fd (is_v4 addr)) of
                        Inl e \<Rightarrow> (opened @ [SysClose fd], Inl e)
                      | Inr _ \<Rightarrow>
                          (let opened = opened @ [SysBind fd addr]
                           in case in_context ''Binding'' (so_bind os fd addr) of
                                Inl e \<Rightarrow> (opened @ [SysClose fd], Inl e)
                              | Inr _ \<Rightarrow>
                                  (case so_register os fd of
                                     Inl e \<Rightarrow> (opened @ [SysClose fd], Inl e)
                                   | Inr _ \<Rightarrow> (opened, Inr fd))))))"

text \<open>
  \<open>bind_transparent_udp_for_receiving\<close> makes the stream above of the socket,
  \<open>bind_transparent_udp_for_sending\<close> the buffered sink of datagram sockets.
\<close>

definition bind_transparent_udp_for_receiving :: "sock_os \<Rightarrow> socket_addr \<Rightarrow> nat res" where
  "bind_transparent_udp_for_receiving os addr = snd (new_tsock os addr)"

definition bind_transparent_udp_for_sending :: "sock_os \<Rightarrow> socket_addr \<Rightarrow> (nat \<times> udp_sink) res" where
  "bind_transparent_udp_for_sending os addr = and_then (snd (new_tsock os addr)) (\<lambda>fd. Inr (fd, udp_sink_new))"

section \<open>Redirected connections\<close>

text \<open>
  \<open>get_original_dst\<close>: the local address of the connection (or an error), and the outcomes of the two socket options,
  as the bytes of the address they fill in.
\<close>

definition local_is_v4 :: "socket_addr res \<Rightarrow> bool" where
  "local_is_v4 loc = (case loc of Inr v \<Rightarrow> is_v4 v | Inl _ \<Rightarrow> True)"

definition get_original_dst :: "socket_addr res \<Rightarrow> bytes res \<Rightarrow> bytes res \<Rightarrow> socket_addr option" where
  "get_original_dst loc opt4 opt6 =
     Option.bind
       (if local_is_v4 loc
        then map_option (\<lambda>b. SockV4 (from_be (mem_field 4 4 b)) (from_be (mem_field 2 2 b))) (res_ok opt4)
        else map_option (\<lambda>b. SockV6 (from_be (mem_field 8 16 b)) (from_be (mem_field 2 2 b)) 0 0) (res_ok opt6))
       (\<lambda>addr. if loc = Inr addr then None else Some addr)"

section \<open>Lemmas\<close>

lemma family_bytes: "from_be [0, 2] = AF_INET" "from_be [0, 10] = AF_INET6"
  by (simp_all add: from_be_def AF_INET_def AF_INET6_def)

lemma buf_to_addr_decodes: "buf_to_addr (os_sockaddr a @ rest) = Some (decoded a)"
proof (cases a)
  case (SockV4 ip p)
  have "mem_field 0 2 (os_sockaddr a @ rest) = [2, 0]" "mem_field 2 2 (os_sockaddr a @ rest) = be16 p" "mem_field 4 4 (os_sockaddr a @ rest) = be32 ip"
    using SockV4 by (simp_all add: mem_field_def)
  then show ?thesis using SockV4 by (simp add: buf_to_addr_def family_bytes)
next
  case (SockV6 ip p f s)
  have "mem_field 0 2 (os_sockaddr a @ rest) = [10, 0]" "mem_field 2 2 (os_sockaddr a @ rest) = be16 p"
    "mem_field 4 4 (os_sockaddr a @ rest) = be32 f" "mem_field 8 16 (os_sockaddr a @ rest) = be128 ip"
    "mem_field 24 4 (os_sockaddr a @ rest) = rev (be32 s)"
    using SockV6 by (simp_all add: mem_field_def)
  then show ?thesis using SockV6 by (simp add: buf_to_addr_def family_bytes AF_INET_def AF_INET6_def swap_bytes_def)
qed

lemma length_os_sockaddr: "length (os_sockaddr a) = (if is_v4 a then 16 else 28)"
  by (cases a) simp_all

text \<open>A datagram the kernel delivers with the sender's address and the original destination.\<close>

definition redirected_msg :: "bytes \<Rightarrow> socket_addr \<Rightarrow> socket_addr \<Rightarrow> cmsg \<Rightarrow> recv_msg \<Rightarrow> bool" where
  "redirected_msg buf src dst c m \<longleftrightarrow>
     rm_data m = buf \<and> rm_name m = os_sockaddr src \<and> List.find is_orig_dst (rm_control m) = Some c \<and> cm_data c = os_sockaddr dst"

lemma take_sockaddr: "take V6_ADDR_LEN (os_sockaddr a) = os_sockaddr a"
  by (simp add: length_os_sockaddr V6_ADDR_LEN_def)

lemma recv_redirected:
  assumes "redirected_msg buf src dst c m"
  shows "recv_with_orig_dst uninit beyond (Inr m) = Inr (buf, decoded src, decoded dst)"
proof -
  have l: "length (os_sockaddr src) \<noteq> 0" by (simp add: length_os_sockaddr)
  have "take (cmsg_len c) (os_sockaddr dst @ beyond) = os_sockaddr dst @ take CMSG_HDR beyond"
    using assms by (simp add: cmsg_len_def redirected_msg_def)
  then show ?thesis
    using assms l
    by (simp add: recv_with_orig_dst_def do_recv_with_orig_dst_def redirected_msg_def take_sockaddr buf_to_addr_decodes
        cmsg_len_def CMSG_HDR_def Let_def)
qed

text \<open>The descriptors that are open after a sequence of calls, and that no call uses a closed one.\<close>

fun open_after :: "sys_call list \<Rightarrow> nat list \<Rightarrow> nat list" where
  "open_after [] fds = fds"
| "open_after (SysSocket v fd # cs) fds = open_after cs (fd # fds)"
| "open_after (SysClose fd # cs) fds = open_after cs (removeAll fd fds)"
| "open_after (_ # cs) fds = open_after cs fds"

fun calls_valid :: "sys_call list \<Rightarrow> nat list \<Rightarrow> bool" where
  "calls_valid [] fds = True"
| "calls_valid (SysSocket v fd # cs) fds = calls_valid cs (fd # fds)"
| "calls_valid (SysTransparent fd # cs) fds = (fd \<in> set fds \<and> calls_valid cs fds)"
| "calls_valid (SysRecvOrigDst fd v # cs) fds = (fd \<in> set fds \<and> calls_valid cs fds)"
| "calls_valid (SysBind fd a # cs) fds = (fd \<in> set fds \<and> calls_valid cs fds)"
| "calls_valid (SysClose fd # cs) fds = (fd \<in> set fds \<and> calls_valid cs (removeAll fd fds))"

section \<open>Properties\<close>

text \<open>
  C29: Opening a transparent socket leaks nothing: whatever the outcomes of the system calls, no call is made on a descriptor that is not open; when
  any of them fails the socket is closed again, and when all succeed the one descriptor that is open is
  returned, after the transparency option, the option for original destinations of the address's own family, and the
  binding to the address were all set on it.
\<close>

theorem new_tsock_owns_descriptor:
  assumes "new_tsock os addr = (calls, r)"
  shows "calls_valid calls [] \<and>
    (case r of
       Inl _ \<Rightarrow> open_after calls [] = []
     | Inr fd \<Rightarrow> open_after calls [] = [fd] \<and>
         calls = [SysSocket (is_v4 addr) fd, SysTransparent fd, SysRecvOrigDst fd (is_v4 addr), SysBind fd addr])"
  using assms by (auto simp: new_tsock_def Let_def split: sum.splits)

theorem new_tsock_owns_descriptor_witness:
  "let r = new_tsock \<lparr>so_socket = (\<lambda>_. Inr 7), so_transparent = (\<lambda>_. Inr ()), so_recv_orig = (\<lambda>_ _. Inr ()),
                      so_bind = (\<lambda>_ _. Inl (Err ''EADDRINUSE'')), so_register = (\<lambda>_. Inr ())\<rparr> (SockV4 1 2)
   in snd r = Inl (Err ''Binding'') \<and> open_after (fst r) [] = []"
  using new_tsock_owns_descriptor[of "\<lparr>so_socket = (\<lambda>_. Inr 7), so_transparent = (\<lambda>_. Inr ()), so_recv_orig = (\<lambda>_ _. Inr ()),
      so_bind = (\<lambda>_ _. Inl (Err ''EADDRINUSE'')), so_register = (\<lambda>_. Inr ())\<rparr>" "SockV4 1 2"]
  by (simp add: new_tsock_def Let_def)



text \<open>
  Copying the original destination writes behind the buffer: the copy takes the length of the control message
  with its header, so every redirected datagram overruns the buffer of the caller, by 4 bytes for an IPv4 destination and by 16 bytes
  for an IPv6 destination.
\<close>

theorem orig_dst_copy_overruns:
  assumes "redirected_msg buf src dst c m"
  shows "\<exists>d. do_recv_with_orig_dst uninit beyond (Inr m) = Inr d \<and> rd_overrun d = (if is_v4 dst then 4 else 16)"
  using assms
  by (simp add: do_recv_with_orig_dst_def redirected_msg_def cmsg_len_def CMSG_HDR_def V6_ADDR_LEN_def length_os_sockaddr Let_def)

text \<open>
  The scope of an IPv6 address is read in the wrong byte order, so a link-local sender on interface 2 is
  recorded with scope \<open>0x2000000\<close>.
\<close>

theorem ipv6_scope_swapped:
  assumes "redirected_msg buf (SockV6 a p f 2) dst c m"
  shows "recv_with_orig_dst uninit beyond (Inr m) = Inr (buf, SockV6 a p f 0x2000000, decoded dst)"
proof -
  have "swap_bytes 2 = 0x2000000" by code_simp
  then show ?thesis using recv_redirected[OF assms] by simp
qed

text \<open>
  One failed receive ends the transparent proxy: an error of the kernel (also that no datagram is waiting after all), or a
  datagram without an original destination, ends the stream, and with it the loop, whatever comes later.
\<close>

theorem failed_receive_ends_proxy:
  assumes "rc = Inl e \<or> (\<exists>m. rc = Inr m \<and> List.find is_orig_dst (rm_control m) = None)"
  shows "tproxy_loop (tus_poll_next uninit beyond (Ready (Inr ())) rc # items) s = None"
proof -
  have "\<exists>e. recv_with_orig_dst uninit beyond rc = Inl e"
    using assms by (auto simp: recv_with_orig_dst_def do_recv_with_orig_dst_def Let_def)
  then show ?thesis by (auto simp: tus_poll_next_def tproxy_next_def)
qed

text \<open>The original destination of a connection, for the answers the kernel gives.\<close>

lemma original_dst_v4:
  assumes "is_v4 loc" and "is_v4 orig"
  shows "get_original_dst (Inr loc) (Inr (os_sockaddr orig)) opt6 = (if orig = loc then None else Some orig)"
proof -
  obtain a p where o: "orig = SockV4 a p" using assms(2) by (cases orig) auto
  have "mem_field 2 2 (os_sockaddr orig) = be16 p" "mem_field 4 4 (os_sockaddr orig) = be32 a" using o by (simp_all add: mem_field_def)
  then show ?thesis using assms(1) o by (auto simp: get_original_dst_def local_is_v4_def)
qed

lemma original_dst_v6:
  "get_original_dst (Inr (SockV6 a p f s)) opt4 (Inr (os_sockaddr (SockV6 a' p' f' s'))) =
     (if (a, p, f, s) = (a', p', 0, 0) then None else Some (SockV6 a' p' 0 0))"
proof -
  have "mem_field 2 2 (os_sockaddr (SockV6 a' p' f' s')) = be16 p'" "mem_field 8 16 (os_sockaddr (SockV6 a' p' f' s')) = be128 a'"
    by (simp_all add: mem_field_def)
  then show ?thesis by (auto simp: get_original_dst_def local_is_v4_def simp del: os_sockaddr.simps)
qed



text \<open>
  A connection made to a link-local address of the proxy itself is taken for a redirected one: the kernel's
  original destination is the local address, but the scope is dropped before the two are compared.
\<close>

theorem link_local_taken_for_redirected:
  assumes "scope \<noteq> 0"
  shows "get_original_dst (Inr (SockV6 a p f scope)) opt4 (Inr (os_sockaddr (SockV6 a p f scope))) = Some (SockV6 a p 0 0)"
  using original_dst_v6[of a p f scope opt4 a p f scope] assms by simp

end
