(* ===== verification/Iptables.thy ===== *)
theory Iptables
  imports Socks5_Addr
begin

text \<open>
  Router rules (src/iptables.rs): the commands given to \<open>iptables\<close>, \<open>ip\<close> and \<open>sysctl\<close>. What a command
  does to the system is outside the program; whether it succeeds is an argument of the model.
\<close>

section \<open>Commands\<close>

datatype ipt_command =
    Execute rstr "rstr list"
  | NewIptables
  | NewChain rstr rstr
  | AppendUnique rstr rstr rstr
  | DeleteRule rstr rstr rstr
  | FlushChain rstr rstr
  | DeleteChain rstr rstr

definition CHAIN_NAME :: rstr where "CHAIN_NAME = lit ''cpxy''"
definition TPROXY_MARK :: nat where "TPROXY_MARK = 121"
definition ROUTING_TABLE_NUMBER :: nat where "ROUTING_TABLE_NUMBER = 99"

definition jump_rule :: rstr where
  "jump_rule = lit ''-j '' @ CHAIN_NAME"

text \<open>
  \<open>execute_command\<close>: \<open>run\<close> starts a program with its arguments and waits for it. Output that is no text counts as a
  failure, also after the program has succeeded.
\<close>

record cmd_output =
  co_success :: bool
  co_stdout :: bytes
  co_stderr :: bytes

definition execute_command :: "(rstr \<Rightarrow> rstr list \<Rightarrow> cmd_output res) \<Rightarrow> rstr \<Rightarrow> rstr list \<Rightarrow> rstr res" where
  "execute_command run program args =
     and_then (in_context ''Running'' (run program args)) (\<lambda>output.
       if co_success output
       then (if utf8_valid (co_stdout output) then Inr (co_stdout output) else Inl (Err ''invalid utf-8 sequence''))
       else if utf8_valid (co_stderr output) then Inl (Err ''Error running'') else Inl (Err ''invalid utf-8 sequence''))"

text \<open>The outcome of a command, with the \<open>iptables\<close> library given by \<open>ipt\<close>.\<close>

definition system_exec :: "(rstr \<Rightarrow> rstr list \<Rightarrow> cmd_output res) \<Rightarrow> (ipt_command \<Rightarrow> unit res) \<Rightarrow> ipt_command \<Rightarrow> unit res" where
  "system_exec run ipt c =
     (case c of Execute program args \<Rightarrow> and_then (execute_command run program args) (\<lambda>_. Inr ()) | _ \<Rightarrow> ipt c)"

text \<open>Commands run in order up to the first that fails; the result and what was run.\<close>

fun run_commands :: "(ipt_command \<Rightarrow> unit res) \<Rightarrow> ipt_command list \<Rightarrow> ipt_command list \<times> unit res" where
  "run_commands exec [] = ([], Inr ())"
| "run_commands exec (c # cs) =
     (case exec c of
        Inl e \<Rightarrow> ([c], Inl e)
      | Inr _ \<Rightarrow> (case run_commands exec cs of (executed, r) \<Rightarrow> (c # executed, r)))"

definition clean_up_commands :: "ipt_command list" where
  "clean_up_commands =
     [DeleteRule (lit ''nat'') (lit ''PREROUTING'') jump_rule, FlushChain (lit ''nat'') CHAIN_NAME, DeleteChain (lit ''nat'') CHAIN_NAME,
      DeleteRule (lit ''mangle'') (lit ''PREROUTING'') jump_rule, FlushChain (lit ''mangle'') CHAIN_NAME, DeleteChain (lit ''mangle'') CHAIN_NAME,
      Execute (lit ''ip'') [lit ''rule'', lit ''delete'', lit ''fwmark'', show_nat TPROXY_MARK, lit ''lookup'', show_nat ROUTING_TABLE_NUMBER],
      Execute (lit ''ip'') [lit ''route'', lit ''flush'', lit ''table'', show_nat ROUTING_TABLE_NUMBER]]"

text \<open>\<open>clean_up\<close> goes on after a command that fails.\<close>

definition clean_up :: "(ipt_command \<Rightarrow> unit res) \<Rightarrow> ipt_command list \<times> unit res" where
  "clean_up exec =
     (case in_context ''Create iptable instance'' (exec NewIptables) of
        Inl e \<Rightarrow> ([NewIptables], Inl e)
      | Inr _ \<Rightarrow> (NewIptables # clean_up_commands, Inr ()))"

definition local_networks :: "rstr list" where
  "local_networks =
     [lit ''10.0.0.0/8'', lit ''100.64.0.0/10'', lit ''127.0.0.0/8'', lit ''169.254.0.0/16'', lit ''172.16.0.0/12'',
      lit ''192.0.0.0/24'', lit ''192.168.0.0/16'', lit ''198.18.0.0/15'', lit ''255.255.255.255/32'']"

definition return_rules :: "rstr \<Rightarrow> ipt_command list" where
  "return_rules table =
     map (\<lambda>network. AppendUnique table CHAIN_NAME (lit ''-d '' @ network @ lit '' -j RETURN'')) local_networks"

definition tcp_commands :: "u16 \<Rightarrow> ipt_command list" where
  "tcp_commands tcp_port =
     [NewChain (lit ''nat'') CHAIN_NAME] @ return_rules (lit ''nat'') @
     [AppendUnique (lit ''nat'') CHAIN_NAME (lit ''-p tcp -j DNAT --to-destination 127.0.0.1:'' @ show_nat (unat tcp_port)),
      AppendUnique (lit ''nat'') (lit ''PREROUTING'') jump_rule]"

definition udp_commands :: "u16 \<Rightarrow> ipt_command list" where
  "udp_commands udp_port =
     [NewChain (lit ''mangle'') CHAIN_NAME] @ return_rules (lit ''mangle'') @
     [AppendUnique (lit ''mangle'') CHAIN_NAME
        (lit ''-p udp -j TPROXY --tproxy-mark '' @ show_nat TPROXY_MARK @ lit '' --on-ip 127.0.0.1 --on-port '' @ show_nat (unat udp_port)),
      AppendUnique (lit ''mangle'') (lit ''PREROUTING'') jump_rule,
      Execute (lit ''ip'') [lit ''rule'', lit ''add'', lit ''fwmark'', show_nat TPROXY_MARK, lit ''lookup'', show_nat ROUTING_TABLE_NUMBER],
      Execute (lit ''ip'') [lit ''route'', lit ''add'', lit ''local'', lit ''0.0.0.0/0'', lit ''dev'', lit ''lo'', lit ''table'',
        show_nat ROUTING_TABLE_NUMBER]]"

definition add_rules :: "(ipt_command \<Rightarrow> unit res) \<Rightarrow> u16 \<Rightarrow> u16 option \<Rightarrow> ipt_command list \<times> unit res" where
  "add_rules exec tcp_port udp_port =
     run_commands exec
       ([Execute (lit ''sysctl'') [lit ''-w'', lit ''net.ipv4.conf.all.route_localnet=1''], NewIptables] @
        tcp_commands tcp_port @ (case udp_port of Some p \<Rightarrow> udp_commands p | None \<Rightarrow> []))"

section \<open>Lemmas\<close>

text \<open>The commands that take back what a command adds, in the order in which they have to run.\<close>

fun undone_by :: "ipt_command \<Rightarrow> ipt_command list" where
  "undone_by (NewChain t c) = [FlushChain t c, DeleteChain t c]"
| "undone_by (AppendUnique t c r) = (if c = CHAIN_NAME then [FlushChain t c] else [DeleteRule t c r])"
| "undone_by (Execute p args) =
     (if take 2 args = [lit ''rule'', lit ''add''] then [Execute p ([lit ''rule'', lit ''delete''] @ drop 2 args)]
      else if take 2 args = [lit ''route'', lit ''add''] then [Execute p ([lit ''route'', lit ''flush''] @ drop 6 args)]
      else [])"
| "undone_by _ = []"

fun in_order :: "'a list \<Rightarrow> 'a list \<Rightarrow> bool" where
  "in_order [] ys = True"
| "in_order (x # xs) [] = False"
| "in_order (x # xs) (y # ys) = (if x = y then in_order xs ys else in_order (x # xs) ys)"

lemma run_commands_prefix: "set (fst (run_commands exec cs)) \<subseteq> set cs"
  by (induction cs) (auto split: sum.splits prod.splits)

lemma words_differ:
  "lit ''rule'' \<noteq> lit ''route''" "lit ''nat'' \<noteq> lit ''mangle''" "lit ''PREROUTING'' \<noteq> CHAIN_NAME" "lit ''-w'' \<noteq> lit ''rule''"
  "lit ''-w'' \<noteq> lit ''route''"
  by (simp_all add: lit_def CHAIN_NAME_def)

lemma clean_up_order:
  "in_order [FlushChain t CHAIN_NAME, DeleteChain t CHAIN_NAME] clean_up_commands \<and>
   in_order [DeleteRule t (lit ''PREROUTING'') jump_rule, DeleteChain t CHAIN_NAME] clean_up_commands"
  if "t = lit ''nat'' \<or> t = lit ''mangle''"
  using that words_differ(2) by (auto simp: clean_up_commands_def)

lemma commands_undone:
  "c \<in> set (tcp_commands p) \<Longrightarrow> in_order (undone_by c) clean_up_commands"
  "c \<in> set (udp_commands p) \<Longrightarrow> in_order (undone_by c) clean_up_commands"
  using words_differ
  by (auto simp: tcp_commands_def udp_commands_def return_rules_def clean_up_commands_def)

section \<open>Properties\<close>



text \<open>
  Adding the rules succeeds exactly when every command does: the programs ended well with readable
  output, and the library accepted its commands.
\<close>

lemma run_commands_ok: "snd (run_commands exec cs) = Inr () \<longleftrightarrow> (\<forall>c \<in> set cs. exec c = Inr ())"
  by (induction cs) (auto split: sum.splits prod.splits)

theorem rules_added_iff:
  "snd (add_rules (system_exec run ipt) tcp_port udp_port) = Inr () \<longleftrightarrow>
     (\<forall>c \<in> set ([Execute (lit ''sysctl'') [lit ''-w'', lit ''net.ipv4.conf.all.route_localnet=1''], NewIptables] @
          tcp_commands tcp_port @ (case udp_port of Some p \<Rightarrow> udp_commands p | None \<Rightarrow> [])).
        case c of
          Execute program args \<Rightarrow> (\<exists>o'. run program args = Inr o' \<and> co_success o' \<and> utf8_valid (co_stdout o'))
        | _ \<Rightarrow> ipt c = Inr ())"
proof -
  have "system_exec run ipt c = Inr () \<longleftrightarrow>
     (case c of Execute program args \<Rightarrow> (\<exists>o'. run program args = Inr o' \<and> co_success o' \<and> utf8_valid (co_stdout o'))
      | _ \<Rightarrow> ipt c = Inr ())" for c
    by (auto simp: system_exec_def execute_command_def and_then_Inr_conv in_context_Inr_conv split: ipt_command.split)
  then show ?thesis unfolding add_rules_def run_commands_ok by blast
qed

end
