(* ===== verification/Run_Client.thy ===== *)
theory Run_Client
  imports Controller Iptables
begin

text \<open>
  The running client (\<open>run_client\<close> of src/client/handler.rs) and its connection to the controller over
  the broadcast channel of src/broadcast.rs, which holds the newest item only. Each configuration that arrives
  replaces the tasks of the one before.
\<close>

section \<open>The client\<close>

datatype client_task =
    ProxyTask client_config client_statistics
  | UdpTproxyTask socket_addr client_config client_statistics

text \<open>The outcomes of binding the listener, of the router commands and of starting the transparent UDP proxy.\<close>

record client_env =
  cl_bind :: "address \<Rightarrow> unit res"
  cl_exec :: "ipt_command \<Rightarrow> unit res"
  cl_tproxy :: "socket_addr \<Rightarrow> unit res"

text \<open>The tasks that run, and the router commands executed so far.\<close>

record running =
  rn_tasks :: "client_task list"
  rn_commands :: "ipt_command list"

definition run_commands_of :: "ipt_command list \<times> unit res \<Rightarrow> running \<Rightarrow> running" where
  "run_commands_of r s = s\<lparr>rn_commands := rn_commands s @ fst r\<rparr>"

definition set_router :: "client_env \<Rightarrow> client_config \<Rightarrow> running \<Rightarrow> running" where
  "set_router E config s =
     (if cc_set_router_rules config
      then (let added = add_rules (cl_exec E) (sock_port (cc_socks5_address config)) (map_option sock_port (cc_udp_tproxy_address config));
                s1 = run_commands_of added s
            in case snd added of Inl _ \<Rightarrow> run_commands_of (clean_up (cl_exec E)) s1 | Inr _ \<Rightarrow> s1)
      else s)"

definition start_tproxy :: "client_env \<Rightarrow> client_config \<Rightarrow> client_statistics \<Rightarrow> running \<Rightarrow> running" where
  "start_tproxy E config stats s =
     (case cc_udp_tproxy_address config of
        None \<Rightarrow> s
      | Some addr \<Rightarrow>
          (case cl_tproxy E addr of
             Inr _ \<Rightarrow> s\<lparr>rn_tasks := rn_tasks s @ [UdpTproxyTask addr config stats]\<rparr>
           | Inl _ \<Rightarrow> s))"

text \<open>One turn of the loop, for the configuration that arrived.\<close>

definition client_turn :: "client_env \<Rightarrow> client_config \<times> client_statistics \<Rightarrow> running \<Rightarrow> running" where
  "client_turn E = (\<lambda>(config, stats) s.
     let s1 = run_commands_of (clean_up (cl_exec E)) (s\<lparr>rn_tasks := []\<rparr>)
     in case cl_bind E (IP (cc_socks5_address config)) of
          Inl _ \<Rightarrow> s1
        | Inr _ \<Rightarrow>
            (let s2 = set_router E config s1
             in start_tproxy E config stats (s2\<lparr>rn_tasks := rn_tasks s2 @ [ProxyTask config stats]\<rparr>)))"

section \<open>Controller and client\<close>

text \<open>
  The channel between them, made by \<open>bounded\<close> with one slot and overflow: \<open>sy_slot\<close> is the item in it (a
  newer one replaces it) and \<open>sy_init\<close> the receiver's initial value. \<open>sy_last\<close> is what the client took last.
\<close>

record system =
  sy_ctl :: controller
  sy_slot :: "(client_config \<times> client_statistics) option"
  sy_init :: "(client_config \<times> client_statistics) option"
  sy_client :: running
  sy_last :: "(client_config \<times> client_statistics) option"

definition channel_send :: "'a list \<Rightarrow> 'a option \<Rightarrow> 'a option" where
  "channel_send items slot = (if items = [] then slot else Some (last items))"

definition system_new :: "controller \<Rightarrow> system" where
  "system_new ctl =
     \<lparr>sy_ctl = ctl, sy_slot = None, sy_init = Some (ctl_config ctl, ctl_stats ctl),
      sy_client = \<lparr>rn_tasks = [], rn_commands = []\<rparr>, sy_last = None\<rparr>"

definition system_client :: "client_env \<Rightarrow> system \<Rightarrow> system option" where
  "system_client E s =
     (case receiver_poll (case sy_slot s of Some x \<Rightarrow> RxItem x | None \<Rightarrow> RxPending) (sy_init s) of
        (RxItem x, init') \<Rightarrow> Some (s\<lparr>sy_slot := None, sy_init := init', sy_client := client_turn E x (sy_client s), sy_last := Some x\<rparr>)
      | _ \<Rightarrow> None)"

definition system_request :: "controller \<Rightarrow> system \<Rightarrow> system" where
  "system_request ctl' s =
     s\<lparr>sy_ctl := ctl', sy_slot := channel_send (drop (length (ctl_broadcast (sy_ctl s))) (ctl_broadcast ctl')) (sy_slot s)\<rparr>"

text \<open>
  The states of the two together: requests change the controller and announce what they changed; the
  client takes an item whenever it gets to it.
\<close>

inductive sys_reach :: "client_env \<Rightarrow> (client_config \<Rightarrow> bytes res) \<Rightarrow> system \<Rightarrow> bool" for E yaml where
  start: "controller_new saved file h = Inr ctl \<Longrightarrow> sys_reach E yaml (system_new ctl)"
| request: "sys_reach E yaml s \<Longrightarrow>
    set_config yaml io c rep (sy_ctl s) = (r, ctl') \<or> update_upstreams yaml io us (sy_ctl s) = (r, ctl') \<or>
    delete_upstreams yaml io ns (sy_ctl s) = (r, ctl') \<Longrightarrow> sys_reach E yaml (system_request ctl' s)"
| client: "sys_reach E yaml s \<Longrightarrow> system_client E s = Some s' \<Longrightarrow> sys_reach E yaml s'"

section \<open>Lemmas\<close>

abbreviation current :: "controller \<Rightarrow> client_config \<times> client_statistics" where
  "current ctl \<equiv> (ctl_config ctl, ctl_stats ctl)"

text \<open>The tasks that belong to a configuration.\<close>

fun tasks_of :: "client_env \<Rightarrow> client_config \<times> client_statistics \<Rightarrow> client_task list" where
  "tasks_of E (config, stats) =
     (if is_ok (cl_bind E (IP (cc_socks5_address config)))
      then ProxyTask config stats #
        (case cc_udp_tproxy_address config of
           Some a \<Rightarrow> if is_ok (cl_tproxy E a) then [UdpTproxyTask a config stats] else [] | None \<Rightarrow> [])
      else [])"

lemma client_turn_tasks: "rn_tasks (client_turn E x s) = tasks_of E x"
  by (cases x) (auto simp: client_turn_def start_tproxy_def set_router_def run_commands_of_def Let_def is_ok_conv
      split: sum.splits option.splits)

text \<open>What the client will use next (what it will take, or else what it took last) is what the controller has.\<close>

definition sys_inv :: "client_env \<Rightarrow> system \<Rightarrow> bool" where
  "sys_inv E s \<longleftrightarrow>
     (case sy_slot s of
        Some x \<Rightarrow> x = current (sy_ctl s)
      | None \<Rightarrow> (case sy_init s of Some x \<Rightarrow> x = current (sy_ctl s) | None \<Rightarrow> sy_last s = Some (current (sy_ctl s)))) \<and>
     (\<forall>x. sy_last s = Some x \<longrightarrow> rn_tasks (sy_client s) = tasks_of E x)"

lemma system_request_inv:
  assumes "sys_inv E s"
    and "set_config yaml io c rep (sy_ctl s) = (r, ctl') \<or> update_upstreams yaml io us (sy_ctl s) = (r, ctl') \<or>
      delete_upstreams yaml io ns (sy_ctl s) = (r, ctl')"
  shows "sys_inv E (system_request ctl' s)"
  using config_change_cases[OF assms(2)] assms(1)
  by (cases "r = Inr ()") (auto simp: sys_inv_def system_request_def channel_send_def split: option.splits)

lemma system_client_cases:
  assumes "system_client E s = Some s'"
  shows "\<exists>x. (sy_slot s = Some x \<or> sy_slot s = None \<and> sy_init s = Some x) \<and>
     s' = s\<lparr>sy_slot := None, sy_init := None, sy_client := client_turn E x (sy_client s), sy_last := Some x\<rparr>"
  using assms by (auto simp: system_client_def split: option.splits) (cases "sy_init s"; auto)+

lemma sys_reach_inv: "sys_reach E yaml s \<Longrightarrow> sys_inv E s"
proof (induction rule: sys_reach.induct)
  case (start saved cfile h ctl)
  then show ?case by (simp add: sys_inv_def system_new_def)
next
  case (request s io c rep r ctl' us ns)
  then show ?case using system_request_inv by blast
next
  case (client s s')
  from system_client_cases[OF client.hyps(2)] show ?case using client.IH by (auto simp: sys_inv_def client_turn_tasks)
qed

section \<open>Properties\<close>

text \<open>
  C8: The client follows the controller: whatever requests changed the configuration and however late
  the client takes the announcements (of which the channel keeps the newest only), after at most one
  more turn of its loop the client runs exactly the tasks of the controller's current configuration
  with its current statistics: the proxy, if its address can be bound, the transparent UDP
  proxy, if configured and started, and no task of an earlier configuration.
\<close>

theorem client_follows_controller:
  assumes "sys_reach E yaml s"
  shows "case system_client E s of
     Some s' \<Rightarrow> rn_tasks (sy_client s') = tasks_of E (current (sy_ctl s)) \<and> sy_ctl s' = sy_ctl s \<and> system_client E s' = None
   | None \<Rightarrow> rn_tasks (sy_client s) = tasks_of E (current (sy_ctl s))"
proof (cases "system_client E s")
  case None
  then have "sy_slot s = None" "sy_init s = None" by (auto simp: system_client_def split: option.splits) (cases "sy_init s"; simp)
  then show ?thesis using None sys_reach_inv[OF assms] by (simp add: sys_inv_def)
next
  case (Some s')
  then obtain x where x: "sy_slot s = Some x \<or> sy_slot s = None \<and> sy_init s = Some x"
      "s' = s\<lparr>sy_slot := None, sy_init := None, sy_client := client_turn E x (sy_client s), sy_last := Some x\<rparr>"
    using system_client_cases by blast
  then have "x = current (sy_ctl s)" using sys_reach_inv[OF assms] by (auto simp: sys_inv_def)
  then show ?thesis using Some x(2) by (simp add: client_turn_tasks system_client_def)
qed

definition demo_client :: client_env where
  "demo_client = \<lparr>cl_bind = \<lambda>_. Inr (), cl_exec = \<lambda>_. Inr (), cl_tproxy = \<lambda>_. Inr ()\<rparr>"

theorem client_follows_controller_witness:
  "\<exists>s'. system_client demo_client (system_request (snd (update_upstreams (\<lambda>_. Inr []) demo_io [demo_update] demo_ctl)) (system_new demo_ctl)) =
       Some s' \<and>
     rn_tasks (sy_client s') = tasks_of demo_client (current (snd (update_upstreams (\<lambda>_. Inr []) demo_io [demo_update] demo_ctl)))"
proof -
  let ?u = "update_upstreams (\<lambda>_. Inr []) demo_io [demo_update] demo_ctl"
  let ?s = "system_request (snd ?u) (system_new demo_ctl)"
  have "controller_new None None demo_counters = Inr demo_ctl"
    by (simp add: controller_new_def demo_ctl_def default_config_def)
  then have r: "sys_reach demo_client (\<lambda>_. Inr []) (system_new demo_ctl)" by (rule sys_reach.start)
  have c: "sy_ctl (system_new demo_ctl) = demo_ctl" by (simp add: system_new_def)
  have "sys_reach demo_client (\<lambda>_. Inr []) ?s"
    by (rule sys_reach.request[OF r, where io = demo_io and r = "fst ?u" and us = "[demo_update]"]) (simp add: c)
  from client_follows_controller[OF this] have "case system_client demo_client ?s of
      Some s' \<Rightarrow> rn_tasks (sy_client s') = tasks_of demo_client (current (snd ?u)) | None \<Rightarrow> True"
    by (auto simp: system_request_def split: option.splits)
  moreover have "system_client demo_client ?s \<noteq> None"
    by (simp add: system_client_def system_request_def system_new_def channel_send_def split: option.splits)
  ultimately show ?thesis by (auto split: option.splits)
qed

end
