(* ===== verification/Filter_Lists.thy ===== *)
theory Filter_Lists
  imports Protocols
begin

text \<open>
  The filter lists (src/abp/mod.rs) and the download of a new one through the program's own proxy
  (src/fetch.rs). The \<open>adblock\<close> engine, the directories and files of the system and the clock are
  parameters. Locks are not modelled: one operation runs at a time.
\<close>

section \<open>Fetching\<close>

definition send_http_with_proxy ::
  "net \<Rightarrow> bool \<Rightarrow> address \<Rightarrow> http_request \<Rightarrow> address \<Rightarrow> bytes res" where
  "send_http_with_proxy N https a req http_proxy =
     and_then (in_context ''Connecting to proxy server'' (net_connect N http_proxy)) (\<lambda>_.
       let scheme = (if https then lit ''https://'' else lit ''http://'')
       in Inr (request_to_writer (req\<lparr>hr_path := scheme @ show_address a @ hr_path req\<rparr>)))"

text \<open>The request of \<open>fetch_http_with_proxy\<close>: \<open>body\<close> is a content type and the bytes.\<close>

definition fetch_request :: "http_url \<Rightarrow> rstr \<Rightarrow> headers \<Rightarrow> (rstr \<times> bytes) option \<Rightarrow> http_request" where
  "fetch_request u method hs body =
     (let hs = (case body of
                  Some (content_type, b) \<Rightarrow>
                    hs @ [(lit ''Content-Type'', content_type), (lit ''Content-Length'', show_nat (length b))]
                | None \<Rightarrow> hs);
          hs = (case get_header hs (lit ''host'') of
                  None \<Rightarrow> hs @ [(lit ''Host'', show_address (hu_address u))]
                | Some _ \<Rightarrow> hs)
      in \<lparr>hr_headers = hs, hr_method = method, hr_path = hu_path u\<rparr>)"

definition fetch_http_with_proxy ::
  "u16 option tokenizer \<Rightarrow> net \<Rightarrow> rstr \<Rightarrow> rstr \<Rightarrow> headers \<Rightarrow> address \<Rightarrow> (rstr \<times> bytes) option \<Rightarrow> segments \<Rightarrow>
   bytes \<times> http_response http_stream res" where
  "fetch_http_with_proxy hp N url method hs http_proxy body ss =
     (case and_then (http_url_try_from url) (\<lambda>u.
             send_http_with_proxy N (hu_is_https u) (hu_address u) (fetch_request u method hs body) http_proxy) of
        Inl e \<Rightarrow> ([], Inl e)
      | Inr sent \<Rightarrow>
          (sent @ (case body of Some (_, b) \<Rightarrow> b | None \<Rightarrow> []), parse_response hp ss (rwb_new (replicate 512 0))))"

section \<open>Engines\<close>

record 'e engine_state =
  es_engine :: "('e \<times> nat) option"
  es_cache_file_path :: "rstr option"

text \<open>
  The surroundings: the engine's constructors, its check of a URL, reading a file with its time, and
  the embedded assets.
\<close>

record ('e, 'f) abp_env =
  ab_deserialize :: "bytes \<Rightarrow> 'e res"
  ab_serialize :: "'e \<Rightarrow> bytes option"
  ab_filter_set :: 'f
  ab_add_filter :: "rstr \<Rightarrow> 'f \<Rightarrow> 'f res"
  ab_from_filter_set :: "'f \<Rightarrow> 'e"
  ab_check :: "'e \<Rightarrow> rstr \<Rightarrow> bool"
  ab_decode :: "bytes \<Rightarrow> bytes res"
  ab_http_date :: "nat \<Rightarrow> rstr"
  ab_data_dir :: "rstr option"
  ab_read_file :: "rstr \<Rightarrow> (bytes \<times> nat) res"
  ab_asset :: "rstr \<Rightarrow> (bytes \<times> nat option) option"

definition create_engine :: "('e, 'f) abp_env \<Rightarrow> bytes \<Rightarrow> 'e res" where
  "create_engine E data = in_context ''Error init adblock engine'' (ab_deserialize E data)"

definition engine_from_file :: "('e, 'f) abp_env \<Rightarrow> rstr \<Rightarrow> ('e \<times> nat) res" where
  "engine_from_file E p = and_then (ab_read_file E p) (\<lambda>(buf, modified). and_then (create_engine E buf) (\<lambda>e. Inr (e, modified)))"

definition engine_state_new :: "('e, 'f) abp_env \<Rightarrow> rstr \<Rightarrow> 'e engine_state" where
  "engine_state_new E file_name =
     (let path = map_option (\<lambda>r. r @ lit ''/cjk_proxy/abp/'' @ file_name) (ab_data_dir E)
      in \<lparr>es_engine = (case path of
            Some p \<Rightarrow> (case engine_from_file E p of Inr v \<Rightarrow> Some v | Inl _ \<Rightarrow> None)
          | None \<Rightarrow> None),
          es_cache_file_path = path\<rparr>)"

definition from_embedded :: "('e, 'f) abp_env \<Rightarrow> rstr \<Rightarrow> rstr \<Rightarrow> 'e engine_state" where
  "from_embedded E asset_name cache_file_name =
     (let r = engine_state_new E cache_file_name
      in if es_engine r \<noteq> None then r
         else (case ab_asset E asset_name of
                 Some (data, modified) \<Rightarrow>
                   (case create_engine E data of
                      Inr e \<Rightarrow> r\<lparr>es_engine := Some (e, case modified of Some t \<Rightarrow> t | None \<Rightarrow> 0)\<rparr>
                    | Inl _ \<Rightarrow> r)
               | None \<Rightarrow> r))"

text \<open>The loop over the lines of a list: the filters accepted and their number.\<close>

fun add_filters :: "('e, 'f) abp_env \<Rightarrow> bytes list \<Rightarrow> 'f \<Rightarrow> nat \<Rightarrow> 'f \<times> nat" where
  "add_filters E [] filter_set line_count = (filter_set, line_count)"
| "add_filters E (l # ls) filter_set line_count =
     (let line = trim (from_utf8_lossy l)
      in if starts_with line (lit ''#'') \<or> starts_with line (lit ''!'') \<or> line = [] then add_filters E ls filter_set line_count
         else (case ab_add_filter E line filter_set of
                 Inl _ \<Rightarrow> add_filters E ls filter_set line_count
               | Inr filter_set' \<Rightarrow> add_filters E ls filter_set' (line_count + 1)))"

text \<open>The header that asks for a list newer than the engine's.\<close>

definition modified_since :: "('e, 'f) abp_env \<Rightarrow> 'e engine_state \<Rightarrow> headers" where
  "modified_since E s = (case es_engine s of Some (_, t) \<Rightarrow> [(lit ''If-Modified-Since'', ab_http_date E t)] | None \<Rightarrow> [])"

text \<open>
  \<open>update_engine\<close>: \<open>fetched\<close> is the outcome of the download (status and body), \<open>write_file\<close> that of creating the
  directory and writing the file, \<open>now\<close> the clock. The result, the state and what was written.
\<close>

definition update_engine ::
  "('e, 'f) abp_env \<Rightarrow> (headers \<Rightarrow> (u16 \<times> bytes res) res) \<Rightarrow> (rstr \<Rightarrow> bytes \<Rightarrow> unit res) \<Rightarrow> nat \<Rightarrow> bool \<Rightarrow> 'e engine_state \<Rightarrow>
   nat res \<times> 'e engine_state \<times> (rstr \<times> bytes) option" where
  "update_engine E fetched write_file now is_base64 s =
     (case fetched (modified_since E s) of
        Inl e \<Rightarrow> (Inl e, s, None)
      | Inr (status, body) \<Rightarrow>
          if status = 304 then (Inr 0, s, None)
          else if status \<noteq> 200 then (Inl (Err ''Invalid http response''), s, None)
          else (case and_then body (\<lambda>b. if is_base64 then ab_decode E (filter (\<lambda>x. x \<noteq> 13 \<and> x \<noteq> 10) b) else Inr b) of
                  Inl e \<Rightarrow> (Inl e, s, None)
                | Inr b \<Rightarrow>
                    (let (filter_set, line_count) = add_filters E (split_on 10 b) (ab_filter_set E) 0;
                         new_engine = ab_from_filter_set E filter_set;
                         contents = Option.bind (es_cache_file_path s) (\<lambda>_. ab_serialize E new_engine);
                         s' = s\<lparr>es_engine := Some (new_engine, now)\<rparr>
                     in case (es_cache_file_path s, contents) of
                          (Some p, Some buf) \<Rightarrow> (and_then (write_file p buf) (\<lambda>_. Inr line_count), s', Some (p, buf))
                        | _ \<Rightarrow> (Inr line_count, s', None))))"

definition matches_abp :: "('e, 'f) abp_env \<Rightarrow> 'e engine_state \<Rightarrow> address \<Rightarrow> bool" where
  "matches_abp E s a =
     (case es_engine s of
        None \<Rightarrow> False
      | Some (e, _) \<Rightarrow>
          ab_check E e ((if get_port a = 443 then lit ''https://'' else lit ''http://'') @ get_host a))"

definition get_last_updated :: "'e engine_state \<Rightarrow> nat option" where
  "get_last_updated s = map_option snd (es_engine s)"

subsection \<open>The two lists\<close>

record 'e abp_engine =
  ae_state :: "'e engine_state"
  ae_rule_url :: rstr
  ae_is_base64 :: bool

text \<open>\<open>fetched\<close> is now the outcome of the download for a URL and the request's headers.\<close>

definition abp_update ::
  "('e, 'f) abp_env \<Rightarrow> (rstr \<Rightarrow> headers \<Rightarrow> (u16 \<times> bytes res) res) \<Rightarrow> (rstr \<Rightarrow> bytes \<Rightarrow> unit res) \<Rightarrow> nat \<Rightarrow> 'e abp_engine \<Rightarrow>
   nat res \<times> 'e abp_engine" where
  "abp_update E fetched write_file now eng =
     (case update_engine E (fetched (ae_rule_url eng)) write_file now (ae_is_base64 eng) (ae_state eng) of
        (r, s, _) \<Rightarrow> (r, eng\<lparr>ae_state := s\<rparr>))"

definition abp_matches :: "('e, 'f) abp_env \<Rightarrow> 'e abp_engine \<Rightarrow> address \<Rightarrow> bool" where
  "abp_matches E eng target = matches_abp E (ae_state eng) target"

definition adblock_list_engine :: "('e, 'f) abp_env \<Rightarrow> 'e abp_engine" where
  "adblock_list_engine E =
     \<lparr>ae_state = engine_state_new E (lit ''abplist.abp''), ae_rule_url = lit ''https://easylist.to/easylist/easylist.txt'', ae_is_base64 = False\<rparr>"

definition gfw_list_engine :: "('e, 'f) abp_env \<Rightarrow> 'e abp_engine" where
  "gfw_list_engine E =
     \<lparr>ae_state = from_embedded E (lit ''gfw_list.dat'') (lit ''gfwlist.abp''),
      ae_rule_url = lit ''https://raw.githubusercontent.com/gfwlist/gfwlist/master/gfwlist.txt'', ae_is_base64 = True\<rparr>"

section \<open>Lemmas\<close>

text \<open>The lines of a list that are rules, and the rules an engine took.\<close>

definition rule_lines :: "bytes \<Rightarrow> rstr list" where
  "rule_lines b =
     filter (\<lambda>l. l \<noteq> [] \<and> hd l \<noteq> 35 \<and> hd l \<noteq> 33) (map (\<lambda>l. trim (from_utf8_lossy l)) (split_on 10 b))"

fun accepted :: "(rstr \<Rightarrow> 'f \<Rightarrow> 'f res) \<Rightarrow> rstr list \<Rightarrow> 'f \<Rightarrow> 'f \<times> rstr list" where
  "accepted add [] fs = (fs, [])"
| "accepted add (l # ls) fs =
     (case add l fs of
        Inl _ \<Rightarrow> accepted add ls fs
      | Inr fs' \<Rightarrow> (case accepted add ls fs' of (r, took) \<Rightarrow> (r, l # took)))"

lemma starts_with_one: "starts_with l [c] \<longleftrightarrow> l \<noteq> [] \<and> hd l = c"
  by (cases l) (simp_all add: starts_with_def)

lemma add_filters_accepted:
  "add_filters E ls fs n =
     (case accepted (ab_add_filter E) (filter (\<lambda>l. l \<noteq> [] \<and> hd l \<noteq> 35 \<and> hd l \<noteq> 33) (map (\<lambda>l. trim (from_utf8_lossy l)) ls)) fs of
        (r, took) \<Rightarrow> (r, n + length took))"
proof (induction ls arbitrary: fs n)
  case (Cons l ls)
  then show ?case by (auto simp: starts_with_one Let_def split: sum.splits prod.splits)
qed simp

lemma find_byte_drop: "find_byte c xs = Some v \<Longrightarrow> hd (drop v xs) = c"
  by (metis find_byte_Some hd_drop_conv_nth)

lemma url_path_slash: "url_try_from s = Inr u \<Longrightarrow> u_path u = [] \<or> hd (u_path u) = 47"
  by (auto simp: url_try_from_def Let_def res_simps dest!: find_byte_drop split: option.splits if_splits prod.splits)

lemma http_url_path_slash: "http_url_try_from s = Inr u \<Longrightarrow> hu_path u \<noteq> [] \<and> hd (hu_path u) = 47"
  using url_path_slash by (fastforce simp: http_url_try_from_def res_simps lit_def split: if_splits)

section \<open>Properties\<close>

text \<open>
  A download that goes through this program's own proxy asks for the right thing: for a URL whose
  host is a name, the request that \<open>send_http_with_proxy\<close> writes is taken by the handshake of the proxy as a
  request to exactly that host and port, with TLS for \<open>https\<close>, and the request passed on has the
  URL's path and the caller's headers.
\<close>

theorem fetch_through_own_proxy:
  assumes "http_url_try_from url = Inr u" and "hu_address u = Name host port"
    and "58 \<notin> set host" and "47 \<notin> set host" and "host \<noteq> []" and "parse_ip_addr host = None"
    and "\<not> eq_ignore_ascii_case method (lit ''connect'')" and "net_connect N http_proxy = Inr ()"
  shows "\<exists>r. send_http_with_proxy N (hu_is_https u) (hu_address u) (fetch_request u method hs body) http_proxy = Inr (request_to_writer r) \<and>
     handshake_http r = Inr (HrHTTP (hu_address u) (hu_is_https u) (fetch_request u method hs body))"
proof -
  let ?f = "fetch_request u method hs body"
  let ?path = "(if hu_is_https u then lit ''https://'' else lit ''http://'') @ show_address (hu_address u) @ hr_path ?f"
  have slash: "hu_path u \<noteq> []" "hd (hu_path u) = 47" using http_url_path_slash[OF assms(1)] by blast+
  have f: "hr_path ?f = hu_path u" "hr_method ?f = method" by (simp_all add: fetch_request_def Let_def)
  have "?path = (if hu_is_https u then lit ''https'' else lit ''http'') @ lit ''://'' @ host @ [58] @ show_nat (unat port) @ hu_path u"
    using assms(2) f(1) by (simp add: lit_def)
  then have "http_url_try_from ?path = Inr \<lparr>hu_is_https = hu_is_https u, hu_address = address_from host port, hu_path = hu_path u\<rparr>"
    using http_url_parts[OF assms(3-5), of "hu_path u" "hu_is_https u" port] slash by simp
  moreover have "address_from host port = Name host port" using assms(6) by (simp add: address_from_def)
  ultimately have "handshake_http (?f\<lparr>hr_path := ?path\<rparr>) = Inr (HrHTTP (hu_address u) (hu_is_https u) (?f\<lparr>hr_path := hr_path ?f\<rparr>))"
    using assms(2,7) f by (simp add: handshake_http_def)
  moreover have "?f\<lparr>hr_path := hr_path ?f\<rparr> = ?f" by simp
  moreover have "send_http_with_proxy N (hu_is_https u) (hu_address u) ?f http_proxy = Inr (request_to_writer (?f\<lparr>hr_path := ?path\<rparr>))"
    using assms(8) by (simp add: send_http_with_proxy_def)
  ultimately show ?thesis by metis
qed

theorem fetch_through_own_proxy_witness:
  "\<exists>u r. http_url_try_from (lit ''https://easylist.to/l.txt'') = Inr u \<and>
     send_http_with_proxy demo_net True (hu_address u) (fetch_request u (lit ''GET'') [] None) default_address = Inr (request_to_writer r) \<and>
     handshake_http r = Inr (HrHTTP (Name (lit ''easylist.to'') 443) True (fetch_request u (lit ''GET'') [] None))"
proof -
  let ?u = "\<lparr>hu_is_https = True, hu_address = Name (lit ''easylist.to'') 443, hu_path = lit ''/l.txt''\<rparr>"
  have u: "http_url_try_from (lit ''https://easylist.to/l.txt'') = Inr ?u" by code_simp
  have "parse_ip_addr (lit ''easylist.to'') = None" "\<not> eq_ignore_ascii_case (lit ''GET'') (lit ''connect'')" by code_simp+
  then have "\<exists>r. send_http_with_proxy demo_net (hu_is_https ?u) (hu_address ?u) (fetch_request ?u (lit ''GET'') [] None) default_address =
       Inr (request_to_writer r) \<and>
     handshake_http r = Inr (HrHTTP (hu_address ?u) (hu_is_https ?u) (fetch_request ?u (lit ''GET'') [] None))"
    by (intro fetch_through_own_proxy[OF u]) (simp_all add: demo_net_def lit_def)
  then show ?thesis using u by auto
qed

text \<open>
  C37: The outcomes of updating a filter list: either nothing changes, and the result is zero for an
  unmodified list and an error otherwise; or the engine is replaced by one that holds exactly
  the rules it accepted from the lines that are neither empty nor comments, and the result is
  their number. An error of writing the cache file is reported although the new engine is in use.
\<close>

theorem filter_update_outcomes:
  assumes "update_engine E fetched write_file now is_base64 s = (r, s', w)"
  shows "s' = s \<and> w = None \<and> (r = Inr 0 \<and> (\<exists>body. fetched (modified_since E s) = Inr (304, body)) \<or> (\<exists>e. r = Inl e)) \<or>
     (\<exists>body b fs took. fetched (modified_since E s) = Inr (200, Inr body) \<and>
        (if is_base64 then ab_decode E (filter (\<lambda>x. x \<noteq> 13 \<and> x \<noteq> 10) body) else Inr body) = Inr b \<and>
        accepted (ab_add_filter E) (rule_lines b) (ab_filter_set E) = (fs, took) \<and>
        s' = s\<lparr>es_engine := Some (ab_from_filter_set E fs, now)\<rparr> \<and>
        (r = Inr (length took) \<or> (\<exists>p buf e. w = Some (p, buf) \<and> write_file p buf = Inl e \<and> r = Inl e)))"
proof (cases "fetched (modified_since E s)")
  case (Inl e)
  then show ?thesis using assms by (auto simp: update_engine_def)
next
  case (Inr x)
  obtain status body where x: "x = (status, body)" by force
  show ?thesis
  proof (cases "status = 200 \<and> is_ok (and_then body (\<lambda>b. if is_base64 then ab_decode E (filter (\<lambda>x. x \<noteq> 13 \<and> x \<noteq> 10) b) else Inr b))")
    case False
    then show ?thesis using assms Inr x by (auto simp: update_engine_def is_ok_conv split: if_splits sum.splits)
  next
    case True
    then obtain d b where d: "body = Inr d" "(if is_base64 then ab_decode E (filter (\<lambda>x. x \<noteq> 13 \<and> x \<noteq> 10) d) else Inr d) = Inr b"
      by (auto simp: is_ok_conv res_simps)
    obtain fs took where a: "accepted (ab_add_filter E) (rule_lines b) (ab_filter_set E) = (fs, took)" by force
    then have "add_filters E (split_on 10 b) (ab_filter_set E) 0 = (fs, length took)"
      unfolding add_filters_accepted rule_lines_def by simp
    then have run: "(case (es_cache_file_path s, Option.bind (es_cache_file_path s) (\<lambda>_. ab_serialize E (ab_from_filter_set E fs))) of
        (Some p, Some buf) \<Rightarrow> (and_then (write_file p buf) (\<lambda>_. Inr (length took)), s\<lparr>es_engine := Some (ab_from_filter_set E fs, now)\<rparr>, Some (p, buf))
      | _ \<Rightarrow> (Inr (length took), s\<lparr>es_engine := Some (ab_from_filter_set E fs, now)\<rparr>, None)) = (r, s', w)"
      using assms Inr x True d by (simp add: update_engine_def Let_def)
    have "s' = s\<lparr>es_engine := Some (ab_from_filter_set E fs, now)\<rparr>" using run by (auto split: option.splits)
    moreover have "r = Inr (length took) \<or> (\<exists>p buf e. w = Some (p, buf) \<and> write_file p buf = Inl e \<and> r = Inl e)"
      using run by (auto simp: and_then_def split: option.splits sum.splits)
    moreover have "fetched (modified_since E s) = Inr (200, Inr d)" using Inr x True d(1) by simp
    ultimately show ?thesis using d(2) a by blast
  qed
qed

definition demo_abp :: "(rstr list, rstr list) abp_env" where
  "demo_abp = \<lparr>ab_deserialize = (\<lambda>_. Inl (Err ''data'')), ab_serialize = (\<lambda>_. Some [1]), ab_filter_set = [],
     ab_add_filter = (\<lambda>l fs. Inr (l # fs)), ab_from_filter_set = (\<lambda>fs. fs), ab_check = (\<lambda>e u. u \<in> set e), ab_decode = Inr,
     ab_http_date = show_nat, ab_data_dir = None, ab_read_file = (\<lambda>_. Inl (Err ''file'')), ab_asset = (\<lambda>_. None)\<rparr>"

theorem filter_update_outcomes_witness:
  "\<exists>r s' w. update_engine demo_abp (\<lambda>_. Inr (200, Inr [97, 10, 98])) (\<lambda>_ _. Inl (Err ''disk'')) 9 False
       \<lparr>es_engine = None, es_cache_file_path = Some []\<rparr> = (r, s', w) \<and> (\<exists>e. r = Inl e) \<and> es_engine s' \<noteq> None"
proof -
  let ?s = "\<lparr>es_engine = None, es_cache_file_path = Some []\<rparr> :: rstr list engine_state"
  obtain r s' w where u: "update_engine demo_abp (\<lambda>_. Inr (200, Inr [97, 10, 98])) (\<lambda>_ _. Inl (Err ''disk'')) 9 False ?s = (r, s', w)"
    by (metis prod.exhaust)
  moreover have "w \<noteq> None" using u by (auto simp: update_engine_def demo_abp_def split: prod.splits)
  moreover have "\<exists>e. r = Inl e" using u by (auto simp: update_engine_def demo_abp_def split: prod.splits)
  ultimately show ?thesis using filter_update_outcomes[OF u] by auto
qed

text \<open>
  Both lists can be fetched: their addresses are URLs the program accepts, over TLS, on the default port. Without a cached file
  the ad list matches nothing before its first update, whatever is embedded.
\<close>

theorem lists_fetchable:
  "(\<exists>u. http_url_try_from (ae_rule_url (adblock_list_engine E)) = Inr u \<and> hu_is_https u \<and> hu_address u = Name (lit ''easylist.to'') 443) \<and>
   (\<exists>u. http_url_try_from (ae_rule_url (gfw_list_engine E)) = Inr u \<and> hu_is_https u \<and> hu_address u = Name (lit ''raw.githubusercontent.com'') 443) \<and>
   (ab_data_dir E = None \<longrightarrow> \<not> abp_matches E (adblock_list_engine E) a)"
proof -
  have "\<exists>u. http_url_try_from (lit ''https://easylist.to/easylist/easylist.txt'') = Inr u \<and> hu_is_https u \<and>
      hu_address u = Name (lit ''easylist.to'') 443"
    by (rule exI[of _ "projr (http_url_try_from (lit ''https://easylist.to/easylist/easylist.txt''))"]) code_simp
  moreover have "\<exists>u. http_url_try_from (lit ''https://raw.githubusercontent.com/gfwlist/gfwlist/master/gfwlist.txt'') = Inr u \<and> hu_is_https u \<and>
      hu_address u = Name (lit ''raw.githubusercontent.com'') 443"
    by (rule exI[of _ "projr (http_url_try_from (lit ''https://raw.githubusercontent.com/gfwlist/gfwlist/master/gfwlist.txt''))"]) code_simp
  ultimately show ?thesis
    by (simp add: adblock_list_engine_def gfw_list_engine_def abp_matches_def matches_abp_def engine_state_new_def)
qed

end
