(* ===== verification/Geo_Build.thy ===== *)
theory Geo_Build
  imports Geoip
begin

text \<open>
  The tool that writes the GeoIP table (fetcher/src/main.rs) from a list of ranges in text form, one per
  line: start, end and country code, separated by commas. Its unwraps are panics.
\<close>

section \<open>Model\<close>

text \<open>\<open>trim_matches\<close> of line ends, on both sides.\<close>

definition trim_newlines :: "rstr \<Rightarrow> rstr" where
  "trim_newlines s = rev (dropWhile (\<lambda>b. b = 10) (rev (dropWhile (\<lambda>b. b = 10) s)))"

definition parse_u32 :: "rstr \<Rightarrow> u32 option" where
  "parse_u32 s = map_option of_nat (parse_uint (2 ^ 32) s)"

definition unwrap :: "'a option \<Rightarrow> 'a res" where
  "unwrap x = (case x of Some v \<Rightarrow> Inr v | None \<Rightarrow> Inl (Panic ''called unwrap on a None value''))"

text \<open>One line: the start of its range and the bytes of its record.\<close>

definition geo_line :: "rstr \<Rightarrow> u32 option \<Rightarrow> (u32 \<times> bytes) res" where
  "geo_line l last_start =
     (let splits = split_on 44 (trim_newlines l); next = (\<lambda>i. if i < length splits then Some (splits ! i) else None)
      in and_then (unwrap (Option.bind (next 0) parse_u32)) (\<lambda>start.
         and_then (unwrap (Option.bind (next 1) parse_u32)) (\<lambda>end_addr.
         and_then (unwrap (next 2)) (\<lambda>code.
           if length code \<noteq> 2 then Inl (Panic ''Invalid country code'')
           else (case last_start of
                   Some l0 \<Rightarrow> if start < l0 then Inl (Panic ''Order is wrong!'') else Inr (start, be32 start @ be32 end_addr @ code)
                 | None \<Rightarrow> Inr (start, be32 start @ be32 end_addr @ code))))))"

text \<open>\<open>download_geo_ip\<close> on the lines of the response: the file it writes.\<close>

fun download_geo_ip :: "rstr list \<Rightarrow> u32 option \<Rightarrow> bytes res" where
  "download_geo_ip [] last_start = Inr []"
| "download_geo_ip (l # ls) last_start =
     and_then (geo_line l last_start) (\<lambda>(start, record). and_then (download_geo_ip ls (Some start)) (\<lambda>rest. Inr (record @ rest)))"

text \<open>
  The output goes through a \<open>BufWriter\<close> of 8192 bytes. \<open>disk\<close> says of each write to the file whether it succeeds. When the writer is dropped, it
  writes what it still holds and ignores the error.
\<close>

record buf_writer =
  bw_file :: bytes
  bw_buf :: bytes
  bw_writes :: nat

definition bw_flush :: "(nat \<Rightarrow> bool) \<Rightarrow> buf_writer \<Rightarrow> buf_writer res" where
  "bw_flush disk w =
     (if disk (bw_writes w) then Inr \<lparr>bw_file = bw_file w @ bw_buf w, bw_buf = [], bw_writes = bw_writes w + 1\<rparr>
      else Inl (Panic ''called unwrap on an Err value''))"

definition bw_write_all :: "(nat \<Rightarrow> bool) \<Rightarrow> bytes \<Rightarrow> buf_writer \<Rightarrow> buf_writer res" where
  "bw_write_all disk d w =
     and_then (if 8192 - length (bw_buf w) < length d then bw_flush disk w else Inr w) (\<lambda>w'. Inr (w'\<lparr>bw_buf := bw_buf w' @ d\<rparr>))"

definition bw_drop :: "(nat \<Rightarrow> bool) \<Rightarrow> buf_writer \<Rightarrow> bytes" where
  "bw_drop disk w = (case bw_flush disk w of Inr w' \<Rightarrow> bw_file w' | Inl _ \<Rightarrow> bw_file w)"

text \<open>The loop with its three writes for a line.\<close>

fun write_geo_ip :: "(nat \<Rightarrow> bool) \<Rightarrow> rstr list \<Rightarrow> u32 option \<Rightarrow> buf_writer \<Rightarrow> buf_writer res" where
  "write_geo_ip disk [] last_start w = Inr w"
| "write_geo_ip disk (l # ls) last_start w =
     and_then (geo_line l last_start) (\<lambda>(start, record).
     and_then (bw_write_all disk (take 4 record) w) (\<lambda>w1.
     and_then (bw_write_all disk (take 4 (drop 4 record)) w1) (\<lambda>w2.
     and_then (bw_write_all disk (drop 8 record) w2) (\<lambda>w3. write_geo_ip disk ls (Some start) w3))))"

text \<open>
  \<open>main\<close>: the directory is the first argument behind the program's name; the work is done in a thread, whose panic is one
  of \<open>main\<close>. \<open>create\<close> is the outcome of creating the file, \<open>response\<close> the lines the server sent.
\<close>

definition fetcher_main ::
  "rstr list \<Rightarrow> unit res \<Rightarrow> rstr list res \<Rightarrow> (nat \<Rightarrow> bool) \<Rightarrow> (rstr list \<times> bytes) res" where
  "fetcher_main args create response disk =
     and_then (case args of _ # out_dir # _ \<Rightarrow> Inr out_dir | _ \<Rightarrow> Inl (Panic ''OUT_DIR to be the first argument'')) (\<lambda>out_dir.
     case create of
       Inl _ \<Rightarrow> Inl (Panic ''called unwrap on an Err value'')
     | Inr _ \<Rightarrow>
         (case response of
            Inl _ \<Rightarrow> Inl (Panic ''called unwrap on an Err value'')
          | Inr ls \<Rightarrow>
              and_then (write_geo_ip disk ls None \<lparr>bw_file = [], bw_buf = [], bw_writes = 0\<rparr>) (\<lambda>w.
                Inr ([out_dir, lit ''geoip'', lit ''ipv4.dat''], bw_drop disk w))))"

subsection \<open>The filter list\<close>

text \<open>
  \<open>download_gfw_list\<close>, whose call in \<open>main\<close> is commented out: the response without its line ends is base64; each line of the
  decoded text that is neither empty nor a comment has to be a filter. The decoder and the filter library are parameters.
\<close>

definition gfw_rule :: "rstr \<Rightarrow> rstr option" where
  "gfw_rule l = (let line = trim (trim_newlines l) in if line \<noteq> [] \<and> \<not> starts_with line (lit ''!'') then Some line else None)"

fun gfw_filters :: "(rstr \<Rightarrow> 'f \<Rightarrow> 'f res) \<Rightarrow> bytes list \<Rightarrow> 'f \<Rightarrow> 'f res" where
  "gfw_filters add [] fs = Inr fs"
| "gfw_filters add (l # ls) fs =
     (if \<not> utf8_valid l then Inl (Panic ''called unwrap on an Err value'')
      else case gfw_rule l of
             None \<Rightarrow> gfw_filters add ls fs
           | Some line \<Rightarrow>
               (case add line fs of
                  Inl _ \<Rightarrow> Inl (Panic ''called unwrap on an Err value'')
                | Inr fs' \<Rightarrow> gfw_filters add ls fs'))"

definition download_gfw_list ::
  "(bytes \<Rightarrow> bytes option) \<Rightarrow> (rstr \<Rightarrow> 'f \<Rightarrow> 'f res) \<Rightarrow> 'f \<Rightarrow> ('f \<Rightarrow> bytes) \<Rightarrow> unit res \<Rightarrow> bytes res \<Rightarrow> bytes res" where
  "download_gfw_list decode add fs0 serialise create response =
     (case (create, response) of
        (Inr _, Inr b) \<Rightarrow>
          and_then (unwrap (decode (filter (\<lambda>x. x \<noteq> 10) b))) (\<lambda>text.
          and_then (gfw_filters add (split_on 10 text) fs0) (\<lambda>fs. Inr (serialise fs)))
      | _ \<Rightarrow> Inl (Panic ''called unwrap on an Err value''))"

section \<open>Lemmas\<close>

definition geo_text :: "geo_record \<Rightarrow> rstr" where
  "geo_text r = show_nat (unat (geo_start r)) @ [44] @ show_nat (unat (geo_end r)) @ [44] @ cc_slice (geo_cc r) @ [10]"

fun cc_plain :: "country_code \<Rightarrow> bool" where
  "cc_plain (CountryCode a b) = (a \<noteq> 44 \<and> b \<noteq> 44 \<and> a \<noteq> 10 \<and> b \<noteq> 10)"

definition geo_bytes :: "geo_record \<Rightarrow> bytes" where
  "geo_bytes r = be32 (geo_start r) @ be32 (geo_end r) @ cc_slice (geo_cc r)"

lemma show_nat_no: "c \<in> {44, 10} \<Longrightarrow> c \<notin> set (show_nat n)"
  using show_nat_digits[of c n] by (auto simp: is_digit_def)

lemma trim_newlines_text:
  assumes "s \<noteq> []" and "hd s \<noteq> 10" and "last s \<noteq> 10"
  shows "trim_newlines (s @ [10]) = s"
proof -
  have "dropWhile (\<lambda>b. b = 10) (s @ [10]) = s @ [10]" using assms(1,2) by (cases s) auto
  moreover have "dropWhile (\<lambda>b. b = 10) (rev s) = rev s" using assms(1,3) by (cases s rule: rev_cases) auto
  ultimately show ?thesis by (simp add: trim_newlines_def)
qed

lemma geo_line_text:
  assumes "cc_plain (geo_cc r)" and "\<forall>l0. last_start = Some l0 \<longrightarrow> l0 \<le> geo_start r"
  shows "geo_line (geo_text r) last_start = Inr (geo_start r, geo_bytes r)"
proof -
  obtain a b where cc: "geo_cc r = CountryCode a b" by (cases "geo_cc r")
  let ?s = "show_nat (unat (geo_start r))" and ?e = "show_nat (unat (geo_end r))"
  let ?line = "?s @ [44] @ ?e @ [44] @ [a, b]"
  have "hd ?line \<noteq> 10" using show_nat_no[of 10 "unat (geo_start r)"] by (cases ?s) auto
  then have t: "trim_newlines (geo_text r) = ?line" using trim_newlines_text[of ?line] assms(1) cc by (simp add: geo_text_def)
  have "split_on 44 ?line = [?s, ?e, [a, b]]"
    using split_on_append[OF show_nat_no[of 44]] split_on_single[of 44 "[a, b]"] assms(1) cc by simp
  moreover have "parse_u32 (show_nat (unat x)) = Some x" for x
  proof -
    have "unat x < 2 ^ 32" using unsigned_less[of x] by simp
    then show ?thesis by (simp add: parse_u32_def)
  qed
  ultimately show ?thesis using t assms(2) cc
    by (auto simp: geo_line_def unwrap_def geo_bytes_def Let_def split: option.splits)
qed

lemma load_geo_bytes: "load_ip_dat (geo_bytes r @ rest) = r # load_ip_dat rest"
proof -
  obtain a b where cc: "geo_cc r = CountryCode a b" by (cases "geo_cc r")
  have l: "length (be32 x) = 4" for x by simp
  have "load_ip_dat (be32 s @ be32 e @ a # b # rest) = \<lparr>geo_start = s, geo_end = e, geo_cc = CountryCode a b\<rparr> # load_ip_dat rest" for s e
    by (subst load_ip_dat.simps) (simp add: l nth_append del: to_be.simps)
  then show ?thesis using cc by (simp add: geo_bytes_def)
qed

lemma load_built:
  assumes "list_all (\<lambda>r. cc_plain (geo_cc r)) rs" and "sorted (map geo_start rs)" and "\<forall>l0. last_start = Some l0 \<longrightarrow> (\<forall>r \<in> set rs. l0 \<le> geo_start r)"
  shows "\<exists>raw. download_geo_ip (map geo_text rs) last_start = Inr raw \<and> load_ip_dat raw = rs"
  using assms
proof (induction rs arbitrary: last_start)
  case Nil
  then show ?case by (simp add: load_ip_dat.simps)
next
  case (Cons r rs)
  obtain raw where raw: "download_geo_ip (map geo_text rs) (Some (geo_start r)) = Inr raw" "load_ip_dat raw = rs"
    using Cons.IH[of "Some (geo_start r)"] Cons.prems by auto
  have "geo_line (geo_text r) last_start = Inr (geo_start r, geo_bytes r)" using geo_line_text Cons.prems by simp
  then show ?case using raw load_geo_bytes by simp
qed

lemma geo_ok_starts: "geo_ok rs \<Longrightarrow> sorted (map geo_start rs)"
  using strict_sorted_imp_sorted[OF geo_ok_sorted] .

section \<open>Properties\<close>



text \<open>The writer holds at most its capacity, and what it was given is in the file or in its buffer.\<close>

lemma bw_write_all_ok:
  assumes "\<And>n. disk n" and "length (bw_buf w) \<le> 8192" and "length d \<le> 8192"
  shows "\<exists>w'. bw_write_all disk d w = Inr w' \<and> bw_file w' @ bw_buf w' = bw_file w @ bw_buf w @ d \<and> length (bw_buf w') \<le> 8192"
  using assms by (auto simp: bw_write_all_def bw_flush_def)

lemma geo_line_length: "geo_line l last_start = Inr (start, record) \<Longrightarrow> length record = 10"
  by (auto simp: geo_line_def Let_def and_then_Inr_conv split: if_splits option.splits)

lemma write_geo_ip_ok:
  assumes "\<And>n. disk n" and "length (bw_buf w) \<le> 8192" and "download_geo_ip ls last_start = Inr raw"
  shows "\<exists>w'. write_geo_ip disk ls last_start w = Inr w' \<and> bw_file w' @ bw_buf w' = bw_file w @ bw_buf w @ raw"
  using assms(2,3)
proof (induction ls arbitrary: last_start w raw)
  case (Cons l ls)
  obtain start rcd rest where g: "geo_line l last_start = Inr (start, rcd)" "download_geo_ip ls (Some start) = Inr rest"
      "raw = rcd @ rest" using Cons.prems(2) by (auto simp: and_then_Inr_conv)
  have len: "length rcd = 10" by (rule geo_line_length[OF g(1)])
  note ok = bw_write_all_ok[where disk = disk, OF assms(1)]
  obtain w1 where w1: "bw_write_all disk (take 4 rcd) w = Inr w1"
      "bw_file w1 @ bw_buf w1 = bw_file w @ bw_buf w @ take 4 rcd" "length (bw_buf w1) \<le> 8192"
    using ok[of w "take 4 rcd"] Cons.prems(1) len by auto
  obtain w2 where w2: "bw_write_all disk (take 4 (drop 4 rcd)) w1 = Inr w2"
      "bw_file w2 @ bw_buf w2 = bw_file w1 @ bw_buf w1 @ take 4 (drop 4 rcd)" "length (bw_buf w2) \<le> 8192"
    using ok[of w1 "take 4 (drop 4 rcd)"] w1(3) len by auto
  obtain w3 where w3: "bw_write_all disk (drop 8 rcd) w2 = Inr w3"
      "bw_file w3 @ bw_buf w3 = bw_file w2 @ bw_buf w2 @ drop 8 rcd" "length (bw_buf w3) \<le> 8192"
    using ok[of w2 "drop 8 rcd"] w2(3) len by auto
  have "take 4 rcd @ take 4 (drop 4 rcd) @ drop 8 rcd = rcd"
    by (metis append_take_drop_id drop_drop numeral_Bit0 add.commute)
  then have "bw_file w3 @ bw_buf w3 = bw_file w @ bw_buf w @ rcd" using w1(2) w2(2) w3(2) by (metis append.assoc)
  then show ?case using Cons.IH[OF w3(3) g(2)] g w1(1) w2(1) w3(1) by auto
qed auto

text \<open>
  The tool's file is the table: on a disk without errors \<open>main\<close> ends without a panic, and the program loads exactly the ranges
  of the list from the file it has written.
\<close>

theorem fetched_table_loads:
  assumes "list_all (\<lambda>r. cc_plain (geo_cc r)) rs" and "geo_ok rs" and "\<And>n. disk n"
  shows "\<exists>raw. fetcher_main (prog # out_dir # rest_args) (Inr ()) (Inr (map geo_text rs)) disk = Inr ([out_dir, lit ''geoip'', lit ''ipv4.dat''], raw) \<and>
     load_ip_dat raw = rs"
proof -
  obtain raw where raw: "download_geo_ip (map geo_text rs) None = Inr raw" "load_ip_dat raw = rs"
    using load_built[OF assms(1) geo_ok_starts[OF assms(2)], of None] by auto
  obtain w where w: "write_geo_ip disk (map geo_text rs) None \<lparr>bw_file = [], bw_buf = [], bw_writes = 0\<rparr> = Inr w"
      "bw_file w @ bw_buf w = raw"
    using write_geo_ip_ok[where disk = disk, OF assms(3) _ raw(1), of "\<lparr>bw_file = [], bw_buf = [], bw_writes = 0\<rparr>"] by auto
  then show ?thesis using raw(2) assms(3) by (simp add: fetcher_main_def bw_drop_def bw_flush_def)
qed

text \<open>
  A disk that fails goes unnoticed at the end: what the writer holds when it is dropped, all of a table of up to 8192 bytes, is
  lost without a panic, and the tool reports success with an empty file.
\<close>

theorem lost_table_unnoticed:
  "fetcher_main [lit ''fetcher'', lit ''out''] (Inr ()) (Inr [geo_text \<lparr>geo_start = 10, geo_end = 20, geo_cc = CountryCode 78 90\<rparr>]) (\<lambda>_. False) =
     Inr ([lit ''out'', lit ''geoip'', lit ''ipv4.dat''], [])"
  by code_simp

text \<open>
  The filter list: blank lines and comments never matter, and every other line has to be accepted by the library, in order.
\<close>

theorem gfw_list_rules:
  assumes "list_all utf8_valid ls"
  shows "gfw_filters add ls fs = gfw_filters add (filter (\<lambda>l. gfw_rule l \<noteq> None) ls) fs \<and>
     (gfw_filters add ls fs = Inr fs' \<longrightarrow> fold (\<lambda>l r. and_then r (add l)) (List.map_filter gfw_rule ls) (Inr fs) = Inr fs')"
  using assms by (induction ls arbitrary: fs) (auto simp: map_filter_simps split: option.splits sum.splits)

end
