(* ===== verification/Spec2Isabelle.thy ===== *)
theory Spec2Isabelle
  imports Udpman_Serve Udpman_Session Buffers Timeouts Tunnel_Relay Run_Controller Upstream_Open Programs Streams Tsock Run_Client Filter_Lists
    Geo_Build
begin

text \<open>
  Verification of cpxy, a multi-protocol proxy. Paths below are relative to src/src of the
  repository.

  \<^bold>\<open>The program.\<close> A controller (controller.rs) keeps the configuration and announces every change to
  the running client (client/handler.rs). The client listens for local connections, finds out their
  protocol (handshake.rs: SOCKS4, SOCKS5, HTTP; or a transparently redirected connection), asks the
  traffic rules (rule.rs, with geoip, dns.rs, sni.rs and the filter lists of abp) which upstreams
  may serve the destination (config.rs), opens a stream or datagrams on one of them (protocol/...)
  and relays. The upstream protocols are an encrypted tunnel over HTTP (tcpman), a UDP protocol
  (udpman), FireTCP, SOCKS5, HTTP and direct connections; for the first three and for HTTP the
  program also contains the server.

  \<^bold>\<open>The model.\<close> Pure code is a function; code that changes state takes and returns it as a
  record; failing code returns \<open>fault + 'a\<close>, where \<open>Err\<close> is an error value and \<open>Panic\<close> a panic. Strings
  are lists of bytes, integers words of their width, or \<open>nat\<close> for lengths and indices with the
  overflow checks written out. A stream a component reads is the list of the segments that arrive
  (every segmentation is quantified over), what it writes is part of its result; one poll of an
  asynchronous operation takes the outcome of the inner one as an argument. Tasks that run
  concurrently are step functions on a common state, and the reachable states of all
  interleavings are an inductive predicate. Third-party code is an argument: the HTTP tokenizer, the
  ChaCha20 key stream, base64, JSON and YAML, DNS and TLS parsers, the filter engine, globs,
  the clock, files and sockets.

  \<^bold>\<open>Theories.\<close>
  \<^item> \<open>Prelude\<close>, \<open>Rust_Str\<close>, \<open>Rust_Search\<close>, \<open>Rust_Net\<close>: results, words and byte order, streams; strings with UTF-8,
    numbers and trimming; binary search; IP addresses and their text.
  \<^item> \<open>Rw_Buffer\<close> (buf.rs): invariant and the effect of each operation on the unread content.
  \<^item> \<open>Stream_Parser\<close>: the locale \<open>stream_parser\<close> of parsers on a growing buffer, with the read loop
    proved once for all of them, and the locale \<open>codec\<close>, which adds an encoder. Interpreted for SOCKS5
    addresses, greetings and requests, for SOCKS4 requests and, given a tokenizer, for HTTP heads.
  \<^item> \<open>Socks5_Addr\<close>, \<open>Socks5_Msg\<close> (socks5, socks4.rs): formats, round trips, accessors.
  \<^item> \<open>Http\<close> (http.rs, url.rs, http_path.rs): heads and bodies read exactly for every segmentation.
  \<^item> \<open>Handshake\<close> (handshake.rs): detection does not depend on the segmentation; the SOCKS5 handshake.
  \<^item> \<open>Geoip\<close>, \<open>Geo_Build\<close> (geoip, and fetcher/src/main.rs of the repository): the bisection agrees with a linear
    search, and the table the tool writes is the table the program loads; the tool as a whole.
  \<^item> \<open>Sniff\<close>, \<open>Rules\<close> (sni.rs, dns.rs, rule.rs): the sniffers terminate; the level-limited rule engine
    computes the meaning of the tables.
  \<^item> \<open>Udp_Io\<close> (io/udp.rs, io/timer.rs): the buffered sink is a bounded queue.
  \<^item> \<open>Udpman_Proto\<close>, \<open>Conn_Map\<close>, \<open>Udpman_Server\<close>, \<open>Udpman_Serve\<close>, \<open>Udpman_Client\<close>, \<open>Udpman_Session\<close> (protocol/udpman): message
    format, the sorted table as a refinement of a map, invariant of the reachable server states, the datagrams the
    whole server sends, and a session from the connect request to the delivered data.
  \<^item> \<open>Ciphers\<close>, \<open>Cipher_Stream\<close>, \<open>Packet_Stream\<close>, \<open>Tcpman\<close> (protocol/tcpman, ws.rs): the encrypted tunnel is
    transparent under every pattern of pending and short writes; datagrams survive it; it opens.
  \<^item> \<open>Fire_Tcp\<close>, \<open>Fire_Key\<close> (protocol/firetcp, part of utils.rs): half streams that change their cipher; the keys
    derived from a password, and that both sides of a session with one password understand each other.
  \<^item> \<open>Upstreams\<close> (config.rs, client/stats.rs, counter.rs, client/common.rs): choice of upstreams, counters in
    a store that expresses their sharing, and the loop that connects.
  \<^item> \<open>Protocols\<close> (protocol/direct, socks5, http, io/utils.rs): opening streams and datagrams, and that the
    program understands itself as the next hop.
  \<^item> \<open>Upstream_Open\<close> (protocol/mod.rs, the \<open>Protocol\<close> implementations): a configured upstream of any kind opens a
    stream or an exchange of datagrams; what it refuses; the datagrams of a tunnel are relayed.
  \<^item> \<open>Relay\<close> (\<open>copy_duplex\<close> of utils.rs): what reaches either side is a prefix of what the other one sent, under all
    interleavings of the two copy tasks; a whole SOCKS5 connection from its first byte to its end.
  \<^item> \<open>Tunnel_Relay\<close>: the relays of client and server with the encrypted tunnel between them as one system, in which
    nothing is lost, invented or reordered.
  \<^item> \<open>Streams\<close> (io/stream.rs, fetch.rs, http.rs, io/utils.rs): streams made of others: joined of two halves, with bytes in
    front, counted.
  \<^item> \<open>Buffers\<close> (utils.rs): buffers of uninitialised memory, which is never looked at.
  \<^item> \<open>Timeouts\<close> (dns.rs, io/timer.rs): the age of cached names, and waiting for the timer of a session.
  \<^item> \<open>Client_Conn\<close>, \<open>Udp_Assoc\<close>, \<open>Transparent\<close> (client): one local connection, one UDP association, the transparent
    UDP proxy with its table of sessions.
  \<^item> \<open>Tsock\<close> (client/transparent/utils.rs and utils.c, io/tcp.rs): the sockets of the transparent proxy, with ownership of
    their descriptors and the addresses read from the kernel's memory.
  \<^item> \<open>Controller\<close>, \<open>Run_Controller\<close>, \<open>Iptables\<close>, \<open>Run_Client\<close> (controller.rs, broadcast.rs, iptables.rs,
    client/handler.rs): the controller's invariant, atomic changes, its loop, and the client that follows it.
  \<^item> \<open>Filter_Lists\<close> (abp, fetch.rs): loading a filter list and updating it through the program's own proxy.
  \<^item> \<open>Programs\<close> (bin/cpxy.rs, jni_export.rs, the accept loops): starting the services, isolation of connections, the
    FireTCP server's table of clients with its invariant, the handles of the Android binding.

  \<^bold>\<open>Interfaces.\<close> What one component relies on of another is a locale, interpreted on the definitions that
  provide it: \<open>byte_queue\<close> (\<open>Rw_Buffer\<close>), \<open>stream_parser\<close> and \<open>codec\<close> (\<open>Stream_Parser\<close>), \<open>id_table\<close> (\<open>Conn_Map\<close>),
  \<open>stream_cipher\<close> and \<open>full_cipher\<close> (\<open>Ciphers\<close>), \<open>stateful_codec\<close> (\<open>Packet_Stream\<close>), \<open>upstream_loop\<close>
  (\<open>Upstreams\<close>, interpreted there for streams and in \<open>Udp_Assoc\<close> for datagrams) and \<open>stream_halves\<close> (\<open>Streams\<close>,
  interpreted for sockets, for their unions and for sockets with a buffer in front).

  \<^bold>\<open>Termination, bounds and fuel.\<close> Loops over a finite stream are total functions (their measure is what is
  left of the stream); the chunked body reader, which need not end, is a partial function whose
  \<open>None\<close> is divergence. No definition uses fuel; the depth limit of the rule engine is the
  program's own.

  \<^bold>\<open>Errors of the program.\<close> Some theorems state behaviour that is not intended: data lost behind a
  request, replies cut by a half-closed connection, a cipher that loses step, a key stream used twice,
  ids and clean-up messages that reach a successor, a copy that overruns its buffer, a timer that never fires, one error that ends a whole server, panics on particular input. They are
  stated so that a repair shows.

  \<^bold>\<open>Not modelled.\<close> The scheduler that spawns tasks, beyond the interleavings the step relations allow; writes that fail, except where a component
  reacts to them; conversions between borrowed and owned bytes, which are the same value here, and texts for logs; build scripts and
  tests; bench_client, which belongs to no module of the crate and refers to modules that no longer exist. The numbers in timeouts
  matter only where a theorem names them, otherwise as the outcome "timed out".
\<close>

end
